(* ===== verification/Prelude.thy ===== *)
theory Prelude
  imports Main "HOL-Library.Word" "HOL-Library.Sublist"
begin

text \<open>
  Shared vocabulary of the development: Go's fixed-width integers, the clock, results that
  may be an error, and the collections of rewrite rules the component theories fill.

  A Go \<open>string\<close> and a Go \<open>[]byte\<close> are both sequences of bytes. A string is a HOL
  \<open>string\<close> (a list of 8-bit characters); a byte slice is a list of \<open>8 word\<close>.
\<close>

named_theorems decoder_defs \<open>what the decoder of a field unfolds to\<close>
named_theorems ascii_simps \<open>texts of ASCII characters are UTF-8\<close>

type_synonym byte = "8 word"
type_synonym bytes = "8 word list"

definition bytes_of :: "string \<Rightarrow> bytes" where
  "bytes_of s = map (\<lambda>c. word_of_nat (of_char c)) s"

definition string_of :: "bytes \<Rightarrow> string" where
  "string_of bs = map (\<lambda>b. char_of (unat b)) bs"

lemma char_of_byte [simp]: "char_of (unat (word_of_nat (of_char c) :: byte)) = c"
  by (simp add: unat_of_nat)

lemma byte_of_char [simp]: "word_of_nat (of_char (char_of (unat b))) = (b :: byte)"
proof -
  have "unat b < 2 ^ LENGTH(8)" by (rule unsigned_less)
  then show ?thesis by simp
qed

lemma bytes_of_string_of [simp]: "bytes_of (string_of bs) = bs"
  using byte_of_char by (simp only: string_of_def bytes_of_def map_map comp_def map_ident)

lemma string_of_bytes_of [simp]: "string_of (bytes_of s) = s"
  by (simp add: string_of_def bytes_of_def comp_def)

lemma length_bytes_of [simp]: "length (bytes_of s) = length s"
  by (simp add: bytes_of_def)

lemma length_string_of [simp]: "length (string_of bs) = length bs"
  by (simp add: string_of_def)

lemma bytes_of_append [simp]: "bytes_of (s @ t) = bytes_of s @ bytes_of t"
  by (simp add: bytes_of_def)

lemma bytes_of_inject [simp]: "bytes_of s = bytes_of t \<longleftrightarrow> s = t"
  by (metis string_of_bytes_of)

subsection \<open>Hexadecimal digits\<close>

definition hex_digit :: "nat \<Rightarrow> char" where
  "hex_digit d = char_of (if d < 10 then 48 + d else 87 + d)"

definition hex_val :: "char \<Rightarrow> nat option" where
  "hex_val c =
     (let n = (of_char c :: nat) in
      if 48 \<le> n \<and> n \<le> 57 then Some (n - 48)
      else if 97 \<le> n \<and> n \<le> 102 then Some (n - 87)
      else if 65 \<le> n \<and> n \<le> 70 then Some (n - 55)
      else None)"

lemma hex_val_hex_digit [simp]: "d < 16 \<Longrightarrow> hex_val (hex_digit d) = Some d"
  by (auto simp: hex_val_def hex_digit_def Let_def)

subsection \<open>Go's int (64-bit two's complement)\<close>

text \<open>
  A Go \<open>int\<close> or \<open>int64\<close> is modelled as an \<open>int\<close>; every operation of the code that can
  leave the 64-bit range is followed by \<open>wrap64\<close>.
\<close>

definition wrap64 :: "int \<Rightarrow> int" where
  "wrap64 x = (x + 2 ^ 63) mod 2 ^ 64 - 2 ^ 63"

definition int64_range :: "int \<Rightarrow> bool" where
  "int64_range x \<longleftrightarrow> - (2 ^ 63) \<le> x \<and> x < 2 ^ 63"

lemma wrap64_id [simp]: "- (2 ^ 63) \<le> x \<Longrightarrow> x < 2 ^ 63 \<Longrightarrow> wrap64 x = x"
  by (simp add: wrap64_def)

lemma wrap64_range: "int64_range (wrap64 x)"
proof -
  have "0 \<le> (x + 2 ^ 63) mod 2 ^ 64" "(x + 2 ^ 63) mod 2 ^ 64 < 2 ^ 64"
    by (simp_all add: pos_mod_bound)
  then show ?thesis by (simp add: wrap64_def int64_range_def)
qed

text \<open>The conversion \<open>uint64(x)\<close> of an \<open>int\<close>.\<close>

definition uint64_of_int :: "int \<Rightarrow> 64 word" where
  "uint64_of_int x = word_of_int x"

subsection \<open>Time\<close>

text \<open>
  An instant (\<open>time.Time\<close>) is the number of nanoseconds since the Unix epoch; a
  \<open>time.Duration\<close> is a number of nanoseconds that fits an \<open>int64\<close>. Every call of
  \<open>time.Now()\<close> is an explicit argument of the model.
\<close>

type_synonym instant = int
type_synonym duration = int

definition second :: duration where "second = 1000000000"
definition minute :: duration where "minute = 60000000000"
definition millisecond :: duration where "millisecond = 1000000"

text \<open>The zero \<open>time.Time\<close> is 1 January of year 1, UTC.\<close>

definition zero_time :: instant where
  "zero_time = - 62135596800 * 1000000000"

text \<open>\<open>t.Sub(u)\<close> saturates at the bounds of a \<open>Duration\<close>.\<close>

definition time_sub :: "instant \<Rightarrow> instant \<Rightarrow> duration" where
  "time_sub t u = max (- (2 ^ 63)) (min (2 ^ 63 - 1) (t - u))"

definition unix :: "instant \<Rightarrow> int" where
  "unix t = t div 1000000000"

definition time_unix :: "int \<Rightarrow> instant" where
  "time_unix sec = sec * 1000000000"

text \<open>\<open>time.Duration(n) * time.Second\<close>\<close>

definition seconds :: "int \<Rightarrow> duration" where
  "seconds n = wrap64 (n * second)"

lemma seconds_small: "0 \<le> n \<Longrightarrow> n \<le> 9000000000 \<Longrightarrow> seconds n = n * 1000000000"
  by (simp add: seconds_def second_def)

lemma unix_le_iff: "k \<le> unix t \<longleftrightarrow> time_unix k \<le> t"
proof -
  have "t = 1000000000 * (t div 1000000000) + t mod 1000000000"
    "0 \<le> t mod 1000000000" "t mod 1000000000 < 1000000000"
    by simp_all
  then show ?thesis unfolding unix_def time_unix_def by linarith
qed

lemma unix_less_iff: "unix t < k \<longleftrightarrow> t < time_unix k"
  using unix_le_iff [of k t] by linarith

lemma unix_mono: "t \<le> u \<Longrightarrow> unix t \<le> unix u"
  by (simp add: unix_def zdiv_mono1)

lemma unix_add_seconds: "unix (t + n * 1000000000) = unix t + n"
  by (simp add: unix_def)

lemma time_sub_less_iff: "0 \<le> d \<Longrightarrow> d < 2 ^ 63 \<Longrightarrow> d \<le> time_sub t u \<longleftrightarrow> d \<le> t - u"
  by (auto simp: time_sub_def max_def min_def)

subsection \<open>Results that may be an error\<close>

text \<open>\<open>Inl e\<close> is the error return \<open>e\<close>, \<open>Inr x\<close> the result.\<close>

fun bind_err :: "'e + 'a \<Rightarrow> ('a \<Rightarrow> 'e + 'b) \<Rightarrow> 'e + 'b" where
  "bind_err (Inl e) f = Inl e"
| "bind_err (Inr x) f = f x"

lemma bind_err_Inr: "bind_err r f = Inr y \<longleftrightarrow> (\<exists>x. r = Inr x \<and> f x = Inr y)"
  by (cases r) auto

lemma bind_err_Inl:
  "bind_err r f = Inl e \<longleftrightarrow> r = Inl e \<or> (\<exists>x. r = Inr x \<and> f x = Inl e)"
  by (cases r) auto

text \<open>A guard of the code: return the error \<open>e\<close> when \<open>bad\<close> holds, go on otherwise.\<close>

definition reject_if :: "bool \<Rightarrow> 'e \<Rightarrow> 'e + unit" where
  "reject_if bad e = (if bad then Inl e else Inr ())"

lemma reject_if_Inr [simp]: "reject_if bad e = Inr u \<longleftrightarrow> \<not> bad"
  by (simp add: reject_if_def)

lemma reject_if_Inl [simp]: "reject_if bad e = Inl e' \<longleftrightarrow> bad \<and> e' = e"
  by (auto simp: reject_if_def)

subsection \<open>The random source\<close>

text \<open>
  One call of \<open>rand.Read\<close>: it fails (\<open>None\<close>) or delivers bytes, of which the caller takes as many
  as its buffer holds.
\<close>

type_synonym random_read = "(nat \<Rightarrow> byte) option"

definition read_random :: "nat \<Rightarrow> random_read \<Rightarrow> bytes option" where
  "read_random n src = map_option (\<lambda>f. map f [0..<n]) src"

lemma length_read_random: "read_random n src = Some b \<Longrightarrow> length b = n"
  by (auto simp: read_random_def)

lemma read_random_fails [simp]: "read_random n None = None"
  by (simp add: read_random_def)

subsection \<open>Lists\<close>

lemma dropWhile_none: "(\<And>x. x \<in> set xs \<Longrightarrow> \<not> P x) \<Longrightarrow> dropWhile P xs = xs"
  by (cases xs) auto

lemma find_iff_bex: "find P xs \<noteq> None \<longleftrightarrow> (\<exists>x \<in> set xs. P x)"
  by (induction xs) auto

end
