(* ===== verification/GoStrings.thy ===== *)
theory GoStrings
  imports Prelude
begin

text \<open>
  The functions of Go's packages \<open>strings\<close> and \<open>strconv\<close> that the gateway calls, on byte
  strings. \<open>ToLower\<close> takes the fast path of the library on ASCII strings; on a string with a
  byte above 127 it maps runes through the Unicode tables, which are data and not code: they
  are the parameter \<open>uc\<close>, the function from such a string to its lower-case form.
  \<open>TrimSpace\<close> knows the UTF-8 encodings of every Unicode white space character.
\<close>

type_synonym unicode = "string \<Rightarrow> string"

definition is_ascii :: "char \<Rightarrow> bool" where
  "is_ascii c \<longleftrightarrow> (of_char c :: nat) < 128"

definition ascii_lower :: "char \<Rightarrow> char" where
  "ascii_lower c =
     (if 65 \<le> (of_char c :: nat) \<and> (of_char c :: nat) \<le> 90
      then char_of ((of_char c :: nat) + 32) else c)"

definition to_lower :: "unicode \<Rightarrow> string \<Rightarrow> string" where
  "to_lower uc s = (if list_all is_ascii s then map ascii_lower s else uc s)"

subsection \<open>Trimming\<close>

text \<open>Remove from the front of \<open>s\<close>, as often as possible, one of the strings of \<open>qs\<close>.\<close>

function drop_seqs :: "string list \<Rightarrow> string \<Rightarrow> string" where
  "drop_seqs qs s =
     (case find (\<lambda>q. q \<noteq> [] \<and> prefix q s) qs of
        None \<Rightarrow> s
      | Some q \<Rightarrow> drop_seqs qs (drop (length q) s))"
  by pat_completeness auto
termination
  by (relation "measure (\<lambda>(qs, s). length s)")
    (auto simp: find_Some_iff prefix_def)

declare drop_seqs.simps [simp del]

definition space_seqs :: "string list" where
  "space_seqs =
    [[CHR 0x09], [CHR 0x0A], [CHR 0x0B], [CHR 0x0C], [CHR 0x0D], [CHR 0x20],
     [CHR 0xC2, CHR 0x85], [CHR 0xC2, CHR 0xA0], [CHR 0xE1, CHR 0x9A, CHR 0x80],
     [CHR 0xE2, CHR 0x80, CHR 0x80], [CHR 0xE2, CHR 0x80, CHR 0x81],
     [CHR 0xE2, CHR 0x80, CHR 0x82], [CHR 0xE2, CHR 0x80, CHR 0x83],
     [CHR 0xE2, CHR 0x80, CHR 0x84], [CHR 0xE2, CHR 0x80, CHR 0x85],
     [CHR 0xE2, CHR 0x80, CHR 0x86], [CHR 0xE2, CHR 0x80, CHR 0x87],
     [CHR 0xE2, CHR 0x80, CHR 0x88], [CHR 0xE2, CHR 0x80, CHR 0x89],
     [CHR 0xE2, CHR 0x80, CHR 0x8A], [CHR 0xE2, CHR 0x80, CHR 0xA8],
     [CHR 0xE2, CHR 0x80, CHR 0xA9], [CHR 0xE2, CHR 0x80, CHR 0xAF],
     [CHR 0xE2, CHR 0x81, CHR 0x9F], [CHR 0xE3, CHR 0x80, CHR 0x80]]"

definition trim_space :: "string \<Rightarrow> string" where
  "trim_space s = rev (drop_seqs (map rev space_seqs) (rev (drop_seqs space_seqs s)))"

text \<open>\<open>strings.Trim(s, cutset)\<close> for an ASCII cutset.\<close>

definition trim_set :: "string \<Rightarrow> string \<Rightarrow> string" where
  "trim_set cs s =
     rev (dropWhile (\<lambda>c. c \<in> set cs) (rev (dropWhile (\<lambda>c. c \<in> set cs) s)))"

definition trim_prefix :: "string \<Rightarrow> string \<Rightarrow> string" where
  "trim_prefix p s = (if prefix p s then drop (length p) s else s)"

definition trim_suffix :: "string \<Rightarrow> string \<Rightarrow> string" where
  "trim_suffix p s = (if suffix p s then take (length s - length p) s else s)"

definition trim_right_set :: "string \<Rightarrow> string \<Rightarrow> string" where
  "trim_right_set cs s = rev (dropWhile (\<lambda>c. c \<in> set cs) (rev s))"

text \<open>\<open>strings.EqualFold(s, t)\<close> where one side holds only ASCII bytes, none of them one of
  \<open>k, K, s, S\<close> (the letters with a further Unicode case variant).\<close>

definition ascii_equal_fold :: "string \<Rightarrow> string \<Rightarrow> bool" where
  "ascii_equal_fold s t \<longleftrightarrow> map ascii_lower s = map ascii_lower t"

subsection \<open>Searching and splitting\<close>

fun index_byte :: "char \<Rightarrow> string \<Rightarrow> nat option" where
  "index_byte c [] = None"
| "index_byte c (x # xs) = (if x = c then Some 0 else map_option Suc (index_byte c xs))"

definition last_index_byte :: "char \<Rightarrow> string \<Rightarrow> nat option" where
  "last_index_byte c s = map_option (\<lambda>i. length s - 1 - i) (index_byte c (rev s))"

fun split_on :: "char \<Rightarrow> string \<Rightarrow> string list" where
  "split_on c [] = [[]]"
| "split_on c (x # xs) =
     (if x = c then [] # split_on c xs
      else (case split_on c xs of [] \<Rightarrow> [[x]] | p # ps \<Rightarrow> (x # p) # ps))"

lemma split_on_not_Nil [simp]: "split_on c s \<noteq> []"
  by (induction s) (auto split: list.splits)

lemma split_on_no_sep: "p \<in> set (split_on c s) \<Longrightarrow> c \<notin> set p"
  by (induction s arbitrary: p) (auto split: if_splits list.splits)

lemma split_on_free: "c \<notin> set s \<Longrightarrow> split_on c s = [s]"
  by (induction s) auto

lemma split_on_append: "c \<notin> set s \<Longrightarrow> split_on c (s @ c # t) = s # split_on c t"
  by (induction s) auto

lemma index_byte_None: "index_byte c s = None \<longleftrightarrow> c \<notin> set s"
  by (induction s) auto

lemma last_index_byte_None: "last_index_byte c s = None \<longleftrightarrow> c \<notin> set s"
  by (simp add: last_index_byte_def index_byte_None)

subsection \<open>Decimal numbers\<close>

definition digit_char :: "nat \<Rightarrow> char" where
  "digit_char d = char_of (48 + d)"

fun show_nat :: "nat \<Rightarrow> string" where
  "show_nat n = (if n < 10 then [digit_char n] else show_nat (n div 10) @ [digit_char (n mod 10)])"

declare show_nat.simps [simp del]

definition digit_val :: "char \<Rightarrow> nat option" where
  "digit_val c =
     (if 48 \<le> (of_char c :: nat) \<and> (of_char c :: nat) \<le> 57
      then Some ((of_char c :: nat) - 48) else None)"

definition is_digit :: "char \<Rightarrow> bool" where
  "is_digit c \<longleftrightarrow> digit_val c \<noteq> None"

definition read_nat :: "string \<Rightarrow> nat" where
  "read_nat s = fold (\<lambda>c acc. acc * 10 + ((of_char c :: nat) - 48)) s 0"

lemma of_digit_char: "d < 10 \<Longrightarrow> (of_char (digit_char d) :: nat) = 48 + d"
  by (simp add: digit_char_def)

lemma digit_val_digit_char [simp]: "d < 10 \<Longrightarrow> digit_val (digit_char d) = Some d"
  by (simp add: digit_val_def of_digit_char)

lemma is_digit_digit_char [simp]: "d < 10 \<Longrightarrow> is_digit (digit_char d)"
  by (simp add: is_digit_def)

lemma show_nat_digits: "list_all is_digit (show_nat n)"
proof (induction n rule: show_nat.induct)
  case (1 n)
  then show ?case by (subst show_nat.simps) auto
qed

lemma show_nat_not_Nil [simp]: "show_nat n \<noteq> []"
  by (subst show_nat.simps) simp

lemma read_show_nat [simp]: "read_nat (show_nat n) = n"
proof (induction n rule: show_nat.induct)
  case (1 n)
  then show ?case
    by (subst show_nat.simps) (auto simp: read_nat_def of_digit_char)
qed

lemma show_nat_inject [simp]: "show_nat m = show_nat n \<longleftrightarrow> m = n"
  by (metis read_show_nat)

subsection \<open>Facts about trimming\<close>

lemma trim_suffix_append [simp]: "trim_suffix p (s @ p) = s"
  by (simp add: trim_suffix_def suffix_def)

lemma trim_prefix_append [simp]: "trim_prefix p (p @ s) = s"
  by (simp add: trim_prefix_def)

lemma drop_seqs_stop:
  "(\<And>q. q \<in> set qs \<Longrightarrow> q \<noteq> [] \<Longrightarrow> \<not> prefix q s) \<Longrightarrow> drop_seqs qs s = s"
proof -
  assume *: "\<And>q. q \<in> set qs \<Longrightarrow> q \<noteq> [] \<Longrightarrow> \<not> prefix q s"
  have "find (\<lambda>q. q \<noteq> [] \<and> prefix q s) qs = None"
    using * by (auto simp: find_None_iff)
  then show ?thesis by (simp add: drop_seqs.simps)
qed

lemma drop_seqs_suffix: "suffix (drop_seqs qs s) s"
proof (induction qs s rule: drop_seqs.induct)
  case (1 qs s)
  show ?case
    by (subst drop_seqs.simps)
      (auto split: option.split intro: suffix_order.trans [OF "1.IH" suffix_drop])
qed

text \<open>A graphic ASCII character is neither white space nor a byte of a white space encoding.\<close>

definition graphic :: "char \<Rightarrow> bool" where
  "graphic c \<longleftrightarrow> 33 \<le> (of_char c :: nat) \<and> (of_char c :: nat) < 127"

lemma space_seqs_ends:
  "q \<in> set space_seqs \<Longrightarrow> q \<noteq> [] \<and> \<not> graphic (hd q) \<and> \<not> graphic (last q)"
  by (auto simp: space_seqs_def graphic_def)

lemma no_space_behind:
  assumes "s = [] \<or> graphic (last s)"
  shows "drop_seqs (map rev space_seqs) (rev s) = rev s"
proof (intro drop_seqs_stop notI)
  fix q assume q: "q \<in> set (map rev space_seqs)" "q \<noteq> []" "prefix q (rev s)"
  then have "\<not> graphic (hd q)" by (auto dest!: space_seqs_ends simp: hd_rev)
  moreover have "hd q = hd (rev s)" "s \<noteq> []"
    using q(2,3) by (auto simp: prefix_def hd_append)
  ultimately show False using assms by (simp add: hd_rev)
qed

lemma trim_space_graphic:
  assumes "s = [] \<or> graphic (hd s) \<and> graphic (last s)"
  shows "trim_space s = s"
proof -
  have "drop_seqs space_seqs s = s"
    using assms by (intro drop_seqs_stop) (auto simp: prefix_def dest!: space_seqs_ends)
  moreover have "s = [] \<or> graphic (last s)" using assms by blast
  ultimately show ?thesis by (simp add: trim_space_def no_space_behind)
qed

lemma trim_space_all_graphic: "list_all graphic s \<Longrightarrow> trim_space s = s"
  by (rule trim_space_graphic) (auto simp: list_all_iff)

text \<open>Blanks around a text go.\<close>

definition is_blank :: "char \<Rightarrow> bool" where
  "is_blank c \<longleftrightarrow> c = CHR '' '' \<or> c = CHR 0x09"

lemma find_single:
  assumes "[c] \<in> set qs" and "\<forall>q\<in>set qs. q \<noteq> [] \<longrightarrow> hd q = c \<longrightarrow> tl q = []"
  shows "find (\<lambda>q. q \<noteq> [] \<and> prefix q (c # t)) qs = Some [c]"
  using assms
proof (induction qs)
  case (Cons q qs)
  have "q \<noteq> [] \<and> prefix q (c # t) \<longleftrightarrow> q = [c]"
    using Cons.prems(2) by (cases q) auto
  with Cons show ?case by auto
qed simp

lemma blank_seqs:
  assumes "is_blank c"
  shows "[c] \<in> set space_seqs" "\<forall>q\<in>set space_seqs. q \<noteq> [] \<longrightarrow> hd q = c \<longrightarrow> tl q = []"
    "[c] \<in> set (map rev space_seqs)" "\<forall>q\<in>set (map rev space_seqs). q \<noteq> [] \<longrightarrow> hd q = c \<longrightarrow> tl q = []"
  using assms unfolding is_blank_def by (elim disjE; simp add: space_seqs_def)+

lemma drop_seqs_blanks:
  "list_all is_blank l \<Longrightarrow> drop_seqs space_seqs (l @ s) = drop_seqs space_seqs s"
  "list_all is_blank l \<Longrightarrow> drop_seqs (map rev space_seqs) (l @ s) = drop_seqs (map rev space_seqs) s"
proof -
  have "find (\<lambda>q. q \<noteq> [] \<and> prefix q (c # t)) space_seqs = Some [c]"
    "find (\<lambda>q. q \<noteq> [] \<and> prefix q (c # t)) (map rev space_seqs) = Some [c]"
    if "is_blank c" for c t
    using blank_seqs [OF that] by (simp_all only: find_single)
  then have step: "drop_seqs space_seqs (c # t) = drop_seqs space_seqs t"
    "drop_seqs (map rev space_seqs) (c # t) = drop_seqs (map rev space_seqs) t"
    if "is_blank c" for c t using that by (simp_all add: drop_seqs.simps [of _ "c # t"])
  show "list_all is_blank l \<Longrightarrow> drop_seqs space_seqs (l @ s) = drop_seqs space_seqs s"
    "list_all is_blank l \<Longrightarrow> drop_seqs (map rev space_seqs) (l @ s) = drop_seqs (map rev space_seqs) s"
    by (induction l) (auto simp: step)
qed

lemma trim_space_blanks:
  assumes "list_all is_blank l" and "list_all is_blank r"
    and "m \<noteq> []" and "graphic (hd m)" and "graphic (last m)"
  shows "trim_space (l @ m @ r) = m"
proof -
  have front: "drop_seqs space_seqs (m @ r) = m @ r"
    using assms(3,4) by (intro drop_seqs_stop) (auto dest!: space_seqs_ends simp: neq_Nil_conv prefix_Cons)
  have "list_all is_blank (rev r)" using assms(2) by simp
  then show ?thesis unfolding trim_space_def drop_seqs_blanks(1) [OF assms(1)] front
    using no_space_behind [of m] assms(5) by (simp only: rev_append append_assoc drop_seqs_blanks(2) rev_rev_ident simp_thms)
qed

end
