(* ===== verification/NetAddr.thy ===== *)
theory NetAddr
  imports GoStrings
begin

unbundle bit_operations_syntax

text \<open>
  The functions of Go's package \<open>net\<close> (and of \<open>net/netip\<close>, which it calls) that the gateway
  uses: \<open>SplitHostPort\<close>, \<open>ParseIP\<close>, \<open>IP.To4\<close>, \<open>IP.Mask\<close>, \<open>IP.String\<close>, \<open>ParseCIDR\<close> and
  \<open>IPNet.Contains\<close>. An \<open>IP\<close> is a list of 4 or 16 bytes; \<open>ParseIP\<close> always gives 16.
\<close>

subsection \<open>SplitHostPort\<close>

definition split_host_port :: "string \<Rightarrow> (string \<times> string) option" where
  "split_host_port s =
     (case last_index_byte CHR '':'' s of
        None \<Rightarrow> None
      | Some i \<Rightarrow>
          let finish = (\<lambda>host j k.
                if CHR ''['' \<in> set (drop j s) then None
                else if CHR '']'' \<in> set (drop k s) then None
                else Some (host, drop (i + 1) s))
          in if hd s = CHR ''[''
             then (case index_byte CHR '']'' s of
                     None \<Rightarrow> None
                   | Some e \<Rightarrow>
                       if e + 1 = length s then None
                       else if e + 1 = i then finish (take (e - 1) (drop 1 s)) 1 (e + 1)
                       else None)
             else if CHR '':'' \<in> set (take i s) then None
             else finish (take i s) 0 0)"

subsection \<open>ParseIP\<close>

text \<open>The loop over the dotted quad: the previous character, the current octet and the
  number of its digits, the octets already complete.\<close>

fun v4_loop :: "char option \<Rightarrow> nat \<Rightarrow> nat \<Rightarrow> nat list \<Rightarrow> string \<Rightarrow> nat list option" where
  "v4_loop prev v dl fs [] = (if length fs < 3 then None else Some (fs @ [v]))"
| "v4_loop prev v dl fs (c # s) =
     (case digit_val c of
        Some d \<Rightarrow>
          if dl = 1 \<and> v = 0 then None
          else if v * 10 + d > 255 then None
          else v4_loop (Some c) (v * 10 + d) (dl + 1) fs s
      | None \<Rightarrow>
          if c = CHR ''.''
          then if prev = None \<or> s = [] \<or> prev = Some CHR ''.'' then None
               else if length fs = 3 then None
               else v4_loop (Some c) 0 0 (fs @ [v]) s
          else None)"

definition parse_v4 :: "string \<Rightarrow> nat list option" where
  "parse_v4 s = v4_loop None 0 0 [] s"

definition is_hex :: "char \<Rightarrow> bool" where
  "is_hex c \<longleftrightarrow> hex_val c \<noteq> None"

definition read_hex :: "string \<Rightarrow> nat" where
  "read_hex s = fold (\<lambda>c acc. acc * 16 + the (hex_val c)) s 0"

text \<open>
  The loop over the colon-separated groups of an IPv6 address: \<open>k\<close> groups may follow, \<open>acc\<close>
  holds the bytes so far and \<open>ell\<close> the position of the double colon. The result is the state
  after the loop: the bytes, the double colon, the input not consumed.
\<close>

fun v6_loop :: "nat \<Rightarrow> nat list \<Rightarrow> nat option \<Rightarrow> string \<Rightarrow> (nat list \<times> nat option \<times> string) option"
where
  "v6_loop 0 acc ell s = Some (acc, ell, s)"
| "v6_loop (Suc k) acc ell s =
     (let ds = takeWhile is_hex s; rest = dropWhile is_hex s;
          acc' = acc @ [read_hex ds div 256, read_hex ds mod 256]
      in if length ds > 4 \<or> ds = [] then None
         else (case rest of
             [] \<Rightarrow> Some (acc', ell, [])
           | c # r \<Rightarrow>
               if c = CHR ''.''
               then if ell = None \<and> length acc \<noteq> 12 then None
                    else if length acc + 4 > 16 then None
                    else (case parse_v4 s of None \<Rightarrow> None | Some fs \<Rightarrow> Some (acc @ fs, ell, []))
               else if c \<noteq> CHR '':'' then None
               else (case r of
                   [] \<Rightarrow> None
                 | c' # r' \<Rightarrow>
                     if c' = CHR '':''
                     then if ell \<noteq> None then None
                          else if r' = [] then Some (acc', Some (length acc'), [])
                          else v6_loop k acc' (Some (length acc')) r'
                     else v6_loop k acc' ell r)))"

definition expand_ellipsis :: "nat list \<times> nat option \<times> string \<Rightarrow> nat list option" where
  "expand_ellipsis st = (case st of (acc, ell, s) \<Rightarrow>
     if s \<noteq> [] then None
     else if length acc < 16
     then (case ell of
             None \<Rightarrow> None
           | Some e \<Rightarrow> Some (take e acc @ replicate (16 - length acc) 0 @ drop e acc))
     else if ell \<noteq> None then None
     else Some acc)"

definition parse_v6 :: "string \<Rightarrow> nat list option" where
  "parse_v6 s =
     (if prefix ''::'' s
      then if drop 2 s = [] then Some (replicate 16 0)
           else Option.bind (v6_loop 8 [] (Some 0) (drop 2 s)) expand_ellipsis
      else Option.bind (v6_loop 8 [] None s) expand_ellipsis)"

definition v4_mapped :: bytes where
  "v4_mapped = replicate 10 0 @ [0xFF, 0xFF]"

text \<open>An address with a zone is refused by \<open>net.ParseIP\<close>, so a percent sign never passes.\<close>

definition parse_addr :: "string \<Rightarrow> (nat list + nat list) option" where
  "parse_addr s =
     (case find (\<lambda>c. c \<in> set ''.:%'') s of
        None \<Rightarrow> None
      | Some c \<Rightarrow>
          if CHR ''%'' \<in> set s then None
          else if c = CHR ''.'' then map_option Inl (parse_v4 s)
          else map_option Inr (parse_v6 s))"

definition parse_ip :: "string \<Rightarrow> bytes option" where
  "parse_ip s =
     map_option (case_sum (\<lambda>v4. v4_mapped @ map word_of_nat v4) (map word_of_nat)) (parse_addr s)"

subsection \<open>Addresses, masks, networks\<close>

definition to4 :: "bytes \<Rightarrow> bytes option" where
  "to4 ip =
     (if length ip = 4 then Some ip
      else if length ip = 16 \<and> take 12 ip = v4_mapped then Some (drop 12 ip)
      else None)"

definition mask_byte :: "nat \<Rightarrow> byte" where
  "mask_byte n = (if n \<ge> 8 then 0xFF else NOT (drop_bit n 0xFF))"

definition cidr_mask :: "nat \<Rightarrow> nat \<Rightarrow> bytes" where
  "cidr_mask ones len = map (\<lambda>i. mask_byte (ones - 8 * i)) [0..<len]"

definition ip_mask :: "bytes \<Rightarrow> bytes \<Rightarrow> bytes option" where
  "ip_mask ip m =
     (let m' = (if length m = 16 \<and> length ip = 4 \<and> list_all (\<lambda>b. b = 0xFF) (take 12 m)
                then drop 12 m else m);
          ip' = (if length m' = 4 \<and> length ip = 16 \<and> take 12 ip = v4_mapped then drop 12 ip else ip)
      in if length ip' \<noteq> length m' then None else Some (map2 (AND) ip' m'))"

record ip_net =
  net_ip :: bytes
  net_mask :: bytes

definition net_contains :: "ip_net \<Rightarrow> bytes \<Rightarrow> bool" where
  "net_contains n ip =
     (let nn = (case to4 (net_ip n) of Some v4 \<Rightarrow> v4 | None \<Rightarrow> net_ip n);
          m = (if length (net_mask n) = 16 \<and> length nn = 4 then drop 12 (net_mask n) else net_mask n);
          x = (case to4 ip of Some v4 \<Rightarrow> v4 | None \<Rightarrow> ip)
      in length nn = length m \<and> length x = length nn \<and> map2 (AND) nn m = map2 (AND) x m)"

definition parse_cidr :: "string \<Rightarrow> ip_net option" where
  "parse_cidr s =
     (case index_byte CHR ''/'' s of
        None \<Rightarrow> None
      | Some i \<Rightarrow>
          let addr = take i s; m = drop (i + 1) s
          in (case parse_addr addr of
                None \<Rightarrow> None
              | Some a \<Rightarrow>
                  let len = (case a of Inl _ \<Rightarrow> 4 | Inr _ \<Rightarrow> 16); n = read_nat m;
                      ip = case_sum (\<lambda>v4. v4_mapped @ map word_of_nat v4) (map word_of_nat) a
                  in if m = [] \<or> \<not> list_all is_digit m \<or> n > 8 * len then None
                     else map_option (\<lambda>b. \<lparr>net_ip = b, net_mask = cidr_mask n len\<rparr>)
                            (ip_mask ip (cidr_mask n len))))"

subsection \<open>IP.String\<close>

definition v4_string :: "bytes \<Rightarrow> string" where
  "v4_string b =
     show_nat (unat (b ! 0)) @ ''.'' @ show_nat (unat (b ! 1)) @ ''.''
     @ show_nat (unat (b ! 2)) @ ''.'' @ show_nat (unat (b ! 3))"

fun show_hex :: "nat \<Rightarrow> string" where
  "show_hex n = (if n < 16 then [hex_digit n] else show_hex (n div 16) @ [hex_digit (n mod 16)])"

declare show_hex.simps [simp del]

fun groups :: "bytes \<Rightarrow> nat list" where
  "groups (a # b # r) = (unat a * 256 + unat b) # groups r"
| "groups _ = []"

definition zero_run :: "nat list \<Rightarrow> nat \<Rightarrow> nat" where
  "zero_run gs i = length (takeWhile (\<lambda>g. g = 0) (drop i gs))"

text \<open>The first longest run of at least two zero groups: its start and length.\<close>

definition longest_run :: "nat list \<Rightarrow> nat \<times> nat" where
  "longest_run gs =
     fold (\<lambda>i best. if zero_run gs i \<ge> 2 \<and> zero_run gs i > snd best then (i, zero_run gs i) else best)
       [0..<8] (255, 0)"

function v6_emit :: "nat \<Rightarrow> nat \<Rightarrow> nat list \<Rightarrow> nat \<Rightarrow> string" where
  "v6_emit st l gs i =
     (if i \<ge> 8 then []
      else if i = st
      then ''::'' @ (if i + l \<ge> 8 then [] else show_hex (gs ! (i + l)) @ v6_emit st l gs (i + l + 1))
      else (if i > 0 then '':'' else []) @ show_hex (gs ! i) @ v6_emit st l gs (i + 1))"
  by pat_completeness auto
termination by (relation "measure (\<lambda>(st, l, gs, i). 8 - i)") auto

declare v6_emit.simps [simp del]

definition v6_string :: "bytes \<Rightarrow> string" where
  "v6_string b =
     (let gs = groups b; run = longest_run gs in v6_emit (fst run) (snd run) gs 0)"

definition ip_string :: "bytes \<Rightarrow> string" where
  "ip_string ip = (case to4 ip of Some v4 \<Rightarrow> v4_string v4 | None \<Rightarrow> v6_string ip)"

end
