(* ===== verification/Sha256.thy ===== *)
theory Sha256
  imports Prelude
begin

unbundle bit_operations_syntax

text \<open>
  SHA-256 (FIPS 180-4), HMAC-SHA256 (RFC 2104) and lower-case hexadecimal, as Go's packages
  \<open>crypto/sha256\<close>, \<open>crypto/hmac\<close> and \<open>encoding/hex\<close> compute them. Every function is
  executable; no proof of the development depends on a property of the hash but its length.
\<close>

type_synonym u32 = "32 word"

subsection \<open>SHA-256\<close>

text \<open>Four constants of the standard written as one number, the first in the highest bits.\<close>

definition quad :: "int \<Rightarrow> u32 list" where
  "quad n = map (\<lambda>k. word_of_int (n div 2 ^ k)) [96, 64, 32, 0]"

lemma length_quad [simp]: "length (quad n) = 4"
  by (simp add: quad_def)

definition round_constants :: "u32 list" where
  "round_constants = concat (map quad
      [0x428a2f9871374491b5c0fbcfe9b5dba5, 0x3956c25b59f111f1923f82a4ab1c5ed5,
       0xd807aa9812835b01243185be550c7dc3, 0x72be5d7480deb1fe9bdc06a7c19bf174,
       0xe49b69c1efbe47860fc19dc6240ca1cc, 0x2de92c6f4a7484aa5cb0a9dc76f988da,
       0x983e5152a831c66db00327c8bf597fc7, 0xc6e00bf3d5a7914706ca635114292967,
       0x27b70a852e1b21384d2c6dfc53380d13, 0x650a7354766a0abb81c2c92e92722c85,
       0xa2bfe8a1a81a664bc24b8b70c76c51a3, 0xd192e819d6990624f40e3585106aa070,
       0x19a4c1161e376c082748774c34b0bcb5, 0x391c0cb34ed8aa4a5b9cca4f682e6ff3,
       0x748f82ee78a5636f84c878148cc70208, 0x90befffaa4506cebbef9a3f7c67178f2])"

definition initial_hash :: "u32 list" where
  "initial_hash = concat (map quad
      [0x6a09e667bb67ae853c6ef372a54ff53a, 0x510e527f9b05688c1f83d9ab5be0cd19])"

definition rotr :: "nat \<Rightarrow> u32 \<Rightarrow> u32" where
  "rotr n x = drop_bit n x OR push_bit (32 - n) x"

definition big_sigma0 :: "u32 \<Rightarrow> u32" where
  "big_sigma0 x = rotr 2 x XOR rotr 13 x XOR rotr 22 x"

definition big_sigma1 :: "u32 \<Rightarrow> u32" where
  "big_sigma1 x = rotr 6 x XOR rotr 11 x XOR rotr 25 x"

definition small_sigma0 :: "u32 \<Rightarrow> u32" where
  "small_sigma0 x = rotr 7 x XOR rotr 18 x XOR drop_bit 3 x"

definition small_sigma1 :: "u32 \<Rightarrow> u32" where
  "small_sigma1 x = rotr 17 x XOR rotr 19 x XOR drop_bit 10 x"

text \<open>Big-endian conversions between bytes and 32-bit words.\<close>

definition be_word :: "byte \<Rightarrow> byte \<Rightarrow> byte \<Rightarrow> byte \<Rightarrow> u32" where
  "be_word a b c d =
     push_bit 24 (ucast a) OR push_bit 16 (ucast b) OR push_bit 8 (ucast c) OR ucast d"

fun words_of :: "bytes \<Rightarrow> u32 list" where
  "words_of (a # b # c # d # r) = be_word a b c d # words_of r"
| "words_of _ = []"

definition word_bytes :: "u32 \<Rightarrow> bytes" where
  "word_bytes w = [ucast (drop_bit 24 w), ucast (drop_bit 16 w), ucast (drop_bit 8 w), ucast w]"

text \<open>Padding: the bit 1, zeros up to 56 modulo 64, the length in bits as 64 bits.\<close>

definition length_field :: "64 word \<Rightarrow> bytes" where
  "length_field n = map (\<lambda>k. ucast (drop_bit k n)) [56, 48, 40, 32, 24, 16, 8, 0]"

definition sha_pad :: "bytes \<Rightarrow> bytes" where
  "sha_pad m =
     m @ [0x80] @ replicate ((119 - length m mod 64) mod 64) 0 @ length_field (8 * word_of_nat (length m))"

text \<open>The message schedule: 16 words of the block, then 48 computed ones.\<close>

fun extend_schedule :: "nat \<Rightarrow> u32 list \<Rightarrow> u32 list" where
  "extend_schedule 0 rev_w = rev rev_w"
| "extend_schedule (Suc n) rev_w =
     extend_schedule n
       ((small_sigma1 (rev_w ! 1) + rev_w ! 6 + small_sigma0 (rev_w ! 14) + rev_w ! 15) # rev_w)"

fun sha_round :: "u32 list \<Rightarrow> u32 \<times> u32 \<Rightarrow> u32 list" where
  "sha_round [a, b, c, d, e, f, g, h] (k, w) =
     (let t1 = h + big_sigma1 e + ((e AND f) XOR (NOT e AND g)) + k + w;
          t2 = big_sigma0 a + ((a AND b) XOR (a AND c) XOR (b AND c))
      in [t1 + t2, a, b, c, d + t1, e, f, g])"
| "sha_round s _ = s"

definition compress :: "u32 list \<Rightarrow> u32 list \<Rightarrow> u32 list" where
  "compress hs block =
     map2 (+) hs (foldl sha_round hs (zip round_constants (extend_schedule 48 (rev block))))"

fun sha_blocks :: "nat \<Rightarrow> u32 list \<Rightarrow> u32 list \<Rightarrow> u32 list" where
  "sha_blocks 0 hs ws = hs"
| "sha_blocks (Suc n) hs ws = sha_blocks n (compress hs (take 16 ws)) (drop 16 ws)"

definition sha256 :: "bytes \<Rightarrow> bytes" where
  "sha256 m =
     (let p = sha_pad m
      in concat (map word_bytes (sha_blocks (length p div 64) initial_hash (words_of p))))"

subsection \<open>HMAC and hexadecimal\<close>

definition hmac_key :: "bytes \<Rightarrow> bytes" where
  "hmac_key k = (let k' = (if length k > 64 then sha256 k else k)
                 in k' @ replicate (64 - length k') 0)"

definition hmac_sha256 :: "bytes \<Rightarrow> bytes \<Rightarrow> bytes" where
  "hmac_sha256 k m =
     sha256 (map (\<lambda>b. b XOR 0x5c) (hmac_key k)
       @ sha256 (map (\<lambda>b. b XOR 0x36) (hmac_key k) @ m))"

definition hex_encode :: "bytes \<Rightarrow> string" where
  "hex_encode bs = concat (map (\<lambda>b. [hex_digit (unat b div 16), hex_digit (unat b mod 16)]) bs)"

subsection \<open>Shapes\<close>

lemma length_word_bytes [simp]: "length (word_bytes w) = 4"
  by (simp add: word_bytes_def)

lemma length_sha_round [simp]: "length hs = 8 \<Longrightarrow> length (sha_round hs kw) = 8"
  by (induction hs kw rule: sha_round.induct) (auto simp: Let_def)

lemma length_foldl_sha_round: "length hs = 8 \<Longrightarrow> length (foldl sha_round hs kws) = 8"
  by (induction kws arbitrary: hs) simp_all

lemma length_compress: "length hs = 8 \<Longrightarrow> length (compress hs block) = 8"
  by (simp add: compress_def length_foldl_sha_round)

lemma length_sha_blocks: "length hs = 8 \<Longrightarrow> length (sha_blocks n hs ws) = 8"
  by (induction n hs ws rule: sha_blocks.induct) (simp_all add: length_compress)

lemma length_concat_const: "(\<And>x. length (f x) = n) \<Longrightarrow> length (concat (map f xs)) = n * length xs"
  by (induction xs) simp_all

lemma length_sha256 [simp]: "length (sha256 m) = 32"
  by (simp add: sha256_def Let_def length_concat_const [where n = 4] length_sha_blocks
      initial_hash_def)

lemma length_hmac_sha256 [simp]: "length (hmac_sha256 k m) = 32"
  by (simp add: hmac_sha256_def)

lemma hex_encode_digits:
  assumes "c \<in> set (hex_encode bs)"
  shows "\<exists>d<16. c = hex_digit d"
proof -
  have "unat b div 16 < 16" "unat b mod 16 < 16" for b :: byte
    using unsigned_less [of b, where 'a = nat] by simp_all
  moreover have "\<exists>b :: byte. c = hex_digit (unat b div 16) \<or> c = hex_digit (unat b mod 16)"
    using assms by (auto simp: hex_encode_def)
  ultimately show ?thesis by blast
qed

lemma length_hex_encode [simp]: "length (hex_encode bs) = 2 * length bs"
  by (simp add: hex_encode_def length_concat_const [where n = 2])

lemma sha_pad_blocks: "length (sha_pad m) mod 64 = 0"
proof -
  have "length (sha_pad m) = length m + 9 + (119 - length m mod 64) mod 64"
    by (simp add: sha_pad_def length_field_def)
  moreover have "(n + 9 + (119 - n mod 64) mod 64) mod 64 = 0" for n :: nat
  proof -
    define q r where "q = n div 64" and "r = n mod 64"
    then have n: "n = 64 * q + r" and r: "r < 64" by simp_all
    have "(119 - r) mod 64 = (if r \<le> 55 then 55 - r else 119 - r)"
      using r by (auto simp: le_mod_geq)
    then have "n + 9 + (119 - r) mod 64 = (if r \<le> 55 then 64 * (q + 1) else 64 * (q + 2))"
      using r by (simp add: n)
    then show ?thesis by (simp add: r_def split: if_splits)
  qed
  ultimately show ?thesis by simp
qed

end
