(* ===== verification/Model.thy ===== *)
theory Model
  imports GoStrings
begin

unbundle bit_operations_syntax

text \<open>
  The data of \<open>services/gateway/internal/model/types.go\<close>, one record per struct with its
  fields in order, and the parts of an HTTP exchange the handlers read and write.

  A \<open>float64\<close> is its IEEE 754 bit pattern. A Go \<open>int\<close> is an \<open>int\<close>, an \<open>int64\<close> too; a
  \<open>uint64\<close> is a \<open>64 word\<close>. A value of type \<open>any\<close> (\<open>map[string]any\<close> holds the parameters of
  a challenge) is one of the types the code stores or converts.
\<close>

subsection \<open>float64\<close>

type_synonym f64 = "64 word"

definition f64_magnitude :: "f64 \<Rightarrow> 64 word" where
  "f64_magnitude x = x AND 0x7FFFFFFFFFFFFFFF"

definition f64_sign :: "f64 \<Rightarrow> bool" where
  "f64_sign x \<longleftrightarrow> bit x 63"

definition f64_is_nan :: "f64 \<Rightarrow> bool" where
  "f64_is_nan x \<longleftrightarrow> f64_magnitude x > 0x7FF0000000000000"

definition f64_is_inf :: "f64 \<Rightarrow> bool" where
  "f64_is_inf x \<longleftrightarrow> f64_magnitude x = 0x7FF0000000000000"

text \<open>The comparisons \<open>x < 0\<close> and \<open>x > 10\<close> (the pattern of 10.0 is \<open>0x4024000000000000\<close>):
  among non-negative numbers the order of the patterns is the order of the values, and every
  comparison with a NaN is false.\<close>

definition f64_neg :: "f64 \<Rightarrow> bool" where
  "f64_neg x \<longleftrightarrow> \<not> f64_is_nan x \<and> f64_sign x \<and> f64_magnitude x \<noteq> 0"

definition f64_above_10 :: "f64 \<Rightarrow> bool" where
  "f64_above_10 x \<longleftrightarrow> \<not> f64_is_nan x \<and> \<not> f64_sign x \<and> x > 0x4024000000000000"

text \<open>The conversion \<open>int(x)\<close>: truncation; out of range gives the smallest \<open>int\<close> (amd64).\<close>

definition f64_to_int :: "f64 \<Rightarrow> int" where
  "f64_to_int x =
     (let e = unat (drop_bit 52 (f64_magnitude x));
          m = uint (x AND 0xFFFFFFFFFFFFF) + (if e = 0 then 0 else 2 ^ 52);
          a = (if e \<ge> 1075 then m * 2 ^ (e - 1075) else m div 2 ^ (1075 - e));
          v = (if f64_sign x then - a else a)
      in if e \<ge> 1087 \<or> \<not> int64_range v then - (2 ^ 63) else v)"

datatype any = AInt int | AInt64 int | AFloat f64 | AString string

type_synonym params = "string \<rightharpoonup> any"

subsection \<open>Telemetry, reputation and risk\<close>

record behavior_signals =
  dwell_ms :: int
  pointer_events :: int
  pointer_distance :: f64
  pointer_variance :: f64
  key_events :: int
  key_interval_mean_ms :: f64
  key_interval_std_ms :: f64
  focus_transitions :: int
  visibility_changes :: int

record client_signals =
  sdk_version :: string
  cs_user_agent :: string
  cs_platform :: string
  languages :: "string list"
  timezone :: string
  screen_width_bucket :: int
  screen_height_bucket :: int
  color_depth :: int
  hardware_concurrency :: int
  device_memory_gb :: f64
  max_touch_points :: int
  webdriver :: bool
  secure_context :: bool
  cookie_enabled :: bool
  local_storage_ok :: bool
  session_storage_ok :: bool
  webgl_vendor_hash :: string
  webgl_renderer_hash :: string
  wasm_available :: bool
  wasm_mix :: "32 word"
  webcrypto_available :: bool
  performance_jitter :: f64
  behavior :: behavior_signals

record telemetry =
  client :: client_signals

record challenge_request =
  cr_site_key :: string
  cr_action :: string
  cr_hostname :: string
  cr_session_id :: string
  cr_telemetry :: telemetry

record reputation =
  rep_score :: int
  rep_proxy :: bool
  rep_vpn :: bool
  rep_tor :: bool
  rep_hosting :: bool
  rep_abuse_score :: int
  rep_country :: string
  rep_asn :: string
  rep_providers :: "string list"
  rep_warnings :: "string list"

definition empty_reputation :: reputation where
  "empty_reputation =
     \<lparr>rep_score = 0, rep_proxy = False, rep_vpn = False, rep_tor = False, rep_hosting = False,
      rep_abuse_score = 0, rep_country = [], rep_asn = [], rep_providers = [], rep_warnings = []\<rparr>"

record risk_input =
  ri_ip :: string
  ri_user_agent :: string
  ri_accept_language :: string
  ri_sec_ch_ua :: string
  ri_sec_ch_platform :: string
  ri_request_rate :: int
  ri_telemetry :: telemetry
  ri_reputation :: reputation

record risk_decision =
  rd_score :: int
  rd_decision :: string
  rd_tags :: "string list"

subsection \<open>Challenges and proofs\<close>

record challenge =
  ch_id :: string
  ch_site_key :: string
  ch_action :: string
  ch_hostname :: string
  ch_session_id :: string
  ch_ip_bind :: string
  ch_risk_score :: int
  ch_risk_tags :: "string list"
  ch_kind :: string
  ch_params :: params
  ch_created_at :: instant
  ch_expires_at :: instant
  ch_attempts :: int

record challenge_response =
  resp_decision :: string
  resp_challenge_id :: string
  resp_kind :: string
  resp_expires_at :: instant
  resp_params :: params
  resp_token :: string

definition empty_challenge_response :: challenge_response where
  "empty_challenge_response =
     \<lparr>resp_decision = [], resp_challenge_id = [], resp_kind = [], resp_expires_at = zero_time,
      resp_params = Map.empty, resp_token = []\<rparr>"

record challenge_proof =
  pf_kind :: string
  pf_nonce :: "64 word"
  pf_hold_ms :: int
  pf_event_count :: int
  pf_pointer_variance :: f64

record verify_challenge_request =
  vc_session_id :: string
  vc_proof :: challenge_proof

record verify_challenge_response =
  vr_success :: bool
  vr_token :: string
  vr_error :: string

subsection \<open>Tokens and their verification\<close>

record token_claims =
  tc_issuer :: string
  tc_audience :: string
  tc_site_key :: string
  tc_action :: string
  tc_hostname :: string
  tc_jti :: string
  tc_issued_at :: int
  tc_expires_at :: int
  tc_risk_score :: int
  tc_risk_bucket :: string
  tc_challenge_kind :: string
  tc_ip_bind :: string

record site_verify_request =
  sv_secret :: string
  sv_response :: string
  sv_remote_ip :: string
  sv_expected_action :: string
  sv_expected_hostname :: string

definition empty_site_verify_request :: site_verify_request where
  "empty_site_verify_request =
     \<lparr>sv_secret = [], sv_response = [], sv_remote_ip = [], sv_expected_action = [],
      sv_expected_hostname = []\<rparr>"

record site_verify_response =
  svr_success :: bool
  svr_challenge_ts :: "instant option"
  svr_hostname :: string
  svr_action :: string
  svr_risk_score :: int
  svr_risk_bucket :: string
  svr_challenge_kind :: string
  svr_error_codes :: "string list"

definition failed_site_verify :: "string \<Rightarrow> site_verify_response" where
  "failed_site_verify code =
     \<lparr>svr_success = False, svr_challenge_ts = None, svr_hostname = [], svr_action = [],
      svr_risk_score = 0, svr_risk_bucket = [], svr_challenge_kind = [],
      svr_error_codes = [code]\<rparr>"

subsection \<open>HTTP\<close>

text \<open>
  What a handler reads of an \<open>http.Request\<close>: the peer address, the headers (\<open>Header.Get\<close>, the
  empty string for an absent header) and the path value of the pattern variable \<open>id\<close>.
\<close>

record http_request =
  remote_addr :: string
  header :: "string \<Rightarrow> string"
  path_id :: string

text \<open>
  The outcome of decoding a body: the first \<open>Decode\<close> fails (malformed, too large, an unknown
  field), or gives a value; the flag says whether the second \<open>Decode\<close> then reports \<open>io.EOF\<close>.
\<close>

datatype 'a decoded = BadJson | GoodJson 'a bool

datatype resp_body =
    ErrorBody string
  | ChallengeBody challenge_response
  | VerifyBody verify_challenge_response
  | SiteVerifyBody site_verify_response
  | HealthBody
  | TextBody string

record writer =
  w_header :: "string \<rightharpoonup> string"
  w_status :: "int option"
  w_body :: "resp_body option"

definition fresh_writer :: writer where
  "fresh_writer = \<lparr>w_header = Map.empty, w_status = None, w_body = None\<rparr>"

definition set_header :: "string \<Rightarrow> string \<Rightarrow> writer \<Rightarrow> writer" where
  "set_header k v w = w\<lparr>w_header := (w_header w)(k \<mapsto> v)\<rparr>"

text \<open>\<open>WriteHeader\<close> and the body: only the first status counts.\<close>

definition write_status :: "int \<Rightarrow> writer \<Rightarrow> writer" where
  "write_status st w = (if w_status w = None then w\<lparr>w_status := Some st\<rparr> else w)"

definition write_json :: "int \<Rightarrow> resp_body \<Rightarrow> writer \<Rightarrow> writer" where
  "write_json st b w =
     (write_status st (set_header ''Content-Type'' ''application/json; charset=utf-8'' w))
       \<lparr>w_body := Some b\<rparr>"

definition write_error :: "int \<Rightarrow> string \<Rightarrow> writer \<Rightarrow> writer" where
  "write_error st code w = write_json st (ErrorBody code) w"

lemma w_body_write_json [simp]: "w_body (write_json st b w) = Some b"
  by (simp add: write_json_def)

lemma w_status_write_json: "w_status w = None \<Longrightarrow> w_status (write_json st b w) = Some st"
  by (simp add: write_json_def write_status_def set_header_def)

lemma w_body_write_error [simp]: "w_body (write_error st code w) = Some (ErrorBody code)"
  by (simp add: write_error_def)

lemma w_body_set_header [simp]: "w_body (set_header k v w) = w_body w"
  by (simp add: set_header_def)

lemma w_status_set_header [simp]: "w_status (set_header k v w) = w_status w"
  by (simp add: set_header_def)

end
