(* ===== verification/ClientAddr.thy ===== *)
theory ClientAddr
  imports NetAddr Sha256 Model
begin

text \<open>
  \<open>services/gateway/internal/util/ip.go\<close>: the address of the client behind trusted proxies, the
  network prefix a rate limit and a token are bound to, and the keyed digest of that prefix.
\<close>

definition is_trusted :: "bytes \<Rightarrow> ip_net list \<Rightarrow> bool" where
  "is_trusted ip nets = list_ex (\<lambda>n. net_contains n ip) nets"

definition peer_host :: "http_request \<Rightarrow> string" where
  "peer_host r =
     (case split_host_port (remote_addr r) of None \<Rightarrow> remote_addr r | Some (host, port) \<Rightarrow> host)"

definition client_ip :: "http_request \<Rightarrow> ip_net list \<Rightarrow> string" where
  "client_ip r trusted =
     (let host = peer_host r in
      case parse_ip (trim_space host) of
        None \<Rightarrow> host
      | Some peer \<Rightarrow>
          if \<not> is_trusted peer trusted then host
          else let cf = trim_space (header r ''CF-Connecting-IP'') in
            if parse_ip cf \<noteq> None then cf
            else let xff = header r ''X-Forwarded-For'' in
              if xff \<noteq> []
              then (case find (\<lambda>p. parse_ip p \<noteq> None) (map trim_space (split_on CHR '','' xff)) of
                      Some p \<Rightarrow> p
                    | None \<Rightarrow> host)
              else host)"

definition ip_prefix :: "string \<Rightarrow> string" where
  "ip_prefix s =
     (case parse_ip (trim_space s) of
        None \<Rightarrow> []
      | Some ip \<Rightarrow>
          (case to4 ip of
             Some v4 \<Rightarrow> ip_string (v4_mapped @ [v4 ! 0, v4 ! 1, v4 ! 2, 0]) @ ''/24''
           | None \<Rightarrow>
               (case ip_mask ip (cidr_mask 56 16) of
                  Some masked \<Rightarrow> ip_string masked @ ''/56''
                | None \<Rightarrow> ''<nil>/56'')))"

definition bind_ip :: "string \<Rightarrow> string \<Rightarrow> string" where
  "bind_ip secret ip =
     (let p = ip_prefix ip in
      if p = [] then []
      else take 24 (hex_encode (hmac_sha256 (bytes_of secret) (bytes_of (''ipbind:v1:'' @ p)))))"

lemma bind_ip_ascii: "list_all is_ascii (bind_ip secret ip)"
proof -
  have "is_ascii (hex_digit d)" if "d < 16" for d
    using that by (auto simp: is_ascii_def hex_digit_def)
  then show ?thesis
    by (auto simp: bind_ip_def Let_def list_all_iff dest!: in_set_takeD hex_encode_digits)
qed

subsection \<open>What the parser returns\<close>

lemma v4_loop_wf:
  "v4_loop prev v dl fs s = Some gs \<Longrightarrow> length fs \<le> 3 \<Longrightarrow> v \<le> 255 \<Longrightarrow> \<forall>x\<in>set fs. x \<le> 255
   \<Longrightarrow> length gs = 4 \<and> (\<forall>x\<in>set gs. x \<le> 255)"
  by (induction prev v dl fs s rule: v4_loop.induct) (auto split: if_splits option.splits)

lemma parse_v4_wf: "parse_v4 s = Some gs \<Longrightarrow> length gs = 4 \<and> (\<forall>x\<in>set gs. x \<le> 255)"
  unfolding parse_v4_def by (drule v4_loop_wf) simp_all

text \<open>One turn of the loop: it stops, or goes on with two more bytes.\<close>

lemma v6_loop_turn:
  assumes "v6_loop (Suc k) acc ell s = Some r"
  obtains ext rest where "length ext = 2"
    and "(case rest of
      [] \<Rightarrow> Some (acc @ ext, ell, [])
    | c # r' \<Rightarrow>
        if c = CHR ''.''
        then if ell = None \<and> length acc \<noteq> 12 then None
             else if length acc + 4 > 16 then None
             else (case parse_v4 s of None \<Rightarrow> None | Some fs \<Rightarrow> Some (acc @ fs, ell, []))
        else if c \<noteq> CHR '':'' then None
        else (case r' of
            [] \<Rightarrow> None
          | c' # r'' \<Rightarrow>
              if c' = CHR '':''
              then if ell \<noteq> None then None
                   else if r'' = [] then Some (acc @ ext, Some (length (acc @ ext)), [])
                   else v6_loop k (acc @ ext) (Some (length (acc @ ext))) r''
              else v6_loop k (acc @ ext) ell r')) = Some r"
proof -
  define ds rest where "ds = takeWhile is_hex s" and "rest = dropWhile is_hex s"
  define ext where "ext = [read_hex ds div 256, read_hex ds mod 256]"
  have "(length (takeWhile is_hex s) > 4 \<or> takeWhile is_hex s = []) = False"
    using assms unfolding v6_loop.simps Let_def by (rule contrapos_pp) simp
  with assms show thesis
    unfolding v6_loop.simps Let_def by (intro that [of ext rest]) (simp_all only: if_False ds_def rest_def ext_def length_Cons list.size numeral_2_eq_2)
qed

lemma v6_loop_SucD:
  assumes "v6_loop (Suc k) acc ell s = Some r"
  obtains (stop) ext ell' where "r = (acc @ ext, ell', [])" "length ext = 2" "ell' = ell \<or> ell' = Some (length acc + 2)"
  | (quad) fs where "r = (acc @ fs, ell, [])" "length fs = 4" "length acc + 4 \<le> 16"
  | (step) ext ell' s' where "v6_loop k (acc @ ext) ell' s' = Some r" "length ext = 2"
      "ell' = ell \<or> ell' = Some (length acc + 2)"
proof -
  from v6_loop_turn [OF assms] obtain ext rest where ext: "length ext = 2"
    and body: "(case rest of
      [] \<Rightarrow> Some (acc @ ext, ell, [])
    | c # r' \<Rightarrow>
        if c = CHR ''.''
        then if ell = None \<and> length acc \<noteq> 12 then None
             else if length acc + 4 > 16 then None
             else (case parse_v4 s of None \<Rightarrow> None | Some fs \<Rightarrow> Some (acc @ fs, ell, []))
        else if c \<noteq> CHR '':'' then None
        else (case r' of
            [] \<Rightarrow> None
          | c' # r'' \<Rightarrow>
              if c' = CHR '':''
              then if ell \<noteq> None then None
                   else if r'' = [] then Some (acc @ ext, Some (length (acc @ ext)), [])
                   else v6_loop k (acc @ ext) (Some (length (acc @ ext))) r''
              else v6_loop k (acc @ ext) ell r')) = Some r" .
  show thesis
  proof (cases rest)
    case Nil
    with body ext show thesis by (intro stop [of ext ell]) simp_all
  next
    case (Cons c r')
    show thesis
    proof (cases "c = CHR ''.''")
      case True
      from body Cons True obtain fs where "parse_v4 s = Some fs" "r = (acc @ fs, ell, [])" "length acc + 4 \<le> 16"
        by (auto split: if_split_asm option.split_asm)
      then show thesis using parse_v4_wf [of s fs] by (intro quad [of fs]) simp_all
    next
      case False
      from body Cons False obtain c' r'' where r': "r' = c' # r''" by (auto split: if_split_asm list.split_asm)
      show thesis
      proof (cases "c' = CHR '':''")
        case True
        with body Cons False r' ext show thesis
          by (auto split: if_split_asm intro: stop [of ext "Some (length acc + 2)"]
              step [of ext "Some (length acc + 2)" r''])
      next
        case False
        with body Cons \<open>c \<noteq> CHR ''.''\<close> r' have "v6_loop k (acc @ ext) ell r' = Some r"
          by (simp split: if_split_asm)
        with ext show thesis by (intro step [of ext ell r']) simp_all
      qed
    qed
  qed
qed

lemma v6_loop_wf:
  "v6_loop k acc ell s = Some r \<Longrightarrow> length acc + 2 * k \<le> 16 \<Longrightarrow> ell = None \<or> (\<exists>e\<le>length acc. ell = Some e)
   \<Longrightarrow> length (fst r) \<le> 16 \<and> (\<forall>e. fst (snd r) = Some e \<longrightarrow> e \<le> length (fst r))"
proof (induction k arbitrary: acc ell s)
  case 0
  then show ?case by auto
next
  case (Suc k)
  from Suc.prems(1) show ?case
  proof (cases rule: v6_loop_SucD)
    case stop
    with Suc.prems(2,3) show ?thesis by auto
  next
    case quad
    with Suc.prems(2,3) show ?thesis by auto
  next
    case step
    show ?thesis by (rule Suc.IH [OF step(1)]) (use step(2,3) Suc.prems(2,3) in auto)
  qed
qed

lemma expand_ellipsis_length:
  assumes "v6_loop 8 [] ell s = Some st" and "ell = None \<or> ell = Some 0"
    and "expand_ellipsis st = Some gs"
  shows "length gs = 16"
proof -
  obtain acc ell' s' where st: "st = (acc, ell', s')" by (cases st)
  have "length acc \<le> 16 \<and> (\<forall>e. ell' = Some e \<longrightarrow> e \<le> length acc)"
    using v6_loop_wf [OF assms(1)] assms(2) by (auto simp: st)
  then show ?thesis
    using assms(3) by (auto simp: expand_ellipsis_def st split: if_splits option.splits)
qed

lemma parse_v6_length: "parse_v6 s = Some gs \<Longrightarrow> length gs = 16"
  by (auto simp: parse_v6_def bind_eq_Some_conv split: if_splits
      intro: expand_ellipsis_length [where ell = None] expand_ellipsis_length [where ell = "Some 0"])

lemma v4_mapped_length [simp]: "length v4_mapped = 12"
  by (simp add: v4_mapped_def)

lemma parse_ip_length: "parse_ip s = Some ip \<Longrightarrow> length ip = 16"
  by (auto simp: parse_ip_def parse_addr_def dest: parse_v4_wf parse_v6_length
      split: option.splits if_splits)

subsection \<open>Dotted quads\<close>

lemma v4_loop_show_nat:
  "n \<le> 255 \<Longrightarrow> v4_loop prev 0 0 fs (show_nat n @ rest)
     = v4_loop (Some (last (show_nat n))) n (length (show_nat n)) fs rest"
proof (induction n arbitrary: prev rest rule: show_nat.induct)
  case (1 n)
  show ?case
  proof (cases "n < 10")
    case True
    then have "show_nat n = [digit_char n]" by (subst show_nat.simps) simp
    with True show ?thesis by simp
  next
    case False
    then have s: "show_nat n = show_nat (n div 10) @ [digit_char (n mod 10)]" by (subst show_nat.simps) simp
    have "n mod 10 + n div 10 * 10 = n" "n div 10 \<noteq> 0" using False by auto
    with False 1 show ?thesis by (simp add: s)
  qed
qed

lemma last_show_nat: "is_digit (last (show_nat n))"
  using show_nat_digits [of n] by (simp add: list_all_iff)

lemma digit_not_dot: "is_digit c \<Longrightarrow> c \<noteq> CHR ''.''"
  by (auto simp: is_digit_def digit_val_def)

lemma v4_loop_group:
  assumes "n \<le> 255" and "length fs < 3" and "rest \<noteq> []"
  shows "v4_loop prev 0 0 fs (show_nat n @ ''.'' @ rest) = v4_loop (Some CHR ''.'') 0 0 (fs @ [n]) rest"
  using assms digit_not_dot [OF last_show_nat [of n]]
  by (simp add: v4_loop_show_nat digit_val_def)

lemma parse_v4_string:
  "parse_v4 (show_nat a @ ''.'' @ show_nat b @ ''.'' @ show_nat c @ ''.'' @ show_nat d) = Some [a, b, c, d]"
  if "a \<le> 255" "b \<le> 255" "c \<le> 255" "d \<le> 255"
proof -
  have last: "v4_loop (Some CHR ''.'') 0 0 [a, b, c] (show_nat d) = Some [a, b, c, d]"
    using that v4_loop_show_nat [of d "Some CHR ''.''" "[a, b, c]" "[]"] by simp
  show ?thesis
    unfolding parse_v4_def
    using that by (subst v4_loop_group, simp, simp, simp)+ (simp add: last)
qed

definition v4_text :: "nat list \<Rightarrow> string" where
  "v4_text fs = show_nat (fs ! 0) @ ''.'' @ show_nat (fs ! 1) @ ''.'' @ show_nat (fs ! 2) @ ''.'' @ show_nat (fs ! 3)"

lemma byte_le: "unat (x :: byte) \<le> 255"
proof -
  have "unat x < 2 ^ LENGTH(8)" by (rule unsigned_less)
  then show ?thesis by simp
qed

lemma four_bytes: "length b = 4 \<Longrightarrow> b = [b ! 0, b ! 1, b ! 2, b ! 3]"
  by (auto simp: numeral_eq_Suc length_Suc_conv)

lemma parse_v4_v4_string: "length b = 4 \<Longrightarrow> parse_v4 (v4_string b) = Some (map unat b)"
proof -
  assume "length b = 4"
  then have "map unat b = [unat (b ! 0), unat (b ! 1), unat (b ! 2), unat (b ! 3)]"
    by (subst four_bytes) simp_all
  then show ?thesis by (simp only: v4_string_def parse_v4_string byte_le)
qed

lemma v4_string_inject:
  assumes "length a = 4" and "length b = 4" and "v4_string a = v4_string b"
  shows "a = b"
proof -
  have "Some (map unat a) = Some (map unat b)"
    unfolding parse_v4_v4_string [OF assms(1), symmetric] parse_v4_v4_string [OF assms(2), symmetric]
    unfolding assms(3) by (rule refl)
  then have "map unat a = map unat b" by (rule option.inject [THEN iffD1])
  then show ?thesis by (rule map_injective) (simp add: inj_def word_unat_eq_iff)
qed

lemma find_skip: "list_all (\<lambda>x. \<not> P x) xs \<Longrightarrow> P y \<Longrightarrow> find P (xs @ y # ys) = Some y"
  by (induction xs) simp_all

lemma list_all_mono: "list_all P xs \<Longrightarrow> (\<And>x. P x \<Longrightarrow> Q x) \<Longrightarrow> list_all Q xs"
  by (simp add: list_all_iff)

lemma digit_not_sep: "is_digit c \<Longrightarrow> c \<noteq> CHR ''.'' \<and> c \<noteq> CHR '':'' \<and> c \<noteq> CHR ''%''"
  by (auto simp: is_digit_def digit_val_def)

lemma v4_digits_first: "find (\<lambda>c. c \<in> set ''.:%'') (show_nat n @ CHR ''.'' # rest) = Some CHR ''.''"
proof -
  have "list_all (\<lambda>c. c \<notin> set ''.:%'') (show_nat n)"
    using show_nat_digits [of n] by (rule list_all_mono) (simp add: digit_not_sep)
  then show ?thesis by (rule find_skip) simp
qed

lemma v4_string_no_percent: "CHR ''%'' \<notin> set (v4_string b)"
proof -
  have "CHR ''%'' \<notin> set (show_nat n)" for n
    using show_nat_digits [of n] by (auto simp: list_all_iff is_digit_def digit_val_def)
  then show ?thesis by (simp add: v4_string_def)
qed

lemma parse_ip_v4_string: "length b = 4 \<Longrightarrow> parse_ip (v4_string b) = Some (v4_mapped @ b)"
proof -
  assume b: "length b = 4"
  have "find (\<lambda>c. c \<in> set ''.:%'') (v4_string b) = Some CHR ''.''"
    using v4_digits_first by (simp add: v4_string_def)
  then have "parse_addr (v4_string b) = Some (Inl (map unat b))"
    using b v4_string_no_percent by (simp add: parse_addr_def parse_v4_v4_string)
  then show ?thesis by (simp add: parse_ip_def comp_def)
qed

subsection \<open>Prefixes are networks\<close>

definition same_network :: "bytes \<Rightarrow> bytes \<Rightarrow> bool" where
  "same_network a b =
     (case (to4 a, to4 b) of
        (Some u, Some v) \<Rightarrow> take 3 u = take 3 v
      | (None, None) \<Rightarrow> take 7 a = take 7 b
      | _ \<Rightarrow> False)"

lemma to4_mapped [simp]: "length b = 4 \<Longrightarrow> to4 (v4_mapped @ b) = Some b"
  by (simp add: to4_def)

lemma to4_length: "to4 a = Some u \<Longrightarrow> length u = 4"
  by (auto simp: to4_def split: if_splits)

lemma bind_ip_prefix: "ip_prefix s = ip_prefix t \<Longrightarrow> bind_ip secret s = bind_ip secret t"
  by (simp add: bind_ip_def)

subsection \<open>The trust boundary\<close>

text \<open>C31. An address other than the peer's own is believed only from a trusted proxy: it is then an address
  that parses, taken from \<open>CF-Connecting-IP\<close> or from an entry of \<open>X-Forwarded-For\<close>.\<close>

theorem forwarded_address_trusted:
  assumes "client_ip r trusted \<noteq> peer_host r"
  shows "(\<exists>peer. parse_ip (trim_space (peer_host r)) = Some peer \<and> is_trusted peer trusted)
    \<and> parse_ip (client_ip r trusted) \<noteq> None
    \<and> client_ip r trusted \<in> set (map trim_space
        (header r ''CF-Connecting-IP'' # split_on CHR '','' (header r ''X-Forwarded-For'')))"
proof -
  let ?entries = "map trim_space (split_on CHR '','' (header r ''X-Forwarded-For''))"
  have entry: "x \<in> set ?entries \<and> parse_ip x \<noteq> None" if "find (\<lambda>p. parse_ip p \<noteq> None) ?entries = Some x" for x
    using that by (auto simp: find_Some_iff simp del: not_None_eq)
  obtain peer where peer: "parse_ip (trim_space (peer_host r)) = Some peer" "is_trusted peer trusted"
    using assms by (cases "parse_ip (trim_space (peer_host r))") (auto simp: client_ip_def Let_def split: if_split_asm)
  show ?thesis
  proof (cases "parse_ip (trim_space (header r ''CF-Connecting-IP''))")
    case (Some ip)
    then have "client_ip r trusted = trim_space (header r ''CF-Connecting-IP'')"
      using peer by (simp add: client_ip_def)
    with Some peer show ?thesis by simp
  next
    case None
    then have "client_ip r trusted = (if header r ''X-Forwarded-For'' \<noteq> []
        then (case find (\<lambda>p. parse_ip p \<noteq> None) ?entries of Some p \<Rightarrow> p | None \<Rightarrow> peer_host r)
        else peer_host r)"
      using peer by (simp add: client_ip_def Let_def)
    with assms obtain x where "find (\<lambda>p. parse_ip p \<noteq> None) ?entries = Some x" "client_ip r trusted = x"
      by (cases "find (\<lambda>p. parse_ip p \<noteq> None) ?entries") (simp_all split: if_splits)
    with entry [of x] peer show ?thesis by auto
  qed
qed

lemma forwarded_address_trusted_witness:
  "let r = \<lparr>remote_addr = ''10.0.0.1:99'', header = (\<lambda>h. if h = ''CF-Connecting-IP'' then ''192.0.2.7'' else []), path_id = []\<rparr>
   in \<exists>peer. parse_ip (trim_space (peer_host r)) = Some peer
        \<and> is_trusted peer [\<lparr>net_ip = [10, 0, 0, 0], net_mask = cidr_mask 8 4\<rparr>]"
proof -
  have "client_ip \<lparr>remote_addr = ''10.0.0.1:99'', header = (\<lambda>h. if h = ''CF-Connecting-IP'' then ''192.0.2.7'' else []), path_id = []\<rparr>
      [\<lparr>net_ip = [10, 0, 0, 0], net_mask = cidr_mask 8 4\<rparr>]
    \<noteq> peer_host \<lparr>remote_addr = ''10.0.0.1:99'', header = (\<lambda>h. if h = ''CF-Connecting-IP'' then ''192.0.2.7'' else []), path_id = []\<rparr>"
    by code_simp
  from forwarded_address_trusted [OF this] show ?thesis unfolding Let_def by blast
qed

end
