(* ===== verification/Utf8.thy ===== *)
theory Utf8
  imports GoStrings
begin

text \<open>
  UTF-8 as package \<open>unicode/utf8\<close> reads it. \<open>rune_size\<close> is the size of the first rune of a string
  as \<open>DecodeRune\<close> finds it, 0 where it reports \<open>RuneError\<close> (an ill-formed sequence, of which it
  skips one byte); overlong forms, surrogates and values above \<open>0x10FFFF\<close> are ill-formed.
\<close>

definition byte_in :: "nat \<Rightarrow> nat \<Rightarrow> char \<Rightarrow> bool" where
  "byte_in lo hi c \<longleftrightarrow> lo \<le> (of_char c :: nat) \<and> (of_char c :: nat) \<le> hi"

text \<open>The number of bytes a first byte announces and the range of the second one (the tables \<open>first\<close>
  and \<open>acceptRanges\<close> of the package).\<close>

definition rune_lead :: "nat \<Rightarrow> nat \<times> nat \<times> nat" where
  "rune_lead n =
     (if n < 0x80 then (1, 0, 0)
      else if 0xC2 \<le> n \<and> n \<le> 0xDF then (2, 0x80, 0xBF)
      else if n = 0xE0 then (3, 0xA0, 0xBF)
      else if n = 0xED then (3, 0x80, 0x9F)
      else if 0xE1 \<le> n \<and> n \<le> 0xEF then (3, 0x80, 0xBF)
      else if n = 0xF0 then (4, 0x90, 0xBF)
      else if 0xF1 \<le> n \<and> n \<le> 0xF3 then (4, 0x80, 0xBF)
      else if n = 0xF4 then (4, 0x80, 0x8F)
      else (0, 0, 0))"

fun rune_size :: "string \<Rightarrow> nat" where
  "rune_size [] = 0"
| "rune_size (a # s) =
     (let (k, lo, hi) = rune_lead (of_char a) in
      if k \<le> 1 then k
      else if k \<le> length s + 1 \<and> byte_in lo hi (hd s) \<and> list_all (byte_in 0x80 0xBF) (take (k - 2) (tl s))
      then k else 0)"

declare rune_size.simps(2) [simp del]

definition replacement_char :: string where
  "replacement_char = [CHR 0xEF, CHR 0xBF, CHR 0xBD]"

text \<open>\<open>utf8.AppendRune\<close>: a surrogate or a number that is no rune becomes U+FFFD.\<close>

definition encode_rune :: "nat \<Rightarrow> string" where
  "encode_rune r =
     (if r < 0x80 then [char_of r]
      else if r < 0x800 then [char_of (0xC0 + r div 64), char_of (0x80 + r mod 64)]
      else if 0xD800 \<le> r \<and> r < 0xE000 \<or> r > 0x10FFFF then replacement_char
      else if r < 0x10000
      then [char_of (0xE0 + r div 4096), char_of (0x80 + r div 64 mod 64), char_of (0x80 + r mod 64)]
      else [char_of (0xF0 + r div 262144), char_of (0x80 + r div 4096 mod 64),
            char_of (0x80 + r div 64 mod 64), char_of (0x80 + r mod 64)])"

lemma rune_size_le: "rune_size s \<le> length s"
  by (cases s) (auto simp: rune_size.simps split: prod.split)

lemma rune_size_ascii: "is_ascii c \<Longrightarrow> rune_size (c # s) = 1"
  by (simp add: rune_size.simps rune_lead_def is_ascii_def)

text \<open>The size is a matter of the first bytes only.\<close>

lemma rune_size_append:
  assumes "rune_size s \<noteq> 0"
  shows "rune_size (s @ t) = rune_size s"
proof -
  obtain a u where s: "s = a # u" using assms by (cases s) auto
  obtain k lo hi where k: "rune_lead (of_char a) = (k, lo, hi)" by (metis prod_cases3)
  show ?thesis
  proof (cases "k \<le> 1")
    case False
    with assms have "u \<noteq> []" and "k \<le> Suc (length u)"
      by (auto simp: s k rune_size.simps split: if_splits)
    then have "hd (u @ t) = hd u" "take (k - 2) (tl (u @ t)) = take (k - 2) (tl u)" by simp_all
    with assms show ?thesis by (auto simp: s k rune_size.simps split: if_splits)
  qed (simp add: s k rune_size.simps)
qed

lemma rune_size_prefix: "rune_size s = k \<Longrightarrow> k \<noteq> 0 \<Longrightarrow> k \<le> n \<Longrightarrow> rune_size (take n s @ t) = k"
proof -
  assume k: "rune_size s = k" "k \<noteq> 0" "k \<le> n"
  obtain a u where s: "s = a # u" using k by (cases s) auto
  obtain j lo hi where j: "rune_lead (of_char a) = (j, lo, hi)" by (metis prod_cases3)
  have "rune_size (take n s) = k"
  proof (cases "j \<le> 1")
    case True
    with k show ?thesis by (cases n) (auto simp: s j rune_size.simps)
  next
    case False
    with k have j': "j = k" "k \<le> length u + 1" by (auto simp: s j rune_size.simps split: if_splits)
    with False k(3) have "hd (take (n - 1) u) = hd u" "take (k - 2) (tl (take (n - 1) u)) = take (k - 2) (tl u)"
      by (cases u; cases "n - 1"; auto simp: take_tl min_def)+
    with False k j' show ?thesis by (cases n) (auto simp: s j rune_size.simps split: if_splits)
  qed
  with k(2) show ?thesis using rune_size_append [of "take n s" t] by simp
qed

text \<open>\<open>utf8.ValidString\<close>\<close>

function utf8_valid :: "string \<Rightarrow> bool" where
  "utf8_valid s =
     (if s = [] then True else if rune_size s = 0 then False else utf8_valid (drop (rune_size s) s))"
  by pat_completeness auto
termination by (relation "measure length") auto

declare utf8_valid.simps [simp del]

lemma utf8_valid_Nil [simp]: "utf8_valid []"
  by (subst utf8_valid.simps) simp

lemma utf8_valid_ascii: "list_all is_ascii s \<Longrightarrow> utf8_valid s"
  by (induction s) (simp, subst utf8_valid.simps, simp add: rune_size_ascii)

declare utf8_valid_ascii [ascii_simps] is_ascii_def [ascii_simps]

end
