(* ===== verification/JsonText.thy ===== *)
theory JsonText
  imports Utf8
begin

text \<open>
  JSON texts as package \<open>encoding/json\<close> (Go 1.23) reads and writes them. \<open>feed\<close> is the state
  machine of its \<open>scanner.go\<close>: one step per byte, a stack of the objects and arrays that are
  open, at most 10,000 of them. Where the package scans a text for errors and then decodes it,
  the machine also collects the value; a number stays the literal it is written as, since what
  it may be depends on the Go type it is decoded into. \<open>quote\<close> and \<open>unquote\<close> are the
  package's \<open>appendString\<close> and \<open>unquoteBytes\<close>.
\<close>

datatype json =
    JNull
  | JBool bool
  | JNum string
  | JStr string
  | JArr "json list"
  | JObj "(string \<times> json) list"

subsection \<open>String literals\<close>

abbreviation quote_mark :: char where "quote_mark \<equiv> CHR 0x22"
abbreviation backslash :: char where "backslash \<equiv> CHR 0x5C"

text \<open>\<open>getu4\<close> after the two bytes \<open>\u\<close>.\<close>

fun read_u4 :: "string \<Rightarrow> nat option" where
  "read_u4 (a # b # c # d # s) =
     (case (hex_val a, hex_val b, hex_val c, hex_val d) of
        (Some w, Some x, Some y, Some z) \<Rightarrow> Some (((w * 16 + x) * 16 + y) * 16 + z)
      | _ \<Rightarrow> None)"
| "read_u4 s = None"

text \<open>The second half of a surrogate pair: an escape that follows at once.\<close>

definition low_surrogate :: "string \<Rightarrow> nat option" where
  "low_surrogate s =
     (if take 2 s = [backslash, CHR ''u'']
      then (case read_u4 (drop 2 s) of
              Some r \<Rightarrow> if 0xDC00 \<le> r \<and> r < 0xE000 then Some r else None
            | None \<Rightarrow> None)
      else None)"

definition simple_escape :: "char \<Rightarrow> char option" where
  "simple_escape e =
     (if e = CHR ''b'' then Some CHR 0x08 else if e = CHR ''f'' then Some CHR 0x0C
      else if e = CHR ''n'' then Some CHR 0x0A else if e = CHR ''r'' then Some CHR 0x0D
      else if e = CHR ''t'' then Some CHR 0x09
      else if e \<in> {quote_mark, backslash, CHR ''/'', CHR 0x27} then Some e else None)"

text \<open>What stands between the quotes of a literal the scanner has accepted; a backslash is
  followed there by one of the known escapes, and \<open>u\<close> by four hexadecimal digits.\<close>

function unquote :: "string \<Rightarrow> string" where
  "unquote [] = []"
| "unquote (c # s) =
     (if c = backslash
      then (if s = [] then []
            else if hd s \<noteq> CHR ''u''
            then (case simple_escape (hd s) of None \<Rightarrow> [] | Some e \<Rightarrow> e # unquote (tl s))
            else case read_u4 (tl s) of
                   None \<Rightarrow> []
                 | Some r \<Rightarrow>
                     if 0xD800 \<le> r \<and> r < 0xE000
                     then (case (if r < 0xDC00 then low_surrogate (drop 5 s) else None) of
                             Some r2 \<Rightarrow>
                               encode_rune ((r - 0xD800) * 1024 + (r2 - 0xDC00) + 0x10000)
                               @ unquote (drop 11 s)
                           | None \<Rightarrow> replacement_char @ unquote (drop 5 s))
                     else encode_rune r @ unquote (drop 5 s))
      else if rune_size (c # s) = 0 then replacement_char @ unquote s
      else take (rune_size (c # s)) (c # s) @ unquote (drop (rune_size (c # s)) (c # s)))"
  by pat_completeness auto
termination
  by (relation "measure length") (auto simp: neq_Nil_conv)

declare unquote.simps(2) [simp del]

text \<open>\<open>appendString\<close> with HTML escaping: every byte below 128 that is not in \<open>htmlSafeSet\<close> is
  escaped, and so are ill-formed bytes and the runes U+2028 and U+2029.\<close>

definition html_safe :: "char \<Rightarrow> bool" where
  "html_safe c \<longleftrightarrow>
     32 \<le> (of_char c :: nat) \<and> (of_char c :: nat) < 128
     \<and> c \<noteq> quote_mark \<and> c \<noteq> backslash \<and> c \<noteq> CHR ''<'' \<and> c \<noteq> CHR ''>'' \<and> c \<noteq> CHR ''&''"

definition escape_ascii :: "char \<Rightarrow> string" where
  "escape_ascii c =
     (if html_safe c then [c]
      else if c = quote_mark \<or> c = backslash then [backslash, c]
      else if c = CHR 0x08 then [backslash, CHR ''b'']
      else if c = CHR 0x0C then [backslash, CHR ''f'']
      else if c = CHR 0x0A then [backslash, CHR ''n'']
      else if c = CHR 0x0D then [backslash, CHR ''r'']
      else if c = CHR 0x09 then [backslash, CHR ''t'']
      else [backslash, CHR ''u'', CHR ''0'', CHR ''0'', hex_digit (of_char c div 16), hex_digit (of_char c mod 16)])"

fun line_separator :: "string \<Rightarrow> bool" where
  "line_separator (a # b # c # s) =
     (a = CHR 0xE2 \<and> b = CHR 0x80 \<and> (c = CHR 0xA8 \<or> c = CHR 0xA9))"
| "line_separator s = False"

function quote_body :: "string \<Rightarrow> string" where
  "quote_body [] = []"
| "quote_body (c # s) =
     (if is_ascii c then escape_ascii c @ quote_body s
      else if rune_size (c # s) = 0 then [backslash] @ ''ufffd'' @ quote_body s
      else if line_separator (c # s)
      then [backslash] @ ''u202'' @ [hex_digit (of_char ((c # s) ! 2) mod 16)] @ quote_body (drop 3 (c # s))
      else take (rune_size (c # s)) (c # s) @ quote_body (drop (rune_size (c # s)) (c # s)))"
  by pat_completeness auto
termination
  by (relation "measure length") auto

declare quote_body.simps(2) [simp del]

definition quote :: "string \<Rightarrow> string" where
  "quote s = quote_mark # quote_body s @ [quote_mark]"

subsection \<open>The scanner\<close>

datatype frame =
    InArray "json list"
  | InObject "(string \<times> json) list"
  | InMember "(string \<times> json) list" string

datatype num_state = NNeg | NZero | NInt | NDot | NFrac | NExp | NExpSign | NExpDigits

datatype mode =
    BeginValue | BeginValueOrEmpty | BeginString | BeginStringOrEmpty | ColonNext | EndValue
  | InString string | InEscape string | InHex nat string
  | InWord string json
  | InNumber num_state string

datatype progress = More "frame list" mode | Ended json bool | Malformed

definition max_nesting :: nat where "max_nesting = 10000"

definition is_space :: "char \<Rightarrow> bool" where
  "is_space c \<longleftrightarrow> c = CHR '' '' \<or> c = CHR 0x09 \<or> c = CHR 0x0D \<or> c = CHR 0x0A"

text \<open>A value is complete: it joins the open array or member, or is the value of the text.\<close>

fun attach :: "json \<Rightarrow> frame list \<Rightarrow> progress" where
  "attach v (InArray vs # st) = More (InArray (v # vs) # st) EndValue"
| "attach v (InMember kvs k # st) = More (InObject ((k, v) # kvs) # st) EndValue"
| "attach v st = Ended v True"

text \<open>A string literal is complete: where an object waits for a key, it is the key.\<close>

fun attach_string :: "string \<Rightarrow> frame list \<Rightarrow> progress" where
  "attach_string s (InObject kvs # st) = More (InMember kvs s # st) ColonNext"
| "attach_string s st = attach (JStr s) st"

definition open_frame :: "frame \<Rightarrow> mode \<Rightarrow> frame list \<Rightarrow> progress" where
  "open_frame f m st = (if length st < max_nesting then More (f # st) m else Malformed)"

definition begin_value :: "frame list \<Rightarrow> char \<Rightarrow> progress" where
  "begin_value st c =
     (if c = CHR ''{'' then open_frame (InObject []) BeginStringOrEmpty st
      else if c = CHR ''['' then open_frame (InArray []) BeginValueOrEmpty st
      else if c = quote_mark then More st (InString [])
      else if c = CHR ''-'' then More st (InNumber NNeg [c])
      else if c = CHR ''0'' then More st (InNumber NZero [c])
      else if c = CHR ''t'' then More st (InWord ''rue'' (JBool True))
      else if c = CHR ''f'' then More st (InWord ''alse'' (JBool False))
      else if c = CHR ''n'' then More st (InWord ''ull'' JNull)
      else if is_digit c then More st (InNumber NInt [c])
      else Malformed)"

fun end_value :: "frame list \<Rightarrow> char \<Rightarrow> progress" where
  "end_value (InArray vs # st) c =
     (if is_space c then More (InArray vs # st) EndValue
      else if c = CHR '','' then More (InArray vs # st) BeginValue
      else if c = CHR '']'' then attach (JArr (rev vs)) st
      else Malformed)"
| "end_value (InObject kvs # st) c =
     (if is_space c then More (InObject kvs # st) EndValue
      else if c = CHR '','' then More (InObject kvs # st) BeginString
      else if c = CHR ''}'' then attach (JObj (rev kvs)) st
      else Malformed)"
| "end_value st c = Malformed"

text \<open>How a number goes on; \<open>None\<close> where the byte is not part of it.\<close>

definition num_step :: "num_state \<Rightarrow> char \<Rightarrow> num_state option" where
  "num_step n c =
     (let exp = (c = CHR ''e'' \<or> c = CHR ''E'') in
      case n of
        NNeg \<Rightarrow> if c = CHR ''0'' then Some NZero else if is_digit c then Some NInt else None
      | NZero \<Rightarrow> if c = CHR ''.'' then Some NDot else if exp then Some NExp else None
      | NInt \<Rightarrow> if is_digit c then Some NInt else if c = CHR ''.'' then Some NDot
                else if exp then Some NExp else None
      | NDot \<Rightarrow> if is_digit c then Some NFrac else None
      | NFrac \<Rightarrow> if is_digit c then Some NFrac else if exp then Some NExp else None
      | NExp \<Rightarrow> if c = CHR ''+'' \<or> c = CHR ''-'' then Some NExpSign
                else if is_digit c then Some NExpDigits else None
      | NExpSign \<Rightarrow> if is_digit c then Some NExpDigits else None
      | NExpDigits \<Rightarrow> if is_digit c then Some NExpDigits else None)"

definition num_complete :: "num_state \<Rightarrow> bool" where
  "num_complete n \<longleftrightarrow> n \<in> {NZero, NInt, NFrac, NExpDigits}"

fun step :: "frame list \<Rightarrow> mode \<Rightarrow> char \<Rightarrow> progress" where
  "step st BeginValue c = (if is_space c then More st BeginValue else begin_value st c)"
| "step st BeginValueOrEmpty c =
     (if is_space c then More st BeginValueOrEmpty
      else if c = CHR '']'' then end_value st c else begin_value st c)"
| "step st BeginString c =
     (if is_space c then More st BeginString
      else if c = quote_mark then More st (InString []) else Malformed)"
| "step st BeginStringOrEmpty c =
     (if is_space c then More st BeginStringOrEmpty
      else if c = CHR ''}'' then end_value st c
      else if c = quote_mark then More st (InString []) else Malformed)"
| "step st ColonNext c =
     (if is_space c then More st ColonNext
      else if c = CHR '':'' then More st BeginValue else Malformed)"
| "step st EndValue c = end_value st c"
| "step st (InString raw) c =
     (if c = quote_mark then attach_string (unquote (rev raw)) st
      else if c = backslash then More st (InEscape (c # raw))
      else if (of_char c :: nat) < 32 then Malformed
      else More st (InString (c # raw)))"
| "step st (InEscape raw) c =
     (if c \<in> set ''bfnrt/'' \<or> c = backslash \<or> c = quote_mark then More st (InString (c # raw))
      else if c = CHR ''u'' then More st (InHex 4 (c # raw))
      else Malformed)"
| "step st (InHex n raw) c =
     (if hex_val c = None then Malformed
      else More st (if n = 1 then InString (c # raw) else InHex (n - 1) (c # raw)))"
| "step st (InWord w v) c =
     (if w \<noteq> [] \<and> c = hd w then (if tl w = [] then attach v st else More st (InWord (tl w) v))
      else Malformed)"
| "step st (InNumber n lit) c =
     (case num_step n c of
        Some n' \<Rightarrow> More st (InNumber n' (c # lit))
      | None \<Rightarrow>
          if \<not> num_complete n then Malformed
          else (case attach (JNum (rev lit)) st of
                  More st' m \<Rightarrow> end_value st' c
                | Ended v used \<Rightarrow> Ended v False
                | Malformed \<Rightarrow> Malformed))"

text \<open>
  The value a text begins with and what follows it. The flag says that the value is known to be complete
  at its last byte, which is so of objects and arrays; other values end with the byte after
  them or the end of the text.
\<close>

datatype scanned = Scanned json string bool | Unfinished | Broken

fun self_delimiting :: "json \<Rightarrow> bool" where
  "self_delimiting (JArr vs) = True"
| "self_delimiting (JObj kvs) = True"
| "self_delimiting v = False"

fun feed :: "frame list \<Rightarrow> mode \<Rightarrow> string \<Rightarrow> scanned" where
  "feed st m [] =
     (case m of
        InNumber n lit \<Rightarrow> if st = [] \<and> num_complete n then Scanned (JNum (rev lit)) [] False else Unfinished
      | _ \<Rightarrow> Unfinished)"
| "feed st m (c # s) =
     (case step st m c of
        More st' m' \<Rightarrow> feed st' m' s
      | Ended v used \<Rightarrow> Scanned v (if used then s else c # s) (self_delimiting v)
      | Malformed \<Rightarrow> Broken)"

text \<open>\<open>checkValid\<close> of \<open>Unmarshal\<close>: one value and nothing but white space after it.\<close>

definition parse_json :: "string \<Rightarrow> json option" where
  "parse_json s =
     (case feed [] BeginValue s of
        Scanned v rest delimited \<Rightarrow> if list_all is_space rest then Some v else None
      | _ \<Rightarrow> None)"


subsection \<open>Quoting is undone by reading\<close>

lemma unquote_plain: "c \<noteq> backslash \<Longrightarrow> is_ascii c \<Longrightarrow> unquote (c # s) = c # unquote s"
  by (simp add: unquote.simps(2) rune_size_ascii)

lemma unquote_simple:
  "e \<noteq> CHR ''u'' \<Longrightarrow> simple_escape e = Some c \<Longrightarrow> unquote (backslash # e # s) = c # unquote s"
  by (simp add: unquote.simps(2))

lemma unquote_hex:
  "read_u4 (a # b # c # d # s) = Some r \<Longrightarrow> r < 0xD800 \<Longrightarrow>
     unquote (backslash # CHR ''u'' # a # b # c # d # s) = encode_rune r @ unquote s"
  by (simp add: unquote.simps(2))

lemma unquote_rune:
  "\<not> is_ascii c \<Longrightarrow> rune_size (c # s) \<noteq> 0 \<Longrightarrow>
     unquote (take (rune_size (c # s)) (c # s) @ t) = take (rune_size (c # s)) (c # s) @ unquote t"
proof -
  assume c: "\<not> is_ascii c" and n: "rune_size (c # s) \<noteq> 0"
  let ?n = "rune_size (c # s)"
  obtain u where u: "take ?n (c # s) = c # u" using n by (cases ?n) auto
  have len: "length (c # u) = ?n" using rune_size_le [of "c # s"] by (simp flip: u)
  have "rune_size (c # u @ t) = ?n"
    using rune_size_prefix [OF refl n order_refl, of t] by (simp add: u)
  moreover have "c \<noteq> backslash" using c by (auto simp: is_ascii_def)
  moreover have "take ?n (c # u @ t) = c # u" "drop ?n (c # u @ t) = t" using len by (simp_all flip: len)
  ultimately show ?thesis using n by (simp add: u unquote.simps(2))
qed

lemma unquote_escape_ascii: "is_ascii c \<Longrightarrow> unquote (escape_ascii c @ s) = c # unquote s"
proof -
  assume c: "is_ascii c"
  let ?n = "of_char c :: nat"
  have n: "?n < 128" using c by (simp add: is_ascii_def)
  have hex: "unquote (backslash # CHR ''u'' # CHR ''0'' # CHR ''0'' # hex_digit (?n div 16) # hex_digit (?n mod 16) # s)
      = c # unquote s"
  proof -
    have "read_u4 (CHR ''0'' # CHR ''0'' # hex_digit (?n div 16) # hex_digit (?n mod 16) # s) = Some ?n"
      using n by (simp add: hex_val_def [of "CHR ''0''"])
    moreover have "encode_rune ?n = [c]" using n by (simp add: encode_rune_def)
    ultimately show ?thesis using n by (simp add: unquote_hex)
  qed
  show ?thesis
  proof (cases "html_safe c")
    case True
    then show ?thesis using c by (auto simp: escape_ascii_def html_safe_def intro: unquote_plain)
  next
    case False
    with hex show ?thesis by (auto simp: escape_ascii_def unquote_simple simple_escape_def)
  qed
qed

lemma unquote_quote_body: "utf8_valid s \<Longrightarrow> unquote (quote_body s) = s"
proof (induction s rule: quote_body.induct)
  case (2 c s)
  let ?n = "rune_size (c # s)"
  have n: "?n \<noteq> 0" and rest: "utf8_valid (drop ?n (c # s))"
    using "2.prems" by (subst (asm) utf8_valid.simps; simp split: if_splits)+
  show ?case
  proof (cases "is_ascii c")
    case True
    with rest have "utf8_valid s" by (simp add: rune_size_ascii)
    with "2.IH"(1) [OF True] True show ?thesis by (simp add: quote_body.simps(2) unquote_escape_ascii)
  next
    case False
    show ?thesis
    proof (cases "line_separator (c # s)")
      case True
      then obtain b d u where s: "s = b # d # u" and c: "c = CHR 0xE2" "b = CHR 0x80"
        and d: "d = CHR 0xA8 \<or> d = CHR 0xA9"
        by (cases "c # s" rule: line_separator.cases) auto
      have size: "?n = 3" using d by (auto simp: s c rune_size.simps rune_lead_def byte_in_def)
      have "quote_body (c # s) = backslash # CHR ''u'' # CHR ''2'' # CHR ''0'' # CHR ''2''
          # hex_digit (of_char d mod 16) # quote_body u"
        unfolding quote_body.simps(2) [of c s] using True False n by (simp add: s)
      moreover have "read_u4 (CHR ''2'' # CHR ''0'' # CHR ''2'' # hex_digit (of_char d mod 16) # quote_body u)
          = Some (0x2020 + of_char d mod 16)"
        by (simp add: hex_val_def [of "CHR ''2''"] hex_val_def [of "CHR ''0''"])
      ultimately have "unquote (quote_body (c # s)) = encode_rune (0x2020 + of_char d mod 16) @ unquote (quote_body u)"
        using d by (auto simp only: intro!: unquote_hex)
      moreover have "encode_rune (0x2020 + of_char d mod 16) = [c, b, d]"
        using d by (auto simp: encode_rune_def c char_of_eq_iff)
      moreover have "unquote (quote_body u) = u"
        using "2.IH"(3) [OF False n True] rest [unfolded size] by (simp add: s)
      ultimately show ?thesis by (simp add: s)
    next
      case sep: False
      with "2.IH"(4) [OF False n sep] rest False n show ?thesis
        by (simp add: quote_body.simps(2) unquote_rune)
    qed
  qed
qed simp


lemma quote_body_safe: "list_all html_safe s \<Longrightarrow> quote_body s = s"
  by (induction s) (simp_all add: quote_body.simps(2) html_safe_def is_ascii_def escape_ascii_def)

subsection \<open>Writing\<close>

text \<open>The texts \<open>Marshal\<close> writes for a value: members and elements with commas, no white space.\<close>

fun commas :: "string list \<Rightarrow> string" where
  "commas [] = []"
| "commas [x] = x"
| "commas (x # y # xs) = x @ CHR '','' # commas (y # xs)"

fun print_json :: "json \<Rightarrow> string" where
  "print_json JNull = ''null''"
| "print_json (JBool b) = (if b then ''true'' else ''false'')"
| "print_json (JNum lit) = lit"
| "print_json (JStr s) = quote s"
| "print_json (JArr vs) = CHR ''['' # commas (map print_json vs) @ '']''"
| "print_json (JObj kvs) =
     CHR ''{'' # commas (map (\<lambda>kv. quote (fst kv) @ CHR '':'' # print_json (snd kv)) kvs) @ ''}''"

text \<open>What can be written so that it can be read back.\<close>

fun num_run :: "num_state \<Rightarrow> string \<Rightarrow> num_state option" where
  "num_run n [] = Some n"
| "num_run n (c # s) = Option.bind (num_step n c) (\<lambda>n'. num_run n' s)"

definition num_start :: "char \<Rightarrow> num_state option" where
  "num_start c =
     (if c = CHR ''-'' then Some NNeg else if c = CHR ''0'' then Some NZero
      else if is_digit c then Some NInt else None)"

definition num_literal :: "string \<Rightarrow> bool" where
  "num_literal s \<longleftrightarrow>
     s \<noteq> [] \<and> (case Option.bind (num_start (hd s)) (\<lambda>n. num_run n (tl s)) of
                None \<Rightarrow> False | Some n \<Rightarrow> num_complete n)"

text \<open>with room for \<open>n\<close> open objects and arrays\<close>

fun printable :: "nat \<Rightarrow> json \<Rightarrow> bool" where
  "printable n (JNum lit) = num_literal lit"
| "printable n (JStr s) = utf8_valid s"
| "printable n (JArr vs) = (0 < n \<and> list_all (printable (n - 1)) vs)"
| "printable n (JObj kvs) = (0 < n \<and> list_all (\<lambda>kv. utf8_valid (fst kv) \<and> printable (n - 1) (snd kv)) kvs)"
| "printable n JNull = True"
| "printable n (JBool b) = True"

subsection \<open>Reading what was written\<close>

text \<open>A number ends at the end of the text and before white space, a comma or a bracket.\<close>

definition ends_number :: "string \<Rightarrow> bool" where
  "ends_number s \<longleftrightarrow> s = [] \<or> is_space (hd s) \<or> hd s \<in> {CHR '','', CHR '']'', CHR ''}''}"

fun resume :: "progress \<Rightarrow> string \<Rightarrow> scanned" where
  "resume (More st m) t = feed st m t"
| "resume (Ended v used) t = Scanned v t (self_delimiting v)"
| "resume Malformed t = Broken"

lemma feed_chars:
  "\<forall>c\<in>set xs. 32 \<le> (of_char c :: nat) \<and> c \<noteq> quote_mark \<and> c \<noteq> backslash \<Longrightarrow>
     feed st (InString raw) (xs @ t) = feed st (InString (rev xs @ raw)) t"
  by (induction xs arbitrary: raw) auto

lemma rune_bytes:
  assumes "\<not> is_ascii c" and x: "x \<in> set (take (rune_size (c # s)) (c # s))"
  shows "128 \<le> (of_char x :: nat)"
proof -
  obtain k lo hi where k: "rune_lead (of_char c) = (k, lo, hi)" by (metis prod_cases3)
  have lo: "2 \<le> k \<Longrightarrow> 128 \<le> lo"
    using k assms(1) by (auto simp: rune_lead_def is_ascii_def split: if_splits)
  have 1: "k \<noteq> 1" using k assms(1) by (auto simp: rune_lead_def is_ascii_def split: if_splits)
  show ?thesis
  proof (cases "rune_size (c # s) = 0")
    case False
    with k 1 have *: "rune_size (c # s) = k" "2 \<le> k" "k \<le> length s + 1" "byte_in lo hi (hd s)"
        "list_all (byte_in 0x80 0xBF) (take (k - 2) (tl s))"
      by (auto simp: rune_size.simps split: if_splits)
    then obtain b u where s: "s = b # u" by (cases s) auto
    have "take k (c # s) = c # b # take (k - 2) u"
      using *(2) by (simp add: s take_Cons' numeral_eq_Suc)
    with x *(1) consider "x = c" | "x = b" | "x \<in> set (take (k - 2) u)" by (auto simp: s)
    then show ?thesis
      using assms(1) *(2,4,5) lo by cases (auto simp: s byte_in_def is_ascii_def list_all_iff)
  qed (use x in simp)
qed

lemma feed_escape_ascii:
  "is_ascii c \<Longrightarrow> feed st (InString raw) (escape_ascii c @ t) = feed st (InString (rev (escape_ascii c) @ raw)) t"
  by (auto simp: escape_ascii_def html_safe_def is_ascii_def hex_val_def [of "CHR ''0''"])

lemma feed_quote_body:
  "feed st (InString raw) (quote_body s @ t) = feed st (InString (rev (quote_body s) @ raw)) t"
proof (induction s arbitrary: raw rule: quote_body.induct)
  case (2 c s)
  let ?n = "rune_size (c # s)"
  show ?case
  proof (cases "is_ascii c")
    case True
    then show ?thesis using "2.IH"(1) [OF True] by (simp add: quote_body.simps(2) feed_escape_ascii)
  next
    case False
    note IH = "2.IH"(2-4) [OF False]
    show ?thesis
    proof (cases "?n = 0 \<or> line_separator (c # s)")
      case True
      then show ?thesis using False IH
        by (auto simp: quote_body.simps(2) [of c s] hex_val_def [of "CHR ''0''"] hex_val_def [of "CHR ''2''"]
            hex_val_def [of "CHR ''f''"] hex_val_def [of "CHR ''d''"])
    next
      case runes: False
      have "\<forall>x\<in>set (take ?n (c # s)). 128 \<le> (of_char x :: nat)"
        using rune_bytes [OF False] by blast
      then have "feed st (InString raw) (take ?n (c # s) @ u) = feed st (InString (rev (take ?n (c # s)) @ raw)) u" for u
        by (intro feed_chars) fastforce
      then show ?thesis using False runes IH(3) by (simp add: quote_body.simps(2) [of c s] del: take_Suc_Cons)
    qed
  qed
qed simp

lemma feed_Cons: "feed st m (c # s) = resume (step st m c) s" if "\<And>v. step st m c \<noteq> Ended v False"
  using that by (cases "step st m c") (auto split: bool.split)

lemma attach_used: "attach v st \<noteq> Ended w False"
  by (induction v st rule: attach.induct) auto

lemma attach_string_used: "attach_string s st \<noteq> Ended w False"
  by (cases "(s, st)" rule: attach_string.cases) (auto simp: attach_used)

lemma feed_string_end:
  "utf8_valid s \<Longrightarrow> feed st (InString []) (quote_body s @ quote_mark # t) = resume (attach_string s st) t"
  by (simp add: feed_quote_body feed_Cons attach_string_used unquote_quote_body del: feed.simps)

lemma feed_quote:
  "utf8_valid s \<Longrightarrow> m \<in> {BeginValue, BeginString, BeginStringOrEmpty} \<Longrightarrow>
     feed st m (quote s @ t) = resume (attach_string s st) t"
  using feed_string_end [of s st t] by (auto simp: quote_def is_space_def begin_value_def)

lemma feed_num_run:
  "num_run n xs = Some n' \<Longrightarrow> feed st (InNumber n raw) (xs @ t) = feed st (InNumber n' (rev xs @ raw)) t"
  by (induction xs arbitrary: n raw) (auto simp: bind_eq_Some_conv)

text \<open>The open place is one for a value, not for a key.\<close>

fun value_place :: "frame list \<Rightarrow> bool" where
  "value_place (InObject kvs # st) = False"
| "value_place st = True"

lemma num_step_end: "ends_number (c # t) \<Longrightarrow> num_step n c = None"
proof -
  assume "ends_number (c # t)"
  then have "\<not> is_digit c \<and> c \<notin> set ''0.eE+-''"
    by (auto simp: ends_number_def is_space_def is_digit_def digit_val_def)
  then show ?thesis by (cases n) (simp_all add: num_step_def)
qed

lemma feed_number_end:
  assumes "num_complete n" and "ends_number t" and "value_place st"
  shows "feed st (InNumber n raw) t = resume (attach (JNum (rev raw)) st) t"
proof (cases t)
  case Nil
  then show ?thesis using assms(1,3) by (cases "(JNum (rev raw), st)" rule: attach.cases) auto
next
  case (Cons c u)
  have "num_step n c = None" using assms(2) num_step_end unfolding Cons by blast
  then show ?thesis using assms(1,3)
    by (cases "(JNum (rev raw), st)" rule: attach.cases) (auto simp: Cons)
qed

lemma digit_no_sign: "is_digit c \<Longrightarrow> c \<notin> set ''{[-tfn'' \<and> c \<noteq> quote_mark \<and> \<not> is_space c"
  by (auto simp: is_digit_def digit_val_def is_space_def split: if_splits)

lemma begin_number: "num_start c = Some n \<Longrightarrow> feed st BeginValue (c # t) = feed st (InNumber n [c]) t"
proof -
  assume n: "num_start c = Some n"
  then consider "c = CHR ''-''" "n = NNeg" | "c = CHR ''0''" "n = NZero" | "is_digit c" "c \<noteq> CHR ''0''" "n = NInt"
    by (auto simp: num_start_def split: if_splits)
  then have "step st BeginValue c = More st (InNumber n [c])"
    by cases (use digit_no_sign [of c] in \<open>simp_all add: is_space_def begin_value_def\<close>)
  then show ?thesis by simp
qed

lemma feed_number:
  assumes "num_literal lit" and "ends_number t" and "value_place st"
  shows "feed st BeginValue (lit @ t) = resume (attach (JNum lit) st) t"
proof -
  from assms(1) obtain c s n n' where lit: "lit = c # s" "num_start c = Some n" "num_run n s = Some n'" "num_complete n'"
    by (cases lit) (auto simp: num_literal_def bind_eq_Some_conv split: option.splits)
  then show ?thesis
    using feed_number_end [OF _ assms(2,3)] by (simp add: begin_number feed_num_run del: feed.simps)
qed

lemma attach_string_value: "value_place st \<Longrightarrow> attach_string s st = attach (JStr s) st"
  by (cases "(s, st)" rule: attach_string.cases) auto

text \<open>What a written value begins with.\<close>

lemma print_json_first: "printable n v \<Longrightarrow> \<exists>c s. print_json v = c # s \<and> \<not> is_space c \<and> c \<noteq> CHR '']''"
  by (cases v)
    (auto simp: quote_def is_space_def num_literal_def num_start_def is_digit_def digit_val_def neq_Nil_conv
      split: if_splits)

lemma feed_elements:
  assumes "\<And>v acc t. v \<in> set vs \<Longrightarrow> ends_number t \<Longrightarrow>
      feed (InArray acc # st) BeginValue (print_json v @ t) = feed (InArray (v # acc) # st) EndValue t"
    and "vs \<noteq> []"
  shows "feed (InArray acc # st) BeginValue (commas (map print_json vs) @ '']'' @ t)
    = resume (attach (JArr (rev acc @ vs)) st) t"
  using assms
proof (induction vs arbitrary: acc)
  case (Cons v vs)
  show ?case
  proof (cases vs)
    case Nil
    then show ?thesis using Cons.prems(1) [of v "CHR '']'' # t"]
      by (simp add: ends_number_def feed_Cons attach_used is_space_def del: feed.simps)
  next
    case (Cons w ws)
    have "feed (InArray acc # st) BeginValue (print_json v @ CHR '','' # u) = feed (InArray (v # acc) # st) BeginValue u" for u
      using Cons.prems(1) [of v "CHR '','' # u"] by (simp add: ends_number_def is_space_def)
    then show ?thesis using Cons.IH [of "v # acc"] Cons.prems(1) by (simp add: Cons)
  qed
qed simp

lemma feed_members:
  assumes "\<And>k v. (k, v) \<in> set kvs \<Longrightarrow> utf8_valid k"
    and "\<And>k v acc t. (k, v) \<in> set kvs \<Longrightarrow> ends_number t \<Longrightarrow>
      feed (InMember acc k # st) BeginValue (print_json v @ t) = feed (InObject ((k, v) # acc) # st) EndValue t"
    and "kvs \<noteq> []" and "m = BeginString \<or> m = BeginStringOrEmpty"
  shows "feed (InObject acc # st) m
      (commas (map (\<lambda>kv. quote (fst kv) @ CHR '':'' # print_json (snd kv)) kvs) @ ''}'' @ t)
    = resume (attach (JObj (rev acc @ kvs)) st) t"
  using assms
proof (induction kvs arbitrary: acc m)
  case (Cons kv kvs)
  obtain k v where kv: "kv = (k, v)" by fastforce
  have key: "feed (InObject acc # st) m (quote k @ CHR '':'' # print_json v @ u) = feed (InObject ((k, v) # acc) # st) EndValue u"
    if "ends_number u" for u
  proof -
    have "utf8_valid k" using Cons.prems(1) [of k v] by (simp add: kv)
    then show ?thesis
      using Cons.prems(2) [of k v u acc] Cons.prems(4) that by (auto simp: feed_quote kv is_space_def)
  qed
  show ?case
  proof (cases kvs)
    case Nil
    then show ?thesis using key [of "CHR ''}'' # t"]
      by (simp add: kv ends_number_def feed_Cons attach_used is_space_def del: feed.simps)
  next
    case (Cons w ws)
    have "feed (InObject acc # st) m (quote k @ CHR '':'' # print_json v @ CHR '','' # u)
        = feed (InObject ((k, v) # acc) # st) BeginString u" for u
      using key [of "CHR '','' # u"] by (simp add: ends_number_def is_space_def)
    moreover have "feed (InObject ((k, v) # acc) # st) BeginString
        (commas (map (\<lambda>kv. quote (fst kv) @ CHR '':'' # print_json (snd kv)) kvs) @ ''}'' @ t)
      = resume (attach (JObj (rev ((k, v) # acc) @ kvs)) st) t"
      using Cons.prems(1,2) by (intro Cons.IH) (auto simp: Cons)
    ultimately show ?thesis by (simp add: Cons kv)
  qed
qed simp

lemma feed_print_json:
  "printable n v \<Longrightarrow> length st + n \<le> max_nesting \<Longrightarrow> value_place st \<Longrightarrow> ends_number t \<Longrightarrow>
     feed st BeginValue (print_json v @ t) = resume (attach v st) t"
proof (induction n v arbitrary: st t rule: printable.induct)
  case (3 n vs)
  have room: "length st < max_nesting" using "3.prems"(1,2) by simp
  have elem: "feed (InArray acc # st) BeginValue (print_json v @ u) = feed (InArray (v # acc) # st) EndValue u"
    if "v \<in> set vs" "ends_number u" for v acc u
    using "3.IH" [OF that(1), of "InArray acc # st" u] that "3.prems" by (auto simp: list_all_iff)
  show ?case
  proof (cases "vs = []")
    case True
    then show ?thesis using room
      by (simp add: begin_value_def open_frame_def is_space_def feed_Cons attach_used del: feed.simps)
  next
    case False
    have "\<exists>c s. commas (map print_json vs) = c # s \<and> \<not> is_space c \<and> c \<noteq> CHR '']''"
    proof -
      obtain w ws where vs: "vs = w # ws" using False by (cases vs) auto
      with "3.prems"(1) have "printable (n - 1) w" by simp
      from print_json_first [OF this] show ?thesis by (cases ws) (auto simp: vs)
    qed
    then have "feed (InArray [] # st) BeginValueOrEmpty (commas (map print_json vs) @ u)
        = feed (InArray [] # st) BeginValue (commas (map print_json vs) @ u)" for u by auto
    moreover have "feed st BeginValue (CHR ''['' # u) = feed (InArray [] # st) BeginValueOrEmpty u" for u
      using room by (simp add: begin_value_def open_frame_def is_space_def)
    ultimately show ?thesis using feed_elements [OF elem False, of "[]"] by simp
  qed
next
  case (4 n kvs)
  have room: "length st < max_nesting" using "4.prems"(1,2) by simp
  have keys: "utf8_valid k" if "(k, v) \<in> set kvs" for k v using that "4.prems"(1) by (auto simp: list_all_iff)
  have memb: "feed (InMember acc k # st) BeginValue (print_json v @ u) = feed (InObject ((k, v) # acc) # st) EndValue u"
    if "(k, v) \<in> set kvs" "ends_number u" for k v acc u
    using "4.IH" [OF that(1), of "InMember acc k # st" u] that "4.prems" by (auto simp: list_all_iff)
  have "feed st BeginValue (CHR ''{'' # u) = feed (InObject [] # st) BeginStringOrEmpty u" for u
    using room by (simp add: begin_value_def open_frame_def is_space_def)
  then show ?case
    using feed_members [OF keys memb, where m = BeginStringOrEmpty and acc = "[]"]
    by (cases "kvs = []") (simp_all add: is_space_def feed_Cons attach_used del: feed.simps)
next
  case (5 n)
  then show ?case by (simp add: is_space_def begin_value_def feed_Cons attach_used del: feed.simps)
next
  case (6 n b)
  then show ?case by (cases b) (simp_all add: is_space_def begin_value_def feed_Cons attach_used del: feed.simps)
qed (simp_all add: feed_number feed_quote attach_string_value)

lemma feed_delimited: "feed st m s = Scanned v [] True \<Longrightarrow> feed st m (s @ t) = Scanned v t True"
proof (induction st m s rule: feed.induct)
  case (1 st m)
  then show ?case by (auto split: mode.splits if_splits)
next
  case (2 st m c s)
  then show ?case by (auto split: progress.splits if_splits)
qed

theorem parse_print_json: "printable max_nesting v \<Longrightarrow> parse_json (print_json v) = Some v"
  using feed_print_json [of max_nesting v "[]" "[]"] by (simp add: parse_json_def ends_number_def)

end
