(* ===== verification/JsonData.thy ===== *)
theory JsonData
  imports JsonText Model
begin

text \<open>
  Decoding a JSON value into a Go variable, as \<open>decode.go\<close> of package \<open>encoding/json\<close> does. A
  decoder takes the value and what the variable holds, and gives what it holds afterwards, or
  \<open>None\<close> where the package reports an error. (After a type error the package goes on with the
  other members and reports the first error at the end; the code never looks at a variable
  after an error.) A \<open>null\<close> leaves a variable as it is, except a slice.
\<close>

type_synonym 'a decoder = "json \<Rightarrow> 'a \<Rightarrow> 'a option"

subsection \<open>Numbers\<close>

definition show_int :: "int \<Rightarrow> string" where
  "show_int i = (if i < 0 then CHR ''-'' # show_nat (nat (- i)) else show_nat (nat i))"

text \<open>\<open>strconv.ParseInt(s, 10, 64)\<close> and \<open>strconv.ParseUint(s, 10, 64)\<close> on a JSON number.\<close>

definition parse_int64 :: "string \<Rightarrow> int option" where
  "parse_int64 s =
     (let neg = (s \<noteq> [] \<and> hd s = CHR ''-''); ds = (if neg then tl s else s);
          n = (if neg then - int (read_nat ds) else int (read_nat ds))
      in if ds = [] \<or> \<not> list_all is_digit ds \<or> \<not> int64_range n then None else Some n)"

definition parse_uint64 :: "string \<Rightarrow> nat option" where
  "parse_uint64 s =
     (if s = [] \<or> \<not> list_all is_digit s \<or> read_nat s \<ge> 2 ^ 64 then None else Some (read_nat s))"

text \<open>
  The double nearest to \<open>p / q\<close>, ties to even: the quotient is taken in units of \<open>2 ^ s\<close>, where \<open>s\<close>
  is such that it has 53 bits, or the least exponent of a double. \<open>None\<close> where it is too large.
\<close>

function int_bits :: "int \<Rightarrow> int" where
  "int_bits n = (if n \<le> 0 then 0 else 1 + int_bits (n div 2))"
  by pat_completeness auto
termination by (relation "measure nat") auto

declare int_bits.simps [simp del]

definition ratio_ulp :: "int \<Rightarrow> int \<Rightarrow> int" where
  "ratio_ulp p q =
     (let s = int_bits p - int_bits q - 53;
          big = (if s \<ge> 0 then p \<ge> 2 ^ 53 * (q * 2 ^ nat s) else p * 2 ^ nat (- s) \<ge> 2 ^ 53 * q)
      in max (- 1074) (if big then s + 1 else s))"

definition f64_of_ratio :: "bool \<Rightarrow> int \<Rightarrow> int \<Rightarrow> f64 option" where
  "f64_of_ratio neg p q =
     (let s = ratio_ulp p q;
          num = (if s \<ge> 0 then p else p * 2 ^ nat (- s));
          den = (if s \<ge> 0 then q * 2 ^ nat s else q);
          m0 = num div den; r = num mod den;
          m = (if 2 * r > den \<or> (2 * r = den \<and> odd m0) then m0 + 1 else m0);
          b = (if p = 0 then 0 else (s + 1074) * 2 ^ 52 + m)
      in if b \<ge> 0x7FF0000000000000 then None
         else Some (word_of_int ((if neg then 2 ^ 63 else 0) + b)))"

text \<open>\<open>strconv.ParseFloat(s, 64)\<close> on a JSON number. The digits of an exponent count only until it
  has passed 9,999.\<close>

definition parse_exponent :: "string \<Rightarrow> int" where
  "parse_exponent s =
     (let ds = dropWhile (\<lambda>c. c = CHR ''+'' \<or> c = CHR ''-'') s;
          e = fold (\<lambda>c n. if n < 10000 then n * 10 + (of_char c - 48) else n) ds (0::nat)
      in if s \<noteq> [] \<and> hd s = CHR ''-'' then - int e else int e)"

definition parse_float64 :: "string \<Rightarrow> f64 option" where
  "parse_float64 s =
     (let neg = (s \<noteq> [] \<and> hd s = CHR ''-''); u = (if neg then tl s else s);
          ip = takeWhile is_digit u; u1 = drop (length ip) u;
          fp = (if u1 \<noteq> [] \<and> hd u1 = CHR ''.'' then takeWhile is_digit (tl u1) else []);
          u2 = dropWhile (\<lambda>c. c \<noteq> CHR ''e'' \<and> c \<noteq> CHR ''E'') u1;
          e = (if u2 = [] then 0 else parse_exponent (tl u2)) - int (length fp);
          m = int (read_nat (ip @ fp))
      in if e \<ge> 0 then f64_of_ratio neg (m * 10 ^ nat e) 1
         else f64_of_ratio neg m (10 ^ nat (- e)))"

subsection \<open>Scalars\<close>

fun dec_string :: "string decoder" where
  "dec_string JNull x = Some x"
| "dec_string (JStr s) x = Some s"
| "dec_string v x = None"

fun dec_bool :: "bool decoder" where
  "dec_bool JNull x = Some x"
| "dec_bool (JBool b) x = Some b"
| "dec_bool v x = None"

fun dec_int :: "int decoder" where
  "dec_int JNull x = Some x"
| "dec_int (JNum lit) x = parse_int64 lit"
| "dec_int v x = None"

fun dec_uint64 :: "64 word decoder" where
  "dec_uint64 JNull x = Some x"
| "dec_uint64 (JNum lit) x = map_option of_nat (parse_uint64 lit)"
| "dec_uint64 v x = None"

fun dec_uint32 :: "32 word decoder" where
  "dec_uint32 JNull x = Some x"
| "dec_uint32 (JNum lit) x =
     (case parse_uint64 lit of Some n \<Rightarrow> if n < 2 ^ 32 then Some (of_nat n) else None | None \<Rightarrow> None)"
| "dec_uint32 v x = None"

fun dec_float :: "f64 decoder" where
  "dec_float JNull x = Some x"
| "dec_float (JNum lit) x = parse_float64 lit"
| "dec_float v x = None"

text \<open>
  A \<open>[]string\<close>, with the cells of the array behind it. Decoding an array overwrites the cells from the
  first on without clearing them, so where a key is repeated a \<open>null\<close> element shows what an earlier
  array has left in its cell. An empty array and \<open>null\<close> give a slice with no array behind it.
\<close>

type_synonym slice = "string list \<times> string list"

fun dec_cells :: "json list \<Rightarrow> string list \<Rightarrow> string list option" where
  "dec_cells [] cells = Some []"
| "dec_cells (v # vs) cells =
     Option.bind (dec_string v (case cells of [] \<Rightarrow> [] | x # xs \<Rightarrow> x))
       (\<lambda>x. map_option ((#) x) (dec_cells vs (tl cells)))"

fun dec_strings :: "slice decoder" where
  "dec_strings JNull x = Some ([], [])"
| "dec_strings (JArr vs) (xs, cells) =
     (if vs = [] then Some ([], [])
      else map_option (\<lambda>ys. (ys, ys @ drop (length ys) cells)) (dec_cells vs cells))"
| "dec_strings v x = None"

subsection \<open>Structs\<close>

text \<open>
  The folding of a member name, under which the package looks for a field when no field has exactly
  this name: letters to upper case, and the two runes outside ASCII that fold to a letter, U+017F
  and U+212A. (Other runes outside ASCII stay outside; the names of the fields are ASCII.)
\<close>

definition upper_byte :: "char \<Rightarrow> char" where
  "upper_byte c =
     (if 97 \<le> (of_char c :: nat) \<and> (of_char c :: nat) \<le> 122
      then char_of ((of_char c :: nat) - 32) else c)"

fun fold_name :: "string \<Rightarrow> string" where
  "fold_name (a # b # c # s) =
     (if a = CHR 0xE2 \<and> b = CHR 0x84 \<and> c = CHR 0xAA then CHR ''K'' # fold_name s
      else if a = CHR 0xC5 \<and> b = CHR 0xBF then CHR ''S'' # fold_name (c # s)
      else upper_byte a # fold_name (b # c # s))"
| "fold_name [a, b] =
     (if a = CHR 0xC5 \<and> b = CHR 0xBF then ''S'' else [upper_byte a, upper_byte b])"
| "fold_name [a] = [upper_byte a]"
| "fold_name [] = []"


text \<open>The fields of a struct, each with its name and its decoder.\<close>

type_synonym 's fields = "(string \<times> 's decoder) list"

definition find_field :: "'s fields \<Rightarrow> string \<Rightarrow> 's decoder option" where
  "find_field fs k = map_option snd (find (\<lambda>f. fold_name (fst f) = fold_name k) fs)"

text \<open>With \<open>DisallowUnknownFields\<close> (\<open>strict\<close>) a member that belongs to no field is an error.\<close>

fun dec_members :: "bool \<Rightarrow> 's fields \<Rightarrow> (string \<times> json) list \<Rightarrow> 's \<Rightarrow> 's option" where
  "dec_members strict fs [] s = Some s"
| "dec_members strict fs ((k, v) # kvs) s =
     (case find_field fs k of
        None \<Rightarrow> if strict then None else dec_members strict fs kvs s
      | Some d \<Rightarrow> Option.bind (d v s) (dec_members strict fs kvs))"

fun dec_struct :: "bool \<Rightarrow> 's fields \<Rightarrow> 's decoder" where
  "dec_struct strict fs JNull s = Some s"
| "dec_struct strict fs (JObj kvs) s = dec_members strict fs kvs s"
| "dec_struct strict fs v s = None"

definition field :: "(('a \<Rightarrow> 'a) \<Rightarrow> 's \<Rightarrow> 's) \<Rightarrow> ('s \<Rightarrow> 'a) \<Rightarrow> 'a decoder \<Rightarrow> 's decoder" where
  "field upd get d v s = map_option (\<lambda>x. upd (\<lambda>_. x) s) (d v (get s))"

text \<open>A variable may travel with the cells behind its slices; a field that is no slice leaves them alone.\<close>

definition on_fst :: "'a decoder \<Rightarrow> ('a \<times> 'b) decoder" where
  "on_fst d v s = map_option (\<lambda>x. (x, snd s)) (d v (fst s))"

declare field_def [decoder_defs] on_fst_def [decoder_defs]

text \<open>\<open>json.Unmarshal\<close> into a variable.\<close>

definition unmarshal :: "'s decoder \<Rightarrow> 's \<Rightarrow> string \<Rightarrow> 's option" where
  "unmarshal d s text = Option.bind (parse_json text) (\<lambda>v. d v s)"

subsection \<open>Reading a stream\<close>

text \<open>A stream: its bytes, and whether a reader then meets \<open>io.EOF\<close> or another error.\<close>

type_synonym stream = "string \<times> bool"

text \<open>\<open>io.LimitReader\<close>: the bytes up to the limit, then \<open>io.EOF\<close>.\<close>

definition limit_reader :: "int \<Rightarrow> stream \<Rightarrow> stream" where
  "limit_reader n b = (take (nat n) (fst b), snd b \<or> nat n \<le> length (fst b))"

text \<open>One value read by a \<open>Decoder\<close>. A value that is neither an object nor an array ends only with the
  byte after it or with \<open>io.EOF\<close>.\<close>

definition next_value :: "stream \<Rightarrow> (json \<times> stream) option" where
  "next_value b =
     (case feed [] BeginValue (fst b) of
        Scanned v rest delimited \<Rightarrow>
          if rest = [] \<and> \<not> snd b \<and> \<not> delimited then None else Some (v, (rest, snd b))
      | _ \<Rightarrow> None)"

subsection \<open>Integers and members that were written\<close>

lemma num_run_digits: "list_all is_digit ds \<Longrightarrow> num_run NInt ds = Some NInt"
  by (induction ds) (auto simp: num_step_def)

lemma show_nat_first: "0 < n \<Longrightarrow> hd (show_nat n) \<noteq> CHR ''0''"
proof (induction n rule: show_nat.induct)
  case (1 n)
  show ?case
  proof (cases "n < 10")
    case True
    have "(of_char (digit_char n) :: nat) = 48 + n" using True by (rule of_digit_char)
    with "1.prems" have "digit_char n \<noteq> CHR ''0''" by auto
    with True show ?thesis by (subst show_nat.simps) simp
  next
    case False
    with "1.IH" show ?thesis by (subst show_nat.simps) (simp add: hd_append)
  qed
qed

lemma num_literal_show_nat: "num_literal (show_nat n)" "num_literal (CHR ''-'' # show_nat n)"
proof -
  obtain c ds where s: "show_nat n = c # ds" using show_nat_not_Nil [of n] by (cases "show_nat n") auto
  have c: "is_digit c" "list_all is_digit ds" using show_nat_digits [of n] by (simp_all add: s)
  have zero: "ds = []" if "c = CHR ''0''"
  proof -
    have "n = 0" using show_nat_first [of n] that by (cases "n = 0") (auto simp: s)
    then show ?thesis using s by (subst (asm) show_nat.simps) simp
  qed
  have "num_start c = Some (if c = CHR ''0'' then NZero else NInt)"
    "num_step NNeg c = Some (if c = CHR ''0'' then NZero else NInt)"
    using c(1) by (auto simp: num_start_def num_step_def is_digit_def digit_val_def)
  then show "num_literal (show_nat n)" "num_literal (CHR ''-'' # show_nat n)"
    using num_run_digits [OF c(2)] zero by (auto simp: s num_literal_def num_complete_def num_start_def)
qed

lemma num_literal_show_int [simp]: "num_literal (show_int i)"
  by (simp add: show_int_def num_literal_show_nat)

lemma parse_show_int [simp]: "int64_range i \<Longrightarrow> parse_int64 (show_int i) = Some i"
proof -
  assume i: "int64_range i"
  have "hd (show_nat n) \<noteq> CHR ''-''" for n
    using show_nat_digits [of n] by (cases "show_nat n") (auto simp: is_digit_def digit_val_def)
  then show ?thesis using i show_nat_digits
    by (auto simp: parse_int64_def show_int_def Let_def)
qed

text \<open>A member under the exact name of a field belongs to it, as the names of the fields differ even when folded.\<close>

lemma find_field_exact:
  "distinct (map (\<lambda>f. fold_name (fst f)) fs) \<Longrightarrow> map_of fs k = Some d \<Longrightarrow> find_field fs k = Some d"
proof (induction fs)
  case (Cons f fs)
  show ?case
  proof (cases "fst f = k")
    case True
    with Cons.prems(2) show ?thesis by (cases f) (simp add: find_field_def)
  next
    case False
    with Cons.prems(2) have k: "map_of fs k = Some d" by (cases f) (auto split: if_splits)
    have "fold_name (fst (k, d)) \<in> (\<lambda>f. fold_name (fst f)) ` set fs" by (rule imageI [OF map_of_SomeD [OF k]])
    with Cons.prems(1) have "fold_name (fst f) \<noteq> fold_name k" by (metis distinct.simps(2) fst_conv list.simps(9) set_map)
    with Cons.IH Cons.prems(1) k show ?thesis by (simp add: find_field_def)
  qed
qed simp

text \<open>Decoding under exact names, one member after the other.\<close>

fun dec_exact :: "'s fields \<Rightarrow> (string \<times> json) list \<Rightarrow> 's \<Rightarrow> 's option" where
  "dec_exact fs [] s = Some s"
| "dec_exact fs ((k, v) # kvs) s =
     (case map_of fs k of None \<Rightarrow> None | Some d \<Rightarrow> Option.bind (d v s) (dec_exact fs kvs))"

lemma dec_members_exact:
  "distinct (map (\<lambda>f. fold_name (fst f)) fs) \<Longrightarrow> dec_exact fs kvs s = Some t \<Longrightarrow> dec_members strict fs kvs s = Some t"
  by (induction fs kvs s rule: dec_exact.induct)
    (auto simp: find_field_exact bind_eq_Some_conv split: option.splits)

lemma dec_exact_append:
  "dec_exact fs (xs @ ys) s = Option.bind (dec_exact fs xs s) (dec_exact fs ys)"
  by (induction fs xs s rule: dec_exact.induct) (auto split: option.split cong: Option.bind_cong)

text \<open>All fields in their order, and members that belong to no field.\<close>

fun dec_row :: "'s decoder list \<Rightarrow> json list \<Rightarrow> 's \<Rightarrow> 's option" where
  "dec_row (d # ds) (v # vs) s = Option.bind (d v s) (dec_row ds vs)"
| "dec_row ds vs s = Some s"

lemma dec_exact_row:
  assumes "distinct (map fst fs)" and "map fst kvs = map fst fs"
  shows "dec_exact fs kvs s = dec_row (map snd fs) (map snd kvs) s"
proof -
  have "dec_exact (gs @ fs) kvs s = dec_row (map snd fs) (map snd kvs) s"
    if "distinct (map fst (gs @ fs))" "map fst kvs = map fst fs" for gs fs and kvs :: "(string \<times> json) list" and s
    using that
  proof (induction fs arbitrary: gs kvs s)
    case (Cons f fs)
    obtain v ws where kvs: "kvs = (fst f, v) # ws" "map fst ws = map fst fs"
      using Cons.prems(2) by (cases kvs) auto
    have "map_of gs (fst f) = None" using Cons.prems(1) by (auto simp: map_of_eq_None_iff)
    moreover have "dec_exact (gs @ f # fs) ws t = dec_row (map snd fs) (map snd ws) t" for t
      using Cons.IH [of "gs @ [f]" ws t] Cons.prems(1) kvs(2) by simp
    moreover obtain k d where f: "f = (k, d)" by fastforce
    ultimately have "dec_exact (gs @ f # fs) kvs s = Option.bind (d v s) (dec_exact (gs @ f # fs) ws)"
      and "dec_exact (gs @ f # fs) ws = dec_row (map snd fs) (map snd ws)"
      by (simp_all add: kvs(1) map_add_def fun_eq_iff)
    then show ?case by (simp add: kvs(1) f)
  qed simp
  from this [of "[]"] assms show ?thesis by simp
qed

lemma dec_members_known:
  "distinct (map (\<lambda>f. fold_name (fst f)) fs) \<Longrightarrow> fst ` set kvs \<subseteq> fst ` set fs \<Longrightarrow>
     dec_members strict fs kvs s = dec_exact fs kvs s"
proof (induction fs kvs s rule: dec_exact.induct)
  case (2 fs k v kvs s)
  then obtain d where d: "map_of fs k = Some d" by (cases "map_of fs k") (auto simp: map_of_eq_None_iff)
  with "2.IH" [OF d] "2.prems" show ?case
    by (simp add: find_field_exact cong: Option.bind_cong)
qed simp

lemma dec_members_append:
  "dec_members strict fs (xs @ ys) s = Option.bind (dec_members strict fs xs s) (dec_members strict fs ys)"
  by (induction strict fs xs s rule: dec_members.induct) (auto split: option.split cong: Option.bind_cong)

lemma dec_members_unknown:
  assumes "list_all (\<lambda>kv. fold_name (fst kv) \<notin> set (map (\<lambda>f. fold_name (fst f)) fs)) kvs"
  shows "dec_members True fs kvs s = (if kvs = [] then Some s else None)"
proof (cases kvs)
  case (Cons kv kvs')
  have "find_field fs (fst kv) = None"
    using assms by (force simp: Cons find_field_def find_None_iff)
  then show ?thesis by (cases kv) (simp add: Cons)
qed simp

lemma unmarshal_struct:
  assumes "printable max_nesting (JObj kvs)" and "distinct (map (\<lambda>f. fold_name (fst f)) fs)"
    and "dec_exact fs kvs s = Some t"
  shows "unmarshal (dec_struct strict fs) s (print_json (JObj kvs)) = Some t"
  using assms by (simp only: unmarshal_def parse_print_json bind.simps dec_struct.simps dec_members_exact)

end
