(* ===== verification/Config.thy ===== *)
theory Config
  imports NetAddr JsonData "HOL-Library.AList"
begin

unbundle bit_operations_syntax

text \<open>
  \<open>services/gateway/internal/config/config.go\<close>: the site registry, hostname policy, the
  validation of sites and the loading of the runtime configuration.
\<close>

subsection \<open>Sites and their registry\<close>

record thresholds =
  th_pow :: int
  th_interactive :: int
  th_block :: int

record site =
  site_key :: string
  site_secret :: string
  hostnames :: "string list"
  token_ttl_seconds :: int
  challenge_ttl_seconds :: int
  rate_limit_per_minute :: int
  bind_ip_prefix :: bool
  site_thresholds :: thresholds

text \<open>The registry's map; the lock around it is held for one lookup and protects nothing else.\<close>

type_synonym registry = "string \<rightharpoonup> site"

definition new_registry :: "site list \<Rightarrow> registry" where
  "new_registry ss = fold (\<lambda>s m. m(site_key s \<mapsto> s)) ss Map.empty"

definition registry_get :: "registry \<Rightarrow> string \<Rightarrow> site option" where
  "registry_get r key = r key"

definition constant_time_string_equal :: "string \<Rightarrow> string \<Rightarrow> bool" where
  "constant_time_string_equal a b \<longleftrightarrow>
     length a = length b \<and>
     fold (\<lambda>(p, q) x. x OR (p XOR q)) (zip (bytes_of a) (bytes_of b)) 0 = 0"

text \<open>
  Go iterates over a map in an order of its own choice: \<open>order\<close> lists the keys as this call
  visits them.
\<close>

definition registry_get_by_secret :: "string list \<Rightarrow> registry \<Rightarrow> string \<Rightarrow> site option" where
  "registry_get_by_secret order r secret =
     (case find (\<lambda>k. case r k of None \<Rightarrow> False
                      | Some s \<Rightarrow> constant_time_string_equal (site_secret s) secret) order of
        None \<Rightarrow> None
      | Some k \<Rightarrow> r k)"

definition iteration_order :: "string list \<Rightarrow> registry \<Rightarrow> bool" where
  "iteration_order order r \<longleftrightarrow> distinct order \<and> set order = dom r"

subsection \<open>Hostnames\<close>

definition normalize_hostname :: "unicode \<Rightarrow> string \<Rightarrow> string" where
  "normalize_hostname uc host0 =
     (let host = to_lower uc (trim_space host0) in
      if host = [] then []
      else let host' = (case split_host_port host of Some (h, _) \<Rightarrow> h | None \<Rightarrow> host)
           in trim_suffix ''.'' (trim_set ''[]'' host'))"

definition hostname_pattern_matches :: "unicode \<Rightarrow> string \<Rightarrow> string \<Rightarrow> bool" where
  "hostname_pattern_matches uc host allowed =
     (let a = to_lower uc (trim_space allowed) in
      if prefix ''*.'' a
      then (let sfx = ''.'' @ normalize_hostname uc (trim_prefix ''*.'' a)
            in suffix sfx host \<and> host \<noteq> trim_prefix ''.'' sfx)
      else normalize_hostname uc a = host)"

definition allows_hostname :: "unicode \<Rightarrow> site \<Rightarrow> string \<Rightarrow> bool" where
  "allows_hostname uc s host =
     list_ex (hostname_pattern_matches uc (normalize_hostname uc host)) (hostnames s)"

subsection \<open>Validation of sites\<close>

datatype site_error =
    InvalidSiteKey | SecretTooShort | DevelopmentSecret | NoHostname | BadThresholds
  | BadTokenTTL | BadChallengeTTL | DuplicateKey | DuplicateSecret

definition dev_site_secret :: string where
  "dev_site_secret = ''bs_dev_secret_change_me''"

definition thresholds_ok :: "thresholds \<Rightarrow> bool" where
  "thresholds_ok t \<longleftrightarrow>
     0 < th_pow t \<and> th_pow t < th_interactive t \<and> th_interactive t < th_block t \<and> th_block t \<le> 100"

definition check_site :: "unicode \<Rightarrow> bool \<Rightarrow> site \<Rightarrow> site_error option" where
  "check_site uc production s =
     (if trim_space (site_key s) = [] \<or> length (site_key s) > 128 then Some InvalidSiteKey
      else if length (site_secret s) < 16 then Some SecretTooShort
      else if production \<and> (site_secret s = dev_site_secret
                              \<or> sublist ''change_me'' (to_lower uc (site_secret s)))
      then Some DevelopmentSecret
      else if hostnames s = [] then Some NoHostname
      else if \<not> thresholds_ok (site_thresholds s) then Some BadThresholds
      else if token_ttl_seconds s < 30 \<or> token_ttl_seconds s > 600 then Some BadTokenTTL
      else if challenge_ttl_seconds s < 30 \<or> challenge_ttl_seconds s > 900 then Some BadChallengeTTL
      else None)"

text \<open>The loop of \<open>validateSites\<close>: \<open>i\<close> counts the sites, \<open>ks\<close> and \<open>xs\<close> are the keys and
  secrets seen so far.\<close>

fun validate_from ::
  "unicode \<Rightarrow> bool \<Rightarrow> nat \<Rightarrow> string list \<Rightarrow> string list \<Rightarrow> site list \<Rightarrow> (nat \<times> site_error) + unit"
where
  "validate_from uc production i ks xs [] = Inr ()"
| "validate_from uc production i ks xs (s # ss) =
     (case check_site uc production s of
        Some e \<Rightarrow> Inl (i, e)
      | None \<Rightarrow>
          if site_key s \<in> set ks then Inl (i, DuplicateKey)
          else if site_secret s \<in> set xs then Inl (i, DuplicateSecret)
          else validate_from uc production (i + 1) (site_key s # ks) (site_secret s # xs) ss)"

definition validate_sites :: "unicode \<Rightarrow> site list \<Rightarrow> bool \<Rightarrow> (nat \<times> site_error) + unit" where
  "validate_sites uc sites production = validate_from uc production 0 [] [] sites"

definition or_default :: "int \<Rightarrow> int \<Rightarrow> int" where
  "or_default d x = (if x \<le> 0 then d else x)"

definition apply_site_defaults :: "site \<Rightarrow> site" where
  "apply_site_defaults s =
     s\<lparr>token_ttl_seconds := or_default 120 (token_ttl_seconds s),
       challenge_ttl_seconds := or_default 180 (challenge_ttl_seconds s),
       rate_limit_per_minute := or_default 60 (rate_limit_per_minute s),
       site_thresholds :=
         \<lparr>th_pow = or_default 30 (th_pow (site_thresholds s)),
          th_interactive = or_default 62 (th_interactive (site_thresholds s)),
          th_block = or_default 92 (th_block (site_thresholds s))\<rparr>\<rparr>"

subsection \<open>Sites and keys as JSON\<close>

text \<open>A site travels with the cells behind its slice of host names (see \<open>dec_strings\<close>).\<close>

definition thresholds_fields :: "thresholds fields" where
  "thresholds_fields =
     [(''pow'', field th_pow_update th_pow dec_int),
      (''interactive'', field th_interactive_update th_interactive dec_int),
      (''block'', field th_block_update th_block dec_int)]"

definition dec_hostnames :: "(site \<times> string list) decoder" where
  "dec_hostnames v s =
     map_option (\<lambda>x. ((fst s)\<lparr>hostnames := fst x\<rparr>, snd x)) (dec_strings v (hostnames (fst s), snd s))"

definition site_fields :: "(site \<times> string list) fields" where
  "site_fields =
     [(''site_key'', on_fst (field site_key_update site_key dec_string)),
      (''secret'', on_fst (field site_secret_update site_secret dec_string)),
      (''hostnames'', dec_hostnames),
      (''token_ttl_seconds'', on_fst (field token_ttl_seconds_update token_ttl_seconds dec_int)),
      (''challenge_ttl_seconds'', on_fst (field challenge_ttl_seconds_update challenge_ttl_seconds dec_int)),
      (''rate_limit_per_minute'', on_fst (field rate_limit_per_minute_update rate_limit_per_minute dec_int)),
      (''bind_ip_prefix'', on_fst (field bind_ip_prefix_update bind_ip_prefix dec_bool)),
      (''thresholds'', on_fst (field site_thresholds_update site_thresholds (dec_struct False thresholds_fields)))]"

definition zero_site :: site where
  "zero_site =
     \<lparr>site_key = [], site_secret = [], hostnames = [], token_ttl_seconds = 0, challenge_ttl_seconds = 0,
      rate_limit_per_minute = 0, bind_ip_prefix = False,
      site_thresholds = \<lparr>th_pow = 0, th_interactive = 0, th_block = 0\<rparr>\<rparr>"

text \<open>The elements of a \<open>[]Site\<close> that was nil: each one starts from the zero value.\<close>

fun dec_sites :: "json \<Rightarrow> site list option" where
  "dec_sites JNull = Some []"
| "dec_sites (JArr vs) = those (map (\<lambda>v. map_option fst (dec_struct False site_fields v (zero_site, []))) vs)"
| "dec_sites v = None"

definition decode_sites :: "string \<Rightarrow> site list option" where
  "decode_sites text = Option.bind (parse_json text) dec_sites"

text \<open>A \<open>map[string]string\<close> as the list of its entries: a later member replaces an earlier one with its key,
  and a \<open>null\<close> stores the empty string.\<close>

fun dec_entries :: "(string \<times> json) list \<Rightarrow> (string \<times> string) list \<Rightarrow> (string \<times> string) list option" where
  "dec_entries [] m = Some m"
| "dec_entries ((k, v) # kvs) m = Option.bind (dec_string v []) (\<lambda>x. dec_entries kvs (AList.update k x m))"

fun dec_keys :: "json \<Rightarrow> (string \<times> string) list option" where
  "dec_keys JNull = Some []"
| "dec_keys (JObj kvs) = dec_entries kvs []"
| "dec_keys v = None"

definition decode_keys :: "string \<Rightarrow> (string \<times> string) list option" where
  "decode_keys text = Option.bind (parse_json text) dec_keys"

subsection \<open>The environment and the runtime configuration\<close>

text \<open>
  What \<open>Load\<close> reads: the environment variables (the empty string when unset) and files. A loop over a map
  visits its keys in an order of Go's choice: here by their rank.
\<close>

record os =
  getenv_raw :: "string \<Rightarrow> string"
  read_file :: "string \<Rightarrow> string option"
  key_rank :: "string \<Rightarrow> nat"

datatype config_error =
    SigningSecretRequired | SigningSecretShort
  | SitesFileRead | SitesFileDecode | SitesFileEmpty | SiteInvalid nat site_error
  | TrustedCidr | PreviousKeysDecode | PreviousKeyInvalid string | PreviousKeyShort string
  | BindingSecretShort

record runtime =
  rt_addr :: string
  rt_environment :: string
  rt_signing_secret :: string
  rt_signing_key_id :: string
  rt_previous_keys :: "string \<rightharpoonup> string"
  rt_binding_secret :: string
  rt_sites :: registry
  rt_reputation_url :: string
  rt_risk_engine_url :: string
  rt_trusted_proxies :: "ip_net list"
  rt_max_body_bytes :: int

definition getenv :: "os \<Rightarrow> string \<Rightarrow> string \<Rightarrow> string" where
  "getenv e k d = (if getenv_raw e k \<noteq> [] then getenv_raw e k else d)"

text \<open>\<open>strconv.Atoi\<close>: an optional sign and decimal digits, within 64 bits.\<close>

definition atoi :: "string \<Rightarrow> int option" where
  "atoi s =
     (let neg = prefix ''-'' s; ds = (if prefix ''-'' s \<or> prefix ''+'' s then drop 1 s else s);
          n = (if neg then - int (read_nat ds) else int (read_nat ds))
      in if ds \<noteq> [] \<and> list_all is_digit ds \<and> int64_range n then Some n else None)"

definition getenv_int :: "os \<Rightarrow> string \<Rightarrow> int \<Rightarrow> int" where
  "getenv_int e k d =
     (if getenv_raw e k \<noteq> []
      then (case atoi (getenv_raw e k) of Some n \<Rightarrow> n | None \<Rightarrow> d) else d)"

definition getenv_bool :: "unicode \<Rightarrow> os \<Rightarrow> string \<Rightarrow> bool \<Rightarrow> bool" where
  "getenv_bool uc e k d =
     (let v = trim_space (to_lower uc (getenv_raw e k))
      in if v \<noteq> [] then v = ''1'' \<or> v = ''true'' \<or> v = ''yes'' \<or> v = ''on'' else d)"

definition split_csv :: "string \<Rightarrow> string list" where
  "split_csv v = filter (\<lambda>p. p \<noteq> []) (map trim_space (split_on CHR '','' v))"

fun parse_cidr_list :: "string list \<Rightarrow> ip_net list option" where
  "parse_cidr_list [] = Some []"
| "parse_cidr_list (raw # rest) =
     (case parse_cidr raw of
        None \<Rightarrow> None
      | Some n \<Rightarrow> map_option (\<lambda>ns. n # ns) (parse_cidr_list rest))"

definition parse_cidrs :: "string \<Rightarrow> ip_net list option" where
  "parse_cidrs v = parse_cidr_list (split_csv v)"

fun check_previous_keys :: "string \<Rightarrow> (string \<times> string) list \<Rightarrow> config_error option" where
  "check_previous_keys active [] = None"
| "check_previous_keys active ((kid, secret) # rest) =
     (if trim_space kid = [] \<or> kid = active then Some (PreviousKeyInvalid kid)
      else if length secret < 32 then Some (PreviousKeyShort kid)
      else check_previous_keys active rest)"

definition parse_previous_signing_keys ::
  "os \<Rightarrow> string \<Rightarrow> string \<Rightarrow> config_error + (string \<rightharpoonup> string)" where
  "parse_previous_signing_keys e raw active =
     (if trim_space raw = [] then Inr Map.empty
      else case decode_keys raw of
             None \<Rightarrow> Inl PreviousKeysDecode
           | Some kvs \<Rightarrow>
               (case check_previous_keys active (sort_key (\<lambda>kv. key_rank e (fst kv)) kvs) of
                  Some err \<Rightarrow> Inl err
                | None \<Rightarrow> Inr (map_of kvs)))"

definition ip_binding_secret :: "runtime \<Rightarrow> string" where
  "ip_binding_secret r =
     (if rt_binding_secret r \<noteq> [] then rt_binding_secret r else rt_signing_secret r)"

definition env_is_production :: "os \<Rightarrow> bool" where
  "env_is_production e =
     ascii_equal_fold (trim_space (getenv_raw e ''BERRYSHIELD_ENV'')) ''production''"

definition single_site :: "unicode \<Rightarrow> os \<Rightarrow> site" where
  "single_site uc e =
     \<lparr>site_key = getenv e ''BERRYSHIELD_SITE_KEY'' ''bs_dev_public'',
      site_secret = getenv e ''BERRYSHIELD_SITE_SECRET'' dev_site_secret,
      hostnames = split_csv (getenv e ''BERRYSHIELD_ALLOWED_HOSTS'' ''localhost,127.0.0.1''),
      token_ttl_seconds = 0, challenge_ttl_seconds = 0, rate_limit_per_minute = 0,
      bind_ip_prefix = getenv_bool uc e ''BERRYSHIELD_BIND_IP_PREFIX'' True,
      site_thresholds = \<lparr>th_pow = 0, th_interactive = 0, th_block = 0\<rparr>\<rparr>"

definition validated :: "unicode \<Rightarrow> bool \<Rightarrow> site list \<Rightarrow> config_error + site list" where
  "validated uc production ss =
     (case validate_sites uc ss production of
        Inl (i, err) \<Rightarrow> Inl (SiteInvalid i err)
      | Inr _ \<Rightarrow> Inr ss)"

definition load_sites :: "unicode \<Rightarrow> os \<Rightarrow> config_error + site list" where
  "load_sites uc e =
     (let path = getenv_raw e ''BERRYSHIELD_SITES_FILE'' in
      if path \<noteq> []
      then (case read_file e path of
              None \<Rightarrow> Inl SitesFileRead
            | Some b \<Rightarrow>
                (case decode_sites b of
                   None \<Rightarrow> Inl SitesFileDecode
                 | Some ss \<Rightarrow>
                     if ss = [] then Inl SitesFileEmpty
                     else validated uc (env_is_production e) (map apply_site_defaults ss)))
      else validated uc (env_is_production e) [apply_site_defaults (single_site uc e)])"

definition dev_signing_secret :: string where
  "dev_signing_secret = ''development-only-change-me-32-bytes-minimum''"

definition load :: "unicode \<Rightarrow> os \<Rightarrow> config_error + runtime" where
  "load uc e =
     (let env = getenv e ''BERRYSHIELD_ENV'' ''development'';
          given = getenv_raw e ''BERRYSHIELD_SIGNING_SECRET''
      in bind_err (reject_if (given = [] \<and> env = ''production'') SigningSecretRequired) (\<lambda>_.
         let signing = (if given = [] then dev_signing_secret else given)
         in bind_err (reject_if (length signing < 32) SigningSecretShort) (\<lambda>_.
         bind_err (load_sites uc e) (\<lambda>sites.
         bind_err (case parse_cidrs (getenv_raw e ''BERRYSHIELD_TRUSTED_PROXY_CIDRS'') of
                     None \<Rightarrow> Inl TrustedCidr | Some ns \<Rightarrow> Inr ns) (\<lambda>trusted.
         let key_id = getenv e ''BERRYSHIELD_SIGNING_KID'' ''dev-v1''
         in bind_err (parse_previous_signing_keys e
                        (getenv_raw e ''BERRYSHIELD_PREVIOUS_SIGNING_KEYS_JSON'') key_id) (\<lambda>previous.
         let binding = (if getenv_raw e ''BERRYSHIELD_BINDING_SECRET'' = [] then signing
                        else getenv_raw e ''BERRYSHIELD_BINDING_SECRET'')
         in bind_err (reject_if (length binding < 32) BindingSecretShort) (\<lambda>_.
         Inr \<lparr>rt_addr = getenv e ''BERRYSHIELD_ADDR'' '':8080'',
              rt_environment = env,
              rt_signing_secret = signing,
              rt_signing_key_id = key_id,
              rt_previous_keys = previous,
              rt_binding_secret = binding,
              rt_sites = new_registry sites,
              rt_reputation_url = trim_right_set ''/'' (getenv_raw e ''BERRYSHIELD_REPUTATION_URL''),
              rt_risk_engine_url = trim_right_set ''/'' (getenv_raw e ''BERRYSHIELD_RISK_ENGINE_URL''),
              rt_trusted_proxies = trusted,
              rt_max_body_bytes = getenv_int e ''BERRYSHIELD_MAX_BODY_BYTES'' 65536\<rparr>)))))))"

subsection \<open>The registry\<close>

lemma or_xor_zero: "x OR (p XOR q) = (0 :: byte) \<longleftrightarrow> x = 0 \<and> p = q"
  by (auto simp: bit_eq_iff bit_simps)

lemma fold_or_zero:
  "fold (\<lambda>(p, q) x. x OR (p XOR q)) ps acc = (0 :: byte) \<longleftrightarrow> acc = 0 \<and> (\<forall>(p, q) \<in> set ps. p = q)"
  by (induction ps arbitrary: acc) (auto simp: or_xor_zero)

lemma constant_time_string_equal_iff: "constant_time_string_equal a b \<longleftrightarrow> a = b"
proof -
  have "(\<forall>(p, q) \<in> set (zip (bytes_of a) (bytes_of b)). p = q) \<longleftrightarrow> bytes_of a = bytes_of b"
    if "length a = length b"
    using that by (auto simp: list_eq_iff_zip_eq)
  then show ?thesis
    by (auto simp: constant_time_string_equal_def fold_or_zero)
qed

lemma fold_registry_get:
  "fold (\<lambda>s m. m(site_key s \<mapsto> s)) ss m k = Some s \<Longrightarrow>
     s \<in> set ss \<and> site_key s = k \<or> m k = Some s"
  by (induction ss arbitrary: m) (fastforce split: if_splits)+

lemma new_registry_SomeD: "new_registry ss k = Some s \<Longrightarrow> s \<in> set ss \<and> site_key s = k"
  using fold_registry_get [of ss Map.empty k s] by (simp add: new_registry_def)

lemma fold_registry_other:
  "k \<notin> site_key ` set ss \<Longrightarrow> fold (\<lambda>s m. m(site_key s \<mapsto> s)) ss m k = m k"
  by (induction ss arbitrary: m) auto

lemma new_registry_mem:
  assumes "distinct (map site_key ss)" and "s \<in> set ss"
  shows "new_registry ss (site_key s) = Some s"
proof -
  from assms(2) obtain us vs where ss: "ss = us @ s # vs" by (auto dest: split_list)
  with assms(1) have "site_key s \<notin> site_key ` set vs" by auto
  then show ?thesis by (simp add: new_registry_def ss fold_registry_other)
qed

lemma new_registry_iff:
  "distinct (map site_key ss) \<Longrightarrow>
     new_registry ss k = Some s \<longleftrightarrow> s \<in> set ss \<and> site_key s = k"
  by (auto dest: new_registry_SomeD new_registry_mem)

definition secrets_unique :: "registry \<Rightarrow> bool" where
  "secrets_unique r \<longleftrightarrow>
     (\<forall>k1 k2 s1 s2. r k1 = Some s1 \<longrightarrow> r k2 = Some s2 \<longrightarrow> site_secret s1 = site_secret s2 \<longrightarrow> k1 = k2)"

lemma registry_get_by_secret_SomeD:
  assumes "registry_get_by_secret order r secret = Some s"
  shows "\<exists>k \<in> set order. r k = Some s \<and> site_secret s = secret"
  using assms
  by (force simp: registry_get_by_secret_def find_Some_iff constant_time_string_equal_iff
      split: option.splits)

lemma registry_get_by_secret_iff:
  assumes "iteration_order order r" and "secrets_unique r"
  shows "registry_get_by_secret order r secret = Some s \<longleftrightarrow>
           (\<exists>k. r k = Some s \<and> site_secret s = secret)"
proof
  assume "registry_get_by_secret order r secret = Some s"
  then show "\<exists>k. r k = Some s \<and> site_secret s = secret"
    by (blast dest: registry_get_by_secret_SomeD)
next
  assume "\<exists>k. r k = Some s \<and> site_secret s = secret"
  then obtain k where k: "r k = Some s" "site_secret s = secret" by blast
  let ?P = "\<lambda>k. case r k of None \<Rightarrow> False
                  | Some s \<Rightarrow> constant_time_string_equal (site_secret s) secret"
  have "k \<in> set order" using assms(1) k(1) by (auto simp: iteration_order_def)
  moreover have "?P k" using k by (simp add: constant_time_string_equal_iff)
  ultimately obtain k' where k': "find ?P order = Some k'"
    using find_iff_bex [of ?P order] by blast
  then have "?P k'" by (auto simp: find_Some_iff)
  then obtain s' where s': "r k' = Some s'" "site_secret s' = secret"
    by (auto simp: constant_time_string_equal_iff split: option.splits)
  with k assms(2) have "k' = k" unfolding secrets_unique_def by blast
  with k' k(1) show "registry_get_by_secret order r secret = Some s"
    by (simp add: registry_get_by_secret_def)
qed

subsection \<open>What validation establishes\<close>

definition site_ok :: "unicode \<Rightarrow> bool \<Rightarrow> site \<Rightarrow> bool" where
  "site_ok uc production s \<longleftrightarrow>
     trim_space (site_key s) \<noteq> [] \<and> length (site_key s) \<le> 128 \<and> 16 \<le> length (site_secret s)
     \<and> (production \<longrightarrow> \<not> sublist ''change_me'' (to_lower uc (site_secret s)))
     \<and> hostnames s \<noteq> [] \<and> thresholds_ok (site_thresholds s)
     \<and> 30 \<le> token_ttl_seconds s \<and> token_ttl_seconds s \<le> 600
     \<and> 30 \<le> challenge_ttl_seconds s \<and> challenge_ttl_seconds s \<le> 900"

lemma dev_secret_has_change_me: "sublist ''change_me'' (to_lower uc dev_site_secret)"
  by (simp add: dev_site_secret_def to_lower_def is_ascii_def ascii_lower_def sublist_code)

lemma check_site_None: "check_site uc production s = None \<longleftrightarrow> site_ok uc production s"
  using dev_secret_has_change_me [of uc]
  by (auto simp: check_site_def site_ok_def not_le not_less split: if_splits)

lemma validate_from_Inr:
  "validate_from uc production i ks xs ss = Inr () \<longleftrightarrow>
     (\<forall>s \<in> set ss. site_ok uc production s)
     \<and> distinct (map site_key ss) \<and> set (map site_key ss) \<inter> set ks = {}
     \<and> distinct (map site_secret ss) \<and> set (map site_secret ss) \<inter> set xs = {}"
proof (induction ss arbitrary: i ks xs)
  case Nil
  then show ?case by simp
next
  case (Cons s ss)
  show ?case
  proof (cases "check_site uc production s")
    case None
    then have "site_ok uc production s" by (simp add: check_site_None)
    with None show ?thesis by (auto simp: Cons.IH)
  next
    case (Some e)
    then have "\<not> site_ok uc production s" by (simp flip: check_site_None)
    with Some show ?thesis by simp
  qed
qed

lemma validate_sites_Inr:
  "validate_sites uc ss production = Inr () \<longleftrightarrow>
     (\<forall>s \<in> set ss. site_ok uc production s)
     \<and> distinct (map site_key ss) \<and> distinct (map site_secret ss)"
  by (simp add: validate_sites_def validate_from_Inr)

lemma validated_registry_unique:
  assumes "validate_sites uc ss production = Inr ()"
  shows "secrets_unique (new_registry ss)"
proof -
  from assms have "distinct (map site_key ss)" "distinct (map site_secret ss)"
    by (simp_all add: validate_sites_Inr)
  then show ?thesis
    unfolding secrets_unique_def
    by (auto simp: new_registry_iff distinct_map inj_on_def)
qed

subsection \<open>Hostname policy\<close>

text \<open>Plain hosts are in normal form already: lower-case graphic ASCII, no port, no bracket, no
  trailing dot.\<close>

definition low_graphic :: "char \<Rightarrow> bool" where
  "low_graphic c \<longleftrightarrow> graphic c \<and> ascii_lower c = c"

definition plain_char :: "char \<Rightarrow> bool" where
  "plain_char c \<longleftrightarrow>
     low_graphic c \<and> c \<noteq> CHR '':'' \<and> c \<noteq> CHR ''['' \<and> c \<noteq> CHR '']'' \<and> c \<noteq> CHR ''*''"

definition plain_host :: "string \<Rightarrow> bool" where
  "plain_host d \<longleftrightarrow> d \<noteq> [] \<and> list_all plain_char d \<and> last d \<noteq> CHR ''.''"

lemma low_graphic_literals [simp]:
  "low_graphic CHR '':''" "low_graphic CHR ''.''" "low_graphic CHR ''*''"
  by (simp_all add: low_graphic_def graphic_def ascii_lower_def)

lemma plain_char_dot [simp]: "plain_char CHR ''.''"
  by (simp add: plain_char_def)

lemma low_graphic_digit: "is_digit c \<Longrightarrow> plain_char c"
  by (auto simp: plain_char_def low_graphic_def graphic_def ascii_lower_def is_digit_def
      digit_val_def split: if_splits)

lemma low_graphic_lower: "list_all low_graphic s \<Longrightarrow> to_lower uc s = s"
  by (auto simp: to_lower_def list_all_iff low_graphic_def graphic_def is_ascii_def intro: map_idI)

lemma low_graphic_trim: "list_all low_graphic s \<Longrightarrow> trim_space s = s"
  by (rule trim_space_all_graphic) (auto simp: list_all_iff low_graphic_def)

lemma plain_low: "list_all plain_char s \<Longrightarrow> list_all low_graphic s"
  by (auto simp: list_all_iff plain_char_def)

lemma plain_free:
  "list_all plain_char s \<Longrightarrow>
     CHR '':'' \<notin> set s \<and> CHR ''['' \<notin> set s \<and> CHR '']'' \<notin> set s \<and> CHR ''*'' \<notin> set s"
  unfolding list_all_iff plain_char_def by blast

lemma split_host_port_no_colon: "CHR '':'' \<notin> set s \<Longrightarrow> split_host_port s = None"
  by (simp add: split_host_port_def flip: last_index_byte_None)

lemma trim_set_free: "set s \<inter> set cs = {} \<Longrightarrow> trim_set cs s = s"
proof -
  assume "set s \<inter> set cs = {}"
  then have "dropWhile (\<lambda>c. c \<in> set cs) s = s" "dropWhile (\<lambda>c. c \<in> set cs) (rev s) = rev s"
    by (auto intro!: dropWhile_none)
  then show ?thesis by (simp add: trim_set_def)
qed

lemma trim_suffix_last: "s = [] \<or> last s \<noteq> c \<Longrightarrow> trim_suffix [c] s = s"
  by (auto simp: trim_suffix_def suffix_def)

lemma plain_trim_brackets: "list_all plain_char s \<Longrightarrow> trim_set ''[]'' s = s"
  by (rule trim_set_free) (simp add: plain_free)

lemma plain_hostD: "plain_host d \<Longrightarrow> d \<noteq> [] \<and> list_all plain_char d \<and> trim_suffix ''.'' d = d"
  by (simp add: plain_host_def trim_suffix_last)

lemma normalize_low_graphic:
  "list_all low_graphic h \<Longrightarrow> h \<noteq> [] \<Longrightarrow>
     normalize_hostname uc h =
       trim_suffix ''.'' (trim_set ''[]'' (case split_host_port h of Some (x, _) \<Rightarrow> x | None \<Rightarrow> h))"
  by (simp add: normalize_hostname_def low_graphic_lower low_graphic_trim)

lemma normalize_plain_chars:
  "list_all plain_char h \<Longrightarrow> h \<noteq> [] \<Longrightarrow> normalize_hostname uc h = trim_suffix ''.'' h"
  by (simp add: normalize_low_graphic plain_low split_host_port_no_colon plain_free plain_trim_brackets)

lemma normalize_plain: "plain_host d \<Longrightarrow> normalize_hostname uc d = d"
  by (simp add: plain_hostD normalize_plain_chars)

lemma normalize_trailing_dot: "plain_host d \<Longrightarrow> normalize_hostname uc (d @ ''.'') = d"
  by (simp add: plain_hostD normalize_plain_chars)

lemma index_byte_append: "c \<notin> set s \<Longrightarrow> index_byte c (s @ c # t) = Some (length s)"
  by (induction s) auto

lemma last_index_byte_append: "c \<notin> set t \<Longrightarrow> last_index_byte c (s @ c # t) = Some (length s)"
  using index_byte_append [of c "rev t" "rev s"] by (simp add: last_index_byte_def)

lemma split_host_port_plain:
  assumes "list_all plain_char h" and "h \<noteq> []" and "list_all plain_char p"
  shows "split_host_port (h @ CHR '':'' # p) = Some (h, p)"
proof -
  note free = plain_free [OF assms(1)] plain_free [OF assms(3)]
  have "hd h \<in> set h" using assms(2) by (rule hd_in_set)
  with free have "hd h \<noteq> CHR ''[''" by metis
  with assms(2) have "hd (h @ CHR '':'' # p) \<noteq> CHR ''[''" by simp
  with free show ?thesis
    by (simp add: split_host_port_def last_index_byte_append)
qed

lemma normalize_with_port:
  assumes "plain_host d" and "list_all is_digit p"
  shows "normalize_hostname uc (d @ CHR '':'' # p) = d"
proof -
  have p: "list_all plain_char p"
    using assms(2) unfolding list_all_iff by (blast intro: low_graphic_digit)
  note d = plain_hostD [OF assms(1)]
  have "list_all low_graphic (d @ CHR '':'' # p)"
    using d p by (simp add: plain_low)
  then show ?thesis
    using d p by (simp add: normalize_low_graphic split_host_port_plain plain_trim_brackets)
qed

text \<open>
  The ways to write a plain host \<open>d\<close> in a configuration: letters in any case, with blanks around it, and with
  a final dot or a port; as a wildcard, with \<open>*.\<close> in front.
\<close>

definition host_tail :: "string \<Rightarrow> bool" where
  "host_tail t \<longleftrightarrow> t = [] \<or> t = ''.'' \<or> (\<exists>q. list_all is_digit q \<and> t = CHR '':'' # q)"

definition written :: "string \<Rightarrow> string \<Rightarrow> string \<Rightarrow> bool" where
  "written front d p \<longleftrightarrow> plain_host d \<and> (\<exists>l x t r. p = l @ front @ x @ t @ r
     \<and> list_all is_blank l \<and> list_all is_blank r \<and> map ascii_lower x = d \<and> host_tail t)"

definition names_host :: "string \<Rightarrow> string \<Rightarrow> bool" where
  "names_host d p \<longleftrightarrow> written [] d p"

definition names_below :: "string \<Rightarrow> string \<Rightarrow> bool" where
  "names_below d p \<longleftrightarrow> written ''*.'' d p"

lemma plain_lowered: "plain_char (ascii_lower c) \<Longrightarrow> graphic c \<and> is_ascii c"
  by (auto simp: plain_char_def low_graphic_def graphic_def ascii_lower_def is_ascii_def split: if_splits)

lemma host_tail_low: "host_tail t \<Longrightarrow> list_all low_graphic t"
proof -
  have "list_all low_graphic q" if "list_all is_digit q" for q
    using that by (intro plain_low) (auto simp: list_all_iff low_graphic_digit)
  then show "host_tail t \<Longrightarrow> ?thesis" by (auto simp: host_tail_def)
qed

lemma normalize_tail: "plain_host d \<Longrightarrow> host_tail t \<Longrightarrow> normalize_hostname uc (d @ t) = d"
  by (auto simp: host_tail_def normalize_plain normalize_trailing_dot normalize_with_port)

lemma lowered_written:
  assumes "plain_host d" and "list_all is_blank l" and "list_all is_blank r" and "map ascii_lower x = d"
    and "host_tail t" and "front = [] \<or> front = ''*.''"
  shows "to_lower uc (trim_space (l @ front @ x @ t @ r)) = front @ d @ t"
proof -
  let ?m = "front @ x @ t"
  have x: "list_all graphic x" "list_all is_ascii x"
    using assms(1,4) plain_lowered by (auto simp: plain_host_def list_all_iff)
  have low: "list_all graphic t \<and> list_all is_ascii t \<and> map ascii_lower t = t"
    using host_tail_low [OF assms(5)]
    by (auto simp: list_all_iff low_graphic_def graphic_def is_ascii_def intro: map_idI)
  have front: "list_all graphic front \<and> list_all is_ascii front \<and> map ascii_lower front = front"
    using assms(6) by (auto simp: graphic_def is_ascii_def ascii_lower_def)
  have "x \<noteq> []" using assms(1,4) by (auto simp: plain_host_def)
  then have ne: "?m \<noteq> []" by simp
  have gr: "list_all graphic ?m" using x low front by simp
  then have "graphic (hd ?m)" "graphic (last ?m)"
    using ne by (simp_all only: list_all_iff) (meson hd_in_set last_in_set)+
  from trim_space_blanks [OF assms(2,3) ne this] have "trim_space (l @ ?m @ r) = ?m" .
  then have "trim_space (l @ front @ x @ t @ r) = ?m" by simp
  moreover have "to_lower uc ?m = map ascii_lower ?m" using x low front by (simp add: to_lower_def)
  ultimately show ?thesis using assms(4) low front by simp
qed

lemma wildcard_matches:
  assumes "names_below d p"
  shows "hostname_pattern_matches uc h p \<longleftrightarrow> (\<exists>l. h = l @ ''.'' @ d)"
proof -
  obtain l x t r where p: "p = l @ ''*.'' @ x @ t @ r" "list_all is_blank l" "list_all is_blank r" "map ascii_lower x = d"
      "host_tail t" and d: "plain_host d"
    using assms unfolding names_below_def written_def by blast
  have a: "to_lower uc (trim_space p) = ''*.'' @ d @ t"
    unfolding p(1) using p d by (intro lowered_written) simp_all
  have t: "trim_prefix ''*.'' (''*.'' @ d @ t) = d @ t" "trim_prefix ''.'' (''.'' @ d) = d"
    by (rule trim_prefix_append)+
  have "prefix ''*.'' (''*.'' @ d @ t)" by (rule prefixI) simp
  then show ?thesis
    unfolding hostname_pattern_matches_def a Let_def t normalize_tail [OF d p(5)]
    by (auto simp: suffix_def)
qed

lemma exact_matches:
  assumes "names_host d p"
  shows "hostname_pattern_matches uc h p \<longleftrightarrow> h = d"
proof -
  obtain l x t r where p: "p = l @ [] @ x @ t @ r" "list_all is_blank l" "list_all is_blank r" "map ascii_lower x = d"
      "host_tail t" and d: "plain_host d"
    using assms unfolding names_host_def written_def by blast
  have a: "to_lower uc (trim_space p) = d @ t"
    using lowered_written [OF d p(2,3,4,5), of "[]"] unfolding p(1) by simp
  have "\<not> prefix ''*.'' (d @ t)"
    using plain_free [of d] plain_hostD [OF d] by (cases d) (auto simp: prefix_def)
  then show ?thesis
    unfolding hostname_pattern_matches_def a Let_def using normalize_tail [OF d p(5), of uc] by auto
qed

subsection \<open>What loading establishes\<close>

definition previous_keys_ok :: "string \<Rightarrow> (string \<rightharpoonup> string) \<Rightarrow> bool" where
  "previous_keys_ok active keys \<longleftrightarrow>
     (\<forall>kid secret. keys kid = Some secret \<longrightarrow>
        kid \<noteq> active \<and> trim_space kid \<noteq> [] \<and> 32 \<le> length secret)"

definition registry_ok :: "unicode \<Rightarrow> bool \<Rightarrow> registry \<Rightarrow> bool" where
  "registry_ok uc production r \<longleftrightarrow>
     secrets_unique r \<and> (\<forall>k s. r k = Some s \<longrightarrow> site_key s = k \<and> site_ok uc production s)"

definition runtime_ok :: "unicode \<Rightarrow> bool \<Rightarrow> runtime \<Rightarrow> bool" where
  "runtime_ok uc production rt \<longleftrightarrow>
     32 \<le> length (rt_signing_secret rt) \<and> 32 \<le> length (rt_binding_secret rt)
     \<and> rt_signing_key_id rt \<noteq> [] \<and> previous_keys_ok (rt_signing_key_id rt) (rt_previous_keys rt)
     \<and> registry_ok uc production (rt_sites rt)"

lemma check_previous_keys_None:
  "check_previous_keys active kvs = None \<Longrightarrow> (kid, secret) \<in> set kvs \<Longrightarrow>
     kid \<noteq> active \<and> trim_space kid \<noteq> [] \<and> 32 \<le> length secret"
  by (induction active kvs rule: check_previous_keys.induct) (auto split: if_splits)

lemma parse_previous_keys_ok:
  "parse_previous_signing_keys e raw active = Inr keys \<Longrightarrow> previous_keys_ok active keys"
  by (fastforce simp: parse_previous_signing_keys_def previous_keys_ok_def
      dest: map_of_SomeD check_previous_keys_None split: if_splits option.splits)

lemma validate_registry_ok:
  "validate_sites uc ss production = Inr () \<Longrightarrow> registry_ok uc production (new_registry ss)"
  using validated_registry_unique [of uc ss production]
  by (auto simp: registry_ok_def validate_sites_Inr dest: new_registry_SomeD)

lemma validated_Inr: "validated uc production ss = Inr ss' \<longleftrightarrow>
    ss' = ss \<and> validate_sites uc ss production = Inr ()"
  by (auto simp: validated_def split: sum.splits)

lemma load_sites_ok:
  "load_sites uc e = Inr ss \<Longrightarrow> registry_ok uc (env_is_production e) (new_registry ss)"
  by (auto simp: load_sites_def Let_def validated_Inr validate_registry_ok
      split: if_splits option.splits)

lemma getenv_not_Nil: "d \<noteq> [] \<Longrightarrow> getenv e k d \<noteq> []"
  by (simp add: getenv_def)

lemma load_InrE:
  assumes "load uc e = Inr rt"
  obtains sites where
    "load_sites uc e = Inr sites" "rt_sites rt = new_registry sites"
    "parse_previous_signing_keys e (getenv_raw e ''BERRYSHIELD_PREVIOUS_SIGNING_KEYS_JSON'')
       (rt_signing_key_id rt) = Inr (rt_previous_keys rt)"
    "rt_signing_key_id rt = getenv e ''BERRYSHIELD_SIGNING_KID'' ''dev-v1''"
    "rt_signing_secret rt =
       (if getenv_raw e ''BERRYSHIELD_SIGNING_SECRET'' = [] then dev_signing_secret
        else getenv_raw e ''BERRYSHIELD_SIGNING_SECRET'')"
    "getenv_raw e ''BERRYSHIELD_SIGNING_SECRET'' = [] \<Longrightarrow>
       getenv e ''BERRYSHIELD_ENV'' ''development'' \<noteq> ''production''"
    "32 \<le> length (rt_signing_secret rt)" "32 \<le> length (rt_binding_secret rt)"
    "parse_cidrs (getenv_raw e ''BERRYSHIELD_TRUSTED_PROXY_CIDRS'') = Some (rt_trusted_proxies rt)"
  using assms that
  unfolding load_def Let_def bind_err_Inr reject_if_Inr
  by (fastforce simp: not_less split: option.splits)

lemma load_ok:
  "load uc e = Inr rt \<Longrightarrow> runtime_ok uc (env_is_production e) rt"
  by (erule load_InrE)
    (auto simp: runtime_ok_def getenv_not_Nil parse_previous_keys_ok load_sites_ok)

lemma load_production_secret:
  assumes "load uc e = Inr rt" and "getenv_raw e ''BERRYSHIELD_ENV'' = ''production''"
  shows "rt_signing_secret rt = getenv_raw e ''BERRYSHIELD_SIGNING_SECRET''"
proof -
  have "getenv e ''BERRYSHIELD_ENV'' ''development'' = ''production''"
    using assms(2) by (simp add: getenv_def)
  with assms(1) show ?thesis by (auto elim!: load_InrE)
qed

lemma or_default_idem [simp]: "0 < d \<Longrightarrow> or_default d (or_default d x) = or_default d x"
  by (simp add: or_default_def)

lemma apply_site_defaults_idem: "apply_site_defaults (apply_site_defaults s) = apply_site_defaults s"
  by (simp add: apply_site_defaults_def)

subsection \<open>A sample environment\<close>

text \<open>A process environment given by its set variables, with no files.\<close>

definition shell :: "(string \<times> string) list \<Rightarrow> os" where
  "shell kvs =
     \<lparr>getenv_raw = (\<lambda>k. case map_of kvs k of Some v \<Rightarrow> v | None \<Rightarrow> []),
      read_file = (\<lambda>_. None), key_rank = length\<rparr>"

definition mixed_case_env :: os where
  "mixed_case_env =
     shell [(''BERRYSHIELD_ENV'', ''Production''), (''BERRYSHIELD_SITE_SECRET'', ''0123456789abcdef'')]"

lemma mixed_case_lookup:
  "getenv_raw mixed_case_env k =
     (if k = ''BERRYSHIELD_ENV'' then ''Production''
      else if k = ''BERRYSHIELD_SITE_SECRET'' then ''0123456789abcdef'' else [])"
  by (simp add: mixed_case_env_def shell_def)

lemma mixed_case_production: "env_is_production mixed_case_env"
proof -
  have "trim_space ''Production'' = ''Production''"
    by (rule trim_space_graphic) (simp add: graphic_def)
  then show ?thesis
    by (simp add: env_is_production_def mixed_case_lookup ascii_equal_fold_def ascii_lower_def char_of_eq_iff)
qed

lemma trim_space_Nil [simp]: "trim_space [] = []"
  by (rule trim_space_graphic) simp

lemma mixed_case_site:
  "site_ok uc True (apply_site_defaults (single_site uc mixed_case_env))"
proof -
  let ?s = "apply_site_defaults (single_site uc mixed_case_env)"
  have key: "site_key ?s = ''bs_dev_public''" and secret: "site_secret ?s = ''0123456789abcdef''"
    by (simp_all add: apply_site_defaults_def single_site_def getenv_def mixed_case_lookup)
  have "trim_space ''bs_dev_public'' = ''bs_dev_public''"
    by (rule trim_space_graphic) (simp add: graphic_def)
  with key have key_ok: "trim_space (site_key ?s) \<noteq> [] \<and> length (site_key ?s) \<le> 128"
    by simp
  have lower: "to_lower uc ''0123456789abcdef'' = ''0123456789abcdef''"
    by (simp add: to_lower_def is_ascii_def ascii_lower_def)
  have "\<not> sublist ''change_me'' ''0123456789abcdef''"
  proof
    assume "sublist ''change_me'' ''0123456789abcdef''"
    then have "set ''change_me'' \<subseteq> set ''0123456789abcdef''" by (rule set_mono_sublist)
    then show False by simp
  qed
  then have no_change_me: "\<not> sublist ''change_me'' (to_lower uc (site_secret ?s))"
    by (simp only: secret lower not_False_eq_True)
  have long: "16 \<le> length (site_secret ?s)" using secret by simp
  have "hostnames ?s \<noteq> []"
  proof -
    have "split_on CHR '','' ''localhost,127.0.0.1'' = [''localhost'', ''127.0.0.1'']"
      by simp
    moreover have "trim_space ''localhost'' = ''localhost''"
      by (rule trim_space_graphic) (simp add: graphic_def)
    ultimately have "split_csv ''localhost,127.0.0.1'' \<noteq> []"
      unfolding split_csv_def by simp
    then show ?thesis
      by (simp add: apply_site_defaults_def single_site_def getenv_def mixed_case_lookup)
  qed
  moreover have "thresholds_ok (site_thresholds ?s)" "token_ttl_seconds ?s = 120"
    "challenge_ttl_seconds ?s = 180"
    by (simp_all add: apply_site_defaults_def single_site_def or_default_def thresholds_ok_def)
  ultimately show ?thesis using key_ok no_change_me long by (simp add: site_ok_def)
qed

lemma mixed_case_load:
  "\<exists>rt. load uc mixed_case_env = Inr rt \<and> rt_signing_secret rt = dev_signing_secret"
proof -
  have "validate_sites uc [apply_site_defaults (single_site uc mixed_case_env)] True = Inr ()"
    using mixed_case_site by (simp add: validate_sites_Inr)
  then have "load_sites uc mixed_case_env
      = Inr [apply_site_defaults (single_site uc mixed_case_env)]"
    by (simp add: load_sites_def mixed_case_lookup mixed_case_production validated_Inr)
  moreover have "parse_cidrs [] = Some []"
    by (simp add: parse_cidrs_def split_csv_def)
  ultimately show ?thesis
    by (simp add: load_def getenv_def mixed_case_lookup parse_previous_signing_keys_def
        dev_signing_secret_def Let_def reject_if_def)
qed

lemma mixed_case_rt:
  assumes "load uc mixed_case_env = Inr rt"
  shows "rt_sites rt = new_registry [apply_site_defaults (single_site uc mixed_case_env)]"
proof -
  have "validate_sites uc [apply_site_defaults (single_site uc mixed_case_env)] True = Inr ()"
    using mixed_case_site by (simp add: validate_sites_Inr)
  then have "load_sites uc mixed_case_env
      = Inr [apply_site_defaults (single_site uc mixed_case_env)]"
    by (simp add: load_sites_def mixed_case_lookup mixed_case_production validated_Inr)
  with assms show ?thesis by (auto elim!: load_InrE)
qed

lemma single_site_fields:
  "site_key (apply_site_defaults (single_site uc mixed_case_env)) = ''bs_dev_public''"
  "site_secret (apply_site_defaults (single_site uc mixed_case_env)) = ''0123456789abcdef''"
  by (simp_all add: apply_site_defaults_def single_site_def getenv_def mixed_case_lookup)

text \<open>C34. Looking a site up by its secret does not depend on the order in which Go visits the map: in a
  configuration that loads, every order finds exactly the one site with that secret.\<close>

theorem secret_lookup_deterministic:
  assumes "load uc e = Inr rt" and "iteration_order order (rt_sites rt)"
  shows "registry_get_by_secret order (rt_sites rt) secret = Some s
     \<longleftrightarrow> rt_sites rt (site_key s) = Some s \<and> site_secret s = secret"
proof -
  have ok: "registry_ok uc (env_is_production e) (rt_sites rt)"
    using load_ok [OF assms(1)] by (simp add: runtime_ok_def)
  then have "secrets_unique (rt_sites rt)" by (simp add: registry_ok_def)
  from registry_get_by_secret_iff [OF assms(2) this, of secret s] ok show ?thesis
    by (auto simp: registry_ok_def)
qed

lemma secret_lookup_deterministic_witness:
  "\<exists>rt s. load (\<lambda>x. x) mixed_case_env = Inr rt
     \<and> registry_get_by_secret [''bs_dev_public''] (rt_sites rt) ''0123456789abcdef'' = Some s"
proof -
  obtain rt where rt: "load (\<lambda>x. x) mixed_case_env = Inr rt" using mixed_case_load by blast
  have order: "iteration_order [''bs_dev_public''] (rt_sites rt)"
    by (simp add: mixed_case_rt [OF rt] iteration_order_def new_registry_def single_site_fields)
  let ?s = "apply_site_defaults (single_site (\<lambda>x. x) mixed_case_env)"
  have "rt_sites rt (site_key ?s) = Some ?s \<and> site_secret ?s = ''0123456789abcdef''"
    by (simp add: mixed_case_rt [OF rt] new_registry_def single_site_fields)
  with secret_lookup_deterministic [OF rt order, of "''0123456789abcdef''" ?s] rt show ?thesis by blast
qed

text \<open>A configuration that loads is sound: signing and binding secrets of at least 32 bytes, retired
  keys that are long enough and not the active one, sites with valid fields, thresholds and lifetimes,
  filed under their keys, and no two with one secret.\<close>

theorem loaded_runtime_ok:
  assumes "load uc e = Inr rt"
  shows "runtime_ok uc (env_is_production e) rt"
  using assms by (rule load_ok)

lemma loaded_runtime_ok_witness:
  "\<exists>rt. load (\<lambda>x. x) mixed_case_env = Inr rt \<and> runtime_ok (\<lambda>x. x) True rt"
proof -
  obtain rt where rt: "load (\<lambda>x. x) mixed_case_env = Inr rt" using mixed_case_load by blast
  from loaded_runtime_ok [OF rt] rt show ?thesis by (auto simp: mixed_case_production)
qed

text \<open>The check for a production environment differs in two places: an environment named
  \<open>Production\<close> is production for the validation of sites, and still loads without a signing secret, with
  the one that is printed in the source.\<close>

theorem mixed_case_production_loads:
  "env_is_production mixed_case_env
   \<and> (\<exists>rt. load uc mixed_case_env = Inr rt \<and> rt_signing_secret rt = dev_signing_secret)"
  using mixed_case_production mixed_case_load by blast

lemma host_not_below:
  assumes "names_host d p"
  shows "\<not> names_below d' p"
proof
  assume "names_below d' p"
  then have "hostname_pattern_matches uc (''.'' @ d') p" "hostname_pattern_matches uc (''a.'' @ d') p" for uc
    by (simp_all only: wildcard_matches) (auto intro: exI [of _ "[]"] exI [of _ "''a''"])
  with assms have "''.'' @ d' = d" "''a.'' @ d' = d" by (simp_all only: exact_matches)
  then show False by auto
qed

text \<open>C36. For a site whose patterns are host names or wildcards \<open>*.\<close> with a host name, written in any case, with
  blanks around, a final dot or a port: a host is allowed exactly when its normal form is a host that a pattern
  names, or lies below a host that a wildcard names.\<close>

theorem hostname_allowed_iff:
  assumes "\<forall>p \<in> set (hostnames s). \<exists>d. names_host d p \<or> names_below d p"
  shows "allows_hostname uc s h \<longleftrightarrow>
     (\<exists>p \<in> set (hostnames s). names_host (normalize_hostname uc h) p
        \<or> (\<exists>d l. names_below d p \<and> normalize_hostname uc h = l @ ''.'' @ d))"
proof -
  let ?h = "normalize_hostname uc h"
  have "hostname_pattern_matches uc ?h p \<longleftrightarrow> names_host ?h p \<or> (\<exists>d l. names_below d p \<and> ?h = l @ ''.'' @ d)"
    if p: "p \<in> set (hostnames s)" for p
  proof (cases "\<exists>d. names_host d p")
    case True
    then obtain d where d: "names_host d p" by blast
    then have "names_host ?h p \<longleftrightarrow> ?h = d"
      using exact_matches [OF d, of uc ?h] exact_matches [of ?h p uc ?h] by auto
    moreover have "\<nexists>d'. names_below d' p" using host_not_below [OF d] by blast
    ultimately show ?thesis using exact_matches [OF d, of uc ?h] by simp
  next
    case False
    then obtain d where d: "names_below d p" using assms p by blast
    have "(\<exists>l. ?h = l @ ''.'' @ d') \<longleftrightarrow> (\<exists>l. ?h = l @ ''.'' @ d)" if "names_below d' p" for d'
      using wildcard_matches [OF d, of uc ?h] wildcard_matches [OF that, of uc ?h] by blast
    with False d wildcard_matches [OF d, of uc ?h] show ?thesis by metis
  qed
  then show ?thesis by (auto simp: allows_hostname_def list_ex_iff)
qed

definition shop_hosts :: site where
  "shop_hosts = \<lparr>site_key = ''shop'', site_secret = ''0123456789abcdef'', hostnames = [''shop.example'', '' *.Shop.Example.''],
     token_ttl_seconds = 120, challenge_ttl_seconds = 180, rate_limit_per_minute = 60, bind_ip_prefix = False,
     site_thresholds = \<lparr>th_pow = 30, th_interactive = 62, th_block = 92\<rparr>\<rparr>"

lemma shop_example_plain: "plain_host ''shop.example''"
  by code_simp

text \<open>The patterns \<open>shop.example\<close> and \<open>*.Shop.Example.\<close>, the second one after a blank.\<close>

lemma hostname_allowed_iff_witness:
  "allows_hostname (\<lambda>x. x) shop_hosts ''pay.shop.example'' \<and> \<not> allows_hostname (\<lambda>x. x) shop_hosts ''evilshop.example''"
proof -
  have lower: "map ascii_lower ''shop.example'' = ''shop.example''" "map ascii_lower ''Shop.Example'' = ''shop.example''"
    by code_simp+
  have host: "names_host ''shop.example'' ''shop.example''"
    unfolding names_host_def written_def
    by (intro conjI shop_example_plain exI [of _ "[]"] exI [of _ "''shop.example''"]) (simp_all only: lower, simp_all add: host_tail_def)
  have below: "names_below ''shop.example'' '' *.Shop.Example.''"
    unfolding names_below_def written_def
    by (intro conjI shop_example_plain exI [of _ "'' ''"] exI [of _ "''Shop.Example''"] exI [of _ "''.''"] exI [of _ "[]"])
      (simp_all only: lower, simp_all add: host_tail_def is_blank_def)
  have patterns: "hostnames shop_hosts = [''shop.example'', '' *.Shop.Example.'']" by (simp add: shop_hosts_def)
  have "\<forall>p \<in> set (hostnames shop_hosts). \<exists>d. names_host d p \<or> names_below d p"
    using host below unfolding patterns by auto
  note iff = hostname_allowed_iff [OF this, of "\<lambda>x. x"]
  have "plain_host ''pay.shop.example''" "plain_host ''evilshop.example''" by code_simp+
  then have norm: "normalize_hostname (\<lambda>x. x) ''pay.shop.example'' = ''pay.shop.example''"
    "normalize_hostname (\<lambda>x. x) ''evilshop.example'' = ''evilshop.example''"
    by (simp_all only: normalize_plain)
  have "''pay.shop.example'' = ''pay'' @ ''.'' @ ''shop.example''" by simp
  with below have 1: "allows_hostname (\<lambda>x. x) shop_hosts ''pay.shop.example''"
    unfolding iff norm patterns by (intro bexI [of _ "'' *.Shop.Example.''"]) auto
  have "\<not> hostname_pattern_matches (\<lambda>x. x) ''evilshop.example'' ''shop.example''"
    "\<not> hostname_pattern_matches (\<lambda>x. x) ''evilshop.example'' '' *.Shop.Example.''" by code_simp+
  then have 2: "\<not> allows_hostname (\<lambda>x. x) shop_hosts ''evilshop.example''"
    unfolding allows_hostname_def norm patterns by simp
  from 1 2 show ?thesis ..
qed

text \<open>Port and final dot do not matter: a plain host, the host with a dot at its end and the host with a
  port have the same normal form.\<close>

lemma hostname_normal_form:
  assumes "plain_host d" and "list_all is_digit p"
  shows "normalize_hostname uc d = d \<and> normalize_hostname uc (d @ ''.'') = d
    \<and> normalize_hostname uc (d @ CHR '':'' # p) = d"
  using normalize_plain [OF assms(1)] normalize_trailing_dot [OF assms(1)] normalize_with_port [OF assms] by blast

lemma hostname_normal_form_witness:
  "normalize_hostname (\<lambda>x. x) (''shop.example'' @ CHR '':'' # ''8443'') = ''shop.example''"
  using hostname_normal_form [OF shop_example_plain, of "''8443''" "\<lambda>x. x"] by (simp add: is_digit_def digit_val_def)

definition production_env :: os where
  "production_env =
     shell [(''BERRYSHIELD_ENV'', ''production''), (''BERRYSHIELD_SITE_SECRET'', ''0123456789abcdef''),
            (''BERRYSHIELD_SIGNING_SECRET'', ''0123456789abcdef0123456789abcdef'')]"

lemma production_lookup:
  "getenv_raw production_env k =
     (if k = ''BERRYSHIELD_ENV'' then ''production''
      else if k = ''BERRYSHIELD_SITE_SECRET'' then ''0123456789abcdef''
      else if k = ''BERRYSHIELD_SIGNING_SECRET'' then ''0123456789abcdef0123456789abcdef'' else [])"
  by (simp add: production_env_def shell_def)

lemma exact_production: "getenv_raw e ''BERRYSHIELD_ENV'' = ''production'' \<Longrightarrow> env_is_production e"
proof -
  have "trim_space ''production'' = ''production''" by (rule trim_space_graphic) (simp add: graphic_def)
  moreover assume "getenv_raw e ''BERRYSHIELD_ENV'' = ''production''"
  ultimately show ?thesis by (simp add: env_is_production_def ascii_equal_fold_def)
qed

lemma production_load: "\<exists>rt. load uc production_env = Inr rt"
proof -
  have "single_site uc production_env = single_site uc mixed_case_env"
    by (simp add: single_site_def getenv_def getenv_bool_def production_lookup mixed_case_lookup)
  then have "validate_sites uc [apply_site_defaults (single_site uc production_env)] True = Inr ()"
    using mixed_case_site by (simp add: validate_sites_Inr)
  then have "load_sites uc production_env = Inr [apply_site_defaults (single_site uc production_env)]"
    by (simp add: load_sites_def production_lookup exact_production validated_Inr)
  moreover have "parse_cidrs [] = Some []"
    by (simp add: parse_cidrs_def split_csv_def)
  ultimately show ?thesis
    by (simp add: load_def getenv_def production_lookup parse_previous_signing_keys_def Let_def reject_if_def)
qed

text \<open>With \<open>BERRYSHIELD_ENV\<close> exactly \<open>production\<close>, the configuration loads only with a signing secret of its own of at
  least 32 bytes. In every environment that the validation of sites takes for production (this word
  in any case, with white space around), no site keeps a development secret.\<close>

theorem production_secrets_given:
  assumes "load uc e = Inr rt"
  shows "(getenv_raw e ''BERRYSHIELD_ENV'' = ''production'' \<longrightarrow>
       rt_signing_secret rt = getenv_raw e ''BERRYSHIELD_SIGNING_SECRET''
       \<and> 32 \<le> length (getenv_raw e ''BERRYSHIELD_SIGNING_SECRET''))
    \<and> (env_is_production e \<longrightarrow>
       (\<forall>k s. rt_sites rt k = Some s \<longrightarrow> \<not> sublist ''change_me'' (to_lower uc (site_secret s))))"
proof (intro conjI impI)
  assume p: "getenv_raw e ''BERRYSHIELD_ENV'' = ''production''"
  show "rt_signing_secret rt = getenv_raw e ''BERRYSHIELD_SIGNING_SECRET''" by (rule load_production_secret [OF assms p])
  with load_ok [OF assms] show "32 \<le> length (getenv_raw e ''BERRYSHIELD_SIGNING_SECRET'')"
    by (simp add: runtime_ok_def)
next
  assume "env_is_production e"
  with load_ok [OF assms] show "\<forall>k s. rt_sites rt k = Some s \<longrightarrow> \<not> sublist ''change_me'' (to_lower uc (site_secret s))"
    by (auto simp: runtime_ok_def registry_ok_def site_ok_def)
qed

lemma production_secrets_given_witness:
  "\<exists>rt. load (\<lambda>x. x) production_env = Inr rt \<and> rt_signing_secret rt = ''0123456789abcdef0123456789abcdef''
     \<and> (\<forall>k s. rt_sites rt k = Some s \<longrightarrow> \<not> sublist ''change_me'' (to_lower (\<lambda>x. x) (site_secret s)))"
proof -
  obtain rt where rt: "load (\<lambda>x. x) production_env = Inr rt" using production_load by blast
  have "getenv_raw production_env ''BERRYSHIELD_ENV'' = ''production''" by (simp add: production_lookup)
  with production_secrets_given [OF rt] rt exact_production [OF this] show ?thesis by (simp add: production_lookup)
qed

end
