(* ===== verification/Store.thy ===== *)
theory Store
  imports Model
begin

text \<open>
  \<open>services/gateway/internal/store/memory.go\<close>: the in-memory store of pending challenges, spent
  token identifiers and rate windows. Each operation holds the store's mutex from its first
  to its last access, so it is one function on the state (theory \<open>Locking\<close> proves that the mutex makes it
  atomic); concurrency is an interleaving of operations. \<open>now\<close> is the reading of the clock the operation makes.
\<close>

record rate_window =
  rw_start :: instant
  rw_count :: int

record memory =
  challenges :: "string \<rightharpoonup> challenge"
  spent :: "string \<rightharpoonup> instant"
  rates :: "string \<rightharpoonup> rate_window"

definition new_memory :: memory where
  "new_memory = \<lparr>challenges = Map.empty, spent = Map.empty, rates = Map.empty\<rparr>"

text \<open>Deleting while ranging over a map is allowed in Go and visits every key; the three loops
  of \<open>gcLocked\<close> keep exactly the entries whose test fails.\<close>

definition purge :: "('v \<Rightarrow> bool) \<Rightarrow> ('k \<rightharpoonup> 'v) \<Rightarrow> ('k \<rightharpoonup> 'v)" where
  "purge dead m = (\<lambda>k. case m k of None \<Rightarrow> None | Some v \<Rightarrow> if dead v then None else Some v)"

definition gc_locked :: "instant \<Rightarrow> memory \<Rightarrow> memory" where
  "gc_locked now m =
     m\<lparr>challenges := purge (\<lambda>c. now > ch_expires_at c) (challenges m),
       spent := purge (\<lambda>expiry. now > expiry) (spent m),
       rates := purge (\<lambda>r. time_sub now (rw_start r) > 2 * minute) (rates m)\<rparr>"

definition put_challenge :: "instant \<Rightarrow> challenge \<Rightarrow> memory \<Rightarrow> memory" where
  "put_challenge now c m =
     (let m' = gc_locked now m in m'\<lparr>challenges := (challenges m')(ch_id c \<mapsto> c)\<rparr>)"

definition get_challenge :: "instant \<Rightarrow> string \<Rightarrow> memory \<Rightarrow> challenge option \<times> memory" where
  "get_challenge now cid m = (let m' = gc_locked now m in (challenges m' cid, m'))"

definition fail_challenge :: "string \<Rightarrow> int \<Rightarrow> memory \<Rightarrow> memory" where
  "fail_challenge cid max_attempts m =
     (case challenges m cid of
        None \<Rightarrow> m
      | Some c0 \<Rightarrow>
          let c = c0\<lparr>ch_attempts := wrap64 (ch_attempts c0 + 1)\<rparr>
          in if ch_attempts c \<ge> max_attempts
             then m\<lparr>challenges := (challenges m)(cid := None)\<rparr>
             else m\<lparr>challenges := (challenges m)(cid \<mapsto> c)\<rparr>)"

definition consume_challenge :: "string \<Rightarrow> memory \<Rightarrow> bool \<times> memory" where
  "consume_challenge cid m =
     (case challenges m cid of
        None \<Rightarrow> (False, m)
      | Some _ \<Rightarrow> (True, m\<lparr>challenges := (challenges m)(cid := None)\<rparr>))"

definition consume_jti :: "instant \<Rightarrow> string \<Rightarrow> instant \<Rightarrow> memory \<Rightarrow> bool \<times> memory" where
  "consume_jti now jti expires_at m =
     (let m' = gc_locked now m in
      case spent m' jti of
        Some _ \<Rightarrow> (False, m')
      | None \<Rightarrow> (True, m'\<lparr>spent := (spent m')(jti \<mapsto> expires_at)\<rparr>))"

definition allow_rate ::
  "instant \<Rightarrow> string \<Rightarrow> int \<Rightarrow> duration \<Rightarrow> memory \<Rightarrow> (bool \<times> int) \<times> memory" where
  "allow_rate now key limit window m =
     (let r0 = (case rates m key of
                  Some r \<Rightarrow> r | None \<Rightarrow> \<lparr>rw_start = zero_time, rw_count = 0\<rparr>);
          r1 = (if rw_start r0 = zero_time \<or> time_sub now (rw_start r0) \<ge> window
                then \<lparr>rw_start = now, rw_count = 0\<rparr> else r0);
          r = r1\<lparr>rw_count := wrap64 (rw_count r1 + 1)\<rparr>
      in ((rw_count r \<le> limit, rw_count r), m\<lparr>rates := (rates m)(key \<mapsto> r)\<rparr>))"

subsection \<open>The store as a machine over its operations\<close>

text \<open>One operation of any handler, with the clock it reads; \<open>run_op\<close> gives the boolean the
  operation returns, where it returns one.\<close>

datatype store_op =
    Put instant challenge
  | Get instant string
  | Fail string int
  | Consume string
  | Spend instant string instant
  | Rate instant string int duration

fun run_op :: "store_op \<Rightarrow> memory \<Rightarrow> bool \<times> memory" where
  "run_op (Put now c) m = (True, put_challenge now c m)"
| "run_op (Get now cid) m = (let r = get_challenge now cid m in (fst r \<noteq> None, snd r))"
| "run_op (Fail cid n) m = (True, fail_challenge cid n m)"
| "run_op (Consume cid) m = consume_challenge cid m"
| "run_op (Spend now jti expiry) m = consume_jti now jti expiry m"
| "run_op (Rate now key limit window) m =
     (let r = allow_rate now key limit window m in (fst (fst r), snd r))"

fun run_ops :: "store_op list \<Rightarrow> memory \<Rightarrow> memory" where
  "run_ops [] m = m"
| "run_ops (x # xs) m = run_ops xs (snd (run_op x m))"

text \<open>What an operation tells its caller in full.\<close>

datatype store_answer =
    Silent
  | Found "challenge option"
  | Flag bool
  | Rated bool int

fun perform :: "store_op \<Rightarrow> memory \<Rightarrow> store_answer \<times> memory" where
  "perform (Put now c) m = (Silent, put_challenge now c m)"
| "perform (Get now cid) m = (let r = get_challenge now cid m in (Found (fst r), snd r))"
| "perform (Fail cid n) m = (Silent, fail_challenge cid n m)"
| "perform (Consume cid) m = (let r = consume_challenge cid m in (Flag (fst r), snd r))"
| "perform (Spend now jti expiry) m = (let r = consume_jti now jti expiry m in (Flag (fst r), snd r))"
| "perform (Rate now key limit window) m =
     (let r = allow_rate now key limit window m in (Rated (fst (fst r)) (snd (fst r)), snd r))"

lemma perform_run_op: "snd (perform x m) = snd (run_op x m)"
  by (cases x) (simp_all add: Let_def)

text \<open>The clock reading of an operation, if it can purge expired entries.\<close>

fun op_clock :: "store_op \<Rightarrow> instant option" where
  "op_clock (Put now c) = Some now"
| "op_clock (Get now cid) = Some now"
| "op_clock (Spend now jti expiry) = Some now"
| "op_clock _ = None"

lemma run_ops_append: "run_ops (xs @ ys) m = run_ops ys (run_ops xs m)"
  by (induction xs arbitrary: m) simp_all

lemma run_ops_fold: "run_ops xs m = fold (\<lambda>x m. snd (run_op x m)) xs m"
  by (induction xs arbitrary: m) simp_all

lemma purge_Some: "purge dead m k = Some v \<longleftrightarrow> m k = Some v \<and> \<not> dead v"
  by (auto simp: purge_def split: option.splits)

lemma purge_None: "purge dead m k = None \<longleftrightarrow> (\<forall>v. m k = Some v \<longrightarrow> dead v)"
  by (auto simp: purge_def split: option.splits)

lemma gc_locked_fields [simp]:
  "challenges (gc_locked now m) = purge (\<lambda>c. now > ch_expires_at c) (challenges m)"
  "spent (gc_locked now m) = purge (\<lambda>e. now > e) (spent m)"
  "rates (gc_locked now m) = purge (\<lambda>r. time_sub now (rw_start r) > 2 * minute) (rates m)"
  by (simp_all add: gc_locked_def)

lemmas store_op_defs =
  put_challenge_def get_challenge_def fail_challenge_def consume_challenge_def consume_jti_def
  allow_rate_def Let_def

subsection \<open>Spent token identifiers: a one-shot ledger\<close>

text \<open>
  What the token verification relies on: a key can be spent when it carries no live mark;
  spending marks it; no operation removes a mark before its expiry.
\<close>

locale one_shot_ledger =
  fixes spend :: "instant \<Rightarrow> 'k \<Rightarrow> instant \<Rightarrow> 's \<Rightarrow> bool \<times> 's"
    and mark :: "'s \<Rightarrow> 'k \<Rightarrow> instant option"
    and step :: "'op \<Rightarrow> 's \<Rightarrow> 's"
    and clock :: "'op \<Rightarrow> instant option"
  assumes spend_iff: "fst (spend now k e s) \<longleftrightarrow> (\<forall>x. mark s k = Some x \<longrightarrow> x < now)"
    and spend_marks: "fst (spend now k e s) \<Longrightarrow> mark (snd (spend now k e s)) k = Some e"
    and step_keeps: "mark s k = Some e \<Longrightarrow> (\<And>now. clock x = Some now \<Longrightarrow> now \<le> e)
      \<Longrightarrow> mark (step x s) k = Some e"
begin

lemma steps_keep:
  "mark s k = Some e \<Longrightarrow> (\<And>x now. x \<in> set xs \<Longrightarrow> clock x = Some now \<Longrightarrow> now \<le> e)
     \<Longrightarrow> mark (fold step xs s) k = Some e"
proof (induction xs arbitrary: s)
  case (Cons x xs)
  have "now \<le> e" if "clock x = Some now" for now
    by (rule Cons.prems(2) [OF _ that]) simp
  with Cons.prems(1) have "mark (step x s) k = Some e" by (rule step_keeps)
  moreover have "now \<le> e" if "y \<in> set xs" "clock y = Some now" for y now
    by (rule Cons.prems(2) [OF _ that(2)]) (simp add: that(1))
  ultimately show ?case by (simp add: Cons.IH)
qed simp

lemma single_use:
  assumes "fst (spend t k e s)"
    and "\<And>x now. x \<in> set xs \<Longrightarrow> clock x = Some now \<Longrightarrow> now \<le> e"
    and "t' \<le> e"
  shows "\<not> fst (spend t' k e' (fold step xs (snd (spend t k e s))))"
proof -
  have "mark (fold step xs (snd (spend t k e s))) k = Some e"
    using spend_marks [OF assms(1)] assms(2) by (rule steps_keep)
  with assms(3) show ?thesis by (auto simp: spend_iff)
qed

text \<open>The ledger forgets: past the expiry the same key can be spent again.\<close>

lemma reusable_after_expiry:
  assumes "fst (spend t k e s)" and "e < t'"
  shows "fst (spend t' k e' (snd (spend t k e s)))"
  using assms by (simp add: spend_iff spend_marks)

end

lemma consume_jti_iff: "fst (consume_jti now jti e m) \<longleftrightarrow> (\<forall>x. spent m jti = Some x \<longrightarrow> x < now)"
  by (auto simp: consume_jti_def Let_def purge_Some purge_None split: option.splits)

lemma consume_jti_marks: "fst (consume_jti now jti e m) \<Longrightarrow> spent (snd (consume_jti now jti e m)) jti = Some e"
  by (auto simp: consume_jti_def Let_def split: option.splits)

lemma run_op_spent:
  assumes "spent m jti = Some e" and "\<And>now. op_clock x = Some now \<Longrightarrow> now \<le> e"
  shows "spent (snd (run_op x m)) jti = Some e"
  using assms
  by (cases x) (auto simp: store_op_defs purge_Some purge_None split: option.splits)

interpretation ledger: one_shot_ledger consume_jti spent "\<lambda>x m. snd (run_op x m)" op_clock
  by unfold_locales (simp_all add: consume_jti_iff consume_jti_marks run_op_spent)

subsection \<open>Pending challenges: tickets that are taken once\<close>

locale ticket_pool =
  fixes ticket :: "'s \<Rightarrow> 'k \<Rightarrow> 't option"
    and take_ticket :: "'k \<Rightarrow> 's \<Rightarrow> bool \<times> 's"
    and step :: "'op \<Rightarrow> 's \<Rightarrow> 's"
    and issues :: "'k \<Rightarrow> 'op \<Rightarrow> bool"
  assumes take_iff: "fst (take_ticket k s) \<longleftrightarrow> ticket s k \<noteq> None"
    and take_removes: "ticket (snd (take_ticket k s)) k = None"
    and step_gone: "ticket s k = None \<Longrightarrow> \<not> issues k x \<Longrightarrow> ticket (step x s) k = None"
begin

lemma steps_gone:
  "ticket s k = None \<Longrightarrow> (\<And>x. x \<in> set xs \<Longrightarrow> \<not> issues k x) \<Longrightarrow> ticket (fold step xs s) k = None"
  by (induction xs arbitrary: s) (simp_all add: step_gone)

lemma taken_once:
  assumes "\<And>x. x \<in> set xs \<Longrightarrow> \<not> issues k x"
  shows "\<not> fst (take_ticket k (fold step xs (snd (take_ticket k s))))"
  using steps_gone [OF take_removes assms] by (simp add: take_iff)

end

fun creates :: "string \<Rightarrow> store_op \<Rightarrow> bool" where
  "creates cid (Put now c) = (ch_id c = cid)"
| "creates cid _ = False"

lemma consume_challenge_iff: "fst (consume_challenge cid m) \<longleftrightarrow> challenges m cid \<noteq> None"
  by (simp add: consume_challenge_def split: option.splits)

lemma consume_challenge_removes: "challenges (snd (consume_challenge cid m)) cid = None"
  by (simp add: consume_challenge_def split: option.splits)

lemma run_op_gone:
  "challenges m cid = None \<Longrightarrow> \<not> creates cid x \<Longrightarrow> challenges (snd (run_op x m)) cid = None"
  by (cases x) (auto simp: store_op_defs purge_None split: option.splits)

interpretation pool: ticket_pool challenges consume_challenge "\<lambda>x m. snd (run_op x m)" creates
  by unfold_locales (simp_all add: consume_challenge_iff consume_challenge_removes run_op_gone)

text \<open>Between its creation and its end a challenge changes in its attempt counter only.\<close>

fun fails_with :: "string \<Rightarrow> int \<Rightarrow> store_op \<Rightarrow> bool" where
  "fails_with cid n (Fail c k) = (c = cid \<longrightarrow> k = n)"
| "fails_with cid n _ = True"

fun is_fail :: "string \<Rightarrow> store_op \<Rightarrow> bool" where
  "is_fail cid (Fail c k) = (c = cid)"
| "is_fail cid _ = False"

definition failures :: "string \<Rightarrow> store_op list \<Rightarrow> int" where
  "failures cid xs = int (length (filter (is_fail cid) xs))"

lemma run_op_challenge:
  assumes "\<not> creates cid x" and "fails_with cid n x" and "challenges (snd (run_op x m)) cid = Some c'"
  shows "\<exists>c. challenges m cid = Some c \<and>
     (if is_fail cid x
      then c' = c\<lparr>ch_attempts := wrap64 (ch_attempts c + 1)\<rparr> \<and> ch_attempts c' < n
      else c' = c)"
  using assms
  by (cases x) (auto simp: store_op_defs purge_Some split: option.splits if_splits)

lemma run_ops_challenge:
  assumes "challenges (run_ops xs m) cid = Some c'"
    and "\<And>x. x \<in> set xs \<Longrightarrow> \<not> creates cid x" and "\<And>x. x \<in> set xs \<Longrightarrow> fails_with cid n x"
    and "\<And>c. challenges m cid = Some c \<Longrightarrow> 0 \<le> ch_attempts c \<and> ch_attempts c < 2 ^ 62"
    and "n \<le> 2 ^ 62"
  shows "\<exists>c. challenges m cid = Some c
     \<and> c' = c\<lparr>ch_attempts := ch_attempts c + failures cid xs\<rparr>
     \<and> (failures cid xs > 0 \<longrightarrow> ch_attempts c' < n)"
  using assms
proof (induction xs arbitrary: m)
  case Nil
  then show ?case by (simp add: failures_def)
next
  case (Cons x xs)
  let ?m = "snd (run_op x m)"
  have step: "\<exists>c. challenges m cid = Some c \<and>
      (if is_fail cid x
       then c1 = c\<lparr>ch_attempts := wrap64 (ch_attempts c + 1)\<rparr> \<and> ch_attempts c1 < n
       else c1 = c)" if "challenges ?m cid = Some c1" for c1
    using that Cons.prems(2,3) by (intro run_op_challenge) simp_all
  have bound: "0 \<le> ch_attempts c1 \<and> ch_attempts c1 < 2 ^ 62" if "challenges ?m cid = Some c1" for c1
    using step [OF that] Cons.prems(4,5) by (auto split: if_splits)
  obtain c1 where c1: "challenges ?m cid = Some c1"
      "c' = c1\<lparr>ch_attempts := ch_attempts c1 + failures cid xs\<rparr>"
      "failures cid xs > 0 \<longrightarrow> ch_attempts c' < n"
    using Cons.IH [of ?m] Cons.prems bound by auto
  obtain c where c: "challenges m cid = Some c"
      "if is_fail cid x
       then c1 = c\<lparr>ch_attempts := wrap64 (ch_attempts c + 1)\<rparr> \<and> ch_attempts c1 < n
       else c1 = c"
    using step [OF c1(1)] by blast
  have "failures cid (x # xs) = failures cid xs + (if is_fail cid x then 1 else 0)"
    by (simp add: failures_def)
  moreover have "wrap64 (ch_attempts c + 1) = ch_attempts c + 1"
    using Cons.prems(4) [OF c(1)] by simp
  moreover have "0 \<le> failures cid xs" by (simp add: failures_def)
  ultimately show ?case
    using c c1 by (auto split: if_splits)
qed

lemma attempts_exhausted:
  assumes "\<And>x. x \<in> set xs \<Longrightarrow> \<not> creates cid x" and "\<And>x. x \<in> set xs \<Longrightarrow> fails_with cid n x"
    and "\<And>c. challenges m cid = Some c \<Longrightarrow> 0 \<le> ch_attempts c \<and> ch_attempts c < 2 ^ 62"
    and "0 < n" and "n \<le> 2 ^ 62" and "n \<le> failures cid xs"
  shows "challenges (run_ops xs m) cid = None"
proof (rule ccontr)
  assume "challenges (run_ops xs m) cid \<noteq> None"
  then obtain c' where "challenges (run_ops xs m) cid = Some c'" by blast
  from run_ops_challenge [OF this assms(1,2,3,5)] assms(3,4,6) show False by fastforce
qed

subsection \<open>Rate windows\<close>

lemma allow_rate_frame [simp]:
  "challenges (snd (allow_rate now key limit window m)) = challenges m"
  "spent (snd (allow_rate now key limit window m)) = spent m"
  by (simp_all add: allow_rate_def Let_def)

text \<open>A window of the key is running when it is stored and younger than \<open>window\<close>.\<close>
definition window_open :: "instant \<Rightarrow> duration \<Rightarrow> rate_window option \<Rightarrow> bool" where
  "window_open now window r \<longleftrightarrow>
     (case r of None \<Rightarrow> False | Some w \<Rightarrow> rw_start w \<noteq> zero_time \<and> time_sub now (rw_start w) < window)"

definition next_window :: "instant \<Rightarrow> duration \<Rightarrow> rate_window option \<Rightarrow> rate_window" where
  "next_window now window r =
     (if window_open now window r
      then (the r)\<lparr>rw_count := wrap64 (rw_count (the r) + 1)\<rparr>
      else \<lparr>rw_start = now, rw_count = 1\<rparr>)"

lemma allow_rate_alt:
  "allow_rate now key limit window m =
     (let r = next_window now window (rates m key)
      in ((rw_count r \<le> limit, rw_count r), m\<lparr>rates := (rates m)(key \<mapsto> r)\<rparr>))"
  by (auto simp: allow_rate_def next_window_def window_open_def Let_def not_less split: option.splits)

lemma gc_keeps_open_window:
  assumes "now' \<le> now" and "window \<le> 2 * minute"
  shows "window_open now window (rates (gc_locked now' m) key) = window_open now window (rates m key)"
    and "window_open now window (rates m key) \<Longrightarrow> rates (gc_locked now' m) key = rates m key"
  using assms
  by (auto simp: window_open_def purge_def time_sub_def minute_def max_def min_def
      split: option.splits if_splits)

lemma gc_rate_transparent:
  assumes "now' \<le> now" and "window \<le> 2 * minute"
  shows "fst (allow_rate now key limit window (gc_locked now' m)) = fst (allow_rate now key limit window m)"
  using gc_keeps_open_window [OF assms, of m key]
  by (simp add: allow_rate_alt Let_def next_window_def)

fun is_rate :: "string \<Rightarrow> store_op \<Rightarrow> bool" where
  "is_rate key (Rate now k limit window) = (k = key)"
| "is_rate key _ = False"

text \<open>The operation reads a clock before \<open>s + window\<close> and, if it counts a request for \<open>key\<close>,
  has this limit and window.\<close>
fun rate_op_ok :: "string \<Rightarrow> int \<Rightarrow> duration \<Rightarrow> instant \<Rightarrow> store_op \<Rightarrow> bool" where
  "rate_op_ok key limit window s (Rate now k l w) =
     (k = key \<longrightarrow> l = limit \<and> w = window \<and> now < s + window)"
| "rate_op_ok key limit window s x = (\<forall>now. op_clock x = Some now \<longrightarrow> now < s + window)"

fun allowed :: "string \<Rightarrow> store_op list \<Rightarrow> memory \<Rightarrow> nat" where
  "allowed key [] m = 0"
| "allowed key (x # xs) m =
     (if is_rate key x \<and> fst (run_op x m) then 1 else 0) + allowed key xs (snd (run_op x m))"

lemma run_op_window:
  assumes w: "rates m key = Some \<lparr>rw_start = s, rw_count = k\<rparr>" and s: "s \<noteq> zero_time"
    and ok: "rate_op_ok key limit window s x" and window: "0 < window" "window \<le> 2 * minute"
    and k: "0 \<le> k" "k < 2 ^ 62"
  shows "rates (snd (run_op x m)) key
        = Some \<lparr>rw_start = s, rw_count = (if is_rate key x then k + 1 else k)\<rparr>
     \<and> (is_rate key x \<longrightarrow> fst (run_op x m) = (k + 1 \<le> limit))"
proof (cases "\<exists>now l w. x = Rate now key l w")
  case True
  then obtain now where x: "x = Rate now key limit window" and now: "now < s + window"
    using ok by auto
  have "window_open now window (rates m key)"
    using w s now window by (auto simp: window_open_def time_sub_def minute_def)
  then show ?thesis
    using w k by (simp add: x allow_rate_alt next_window_def)
next
  case False
  have young: "\<not> 2 * minute < time_sub now s" if "now < s + window" for now
    using that window by (auto simp: time_sub_def minute_def)
  have "\<not> is_rate key x" using False by (cases x) auto
  moreover have "rates (snd (run_op x m)) key = Some \<lparr>rw_start = s, rw_count = k\<rparr>"
    using False w ok young
    by (cases x) (auto simp: store_op_defs purge_Some purge_None split: option.splits)
  ultimately show ?thesis by simp
qed

lemma allowed_in_window:
  assumes "rates m key = Some \<lparr>rw_start = s, rw_count = k\<rparr>" and "s \<noteq> zero_time"
    and "\<And>x. x \<in> set xs \<Longrightarrow> rate_op_ok key limit window s x"
    and "0 < window" and "window \<le> 2 * minute"
    and "0 \<le> k" and "k + int (length xs) < 2 ^ 62"
  shows "int (allowed key xs m)
    = min (int (length (filter (is_rate key) xs))) (max 0 (limit - k))"
  using assms
proof (induction xs arbitrary: m k)
  case Nil
  then show ?case by simp
next
  case (Cons x xs)
  let ?m = "snd (run_op x m)" and ?k = "if is_rate key x then k + 1 else k"
  have x: "rates ?m key = Some \<lparr>rw_start = s, rw_count = ?k\<rparr>"
      "is_rate key x \<longrightarrow> fst (run_op x m) = (k + 1 \<le> limit)"
    using run_op_window [OF Cons.prems(1,2) _ Cons.prems(4,5,6), of limit x] Cons.prems(3,7) by auto
  have "int (allowed key xs ?m)
      = min (int (length (filter (is_rate key) xs))) (max 0 (limit - ?k))"
    using Cons.prems x(1) by (intro Cons.IH) (auto split: if_splits)
  then show ?case
    using x(2) by (auto split: if_splits)
qed

text \<open>C20. From the request that opens a rate window, exactly \<open>limit\<close> requests of the key are let through
  before the window ends, whatever other operations come in between.\<close>

theorem rate_limit_exact:
  assumes "\<not> window_open t window (rates m key)" and "t \<noteq> zero_time"
    and "\<And>x. x \<in> set xs \<Longrightarrow> rate_op_ok key limit window t x"
    and "0 < window" and "window \<le> 2 * minute" and "int (length xs) < 2 ^ 61"
  shows "int (allowed key (Rate t key limit window # xs) m)
    = min (1 + int (length (filter (is_rate key) xs))) (max 0 limit)"
proof -
  have "int (allowed key xs (snd (run_op (Rate t key limit window) m)))
      = min (int (length (filter (is_rate key) xs))) (max 0 (limit - 1))"
    using assms by (intro allowed_in_window [where s = t and window = window])
      (simp_all add: allow_rate_alt next_window_def)
  then show ?thesis
    using assms(1) by (auto simp: allow_rate_alt next_window_def)
qed

lemma rate_limit_exact_witness:
  "int (allowed ''k'' (Rate 1 ''k'' 2 minute # [Rate 2 ''k'' 2 minute, Get 3 ''c'', Rate 4 ''j'' 1 minute, Rate 5 ''k'' 2 minute]) new_memory)
    = 2"
proof -
  let ?xs = "[Rate 2 ''k'' 2 minute, Get 3 ''c'', Rate 4 ''j'' 1 minute, Rate 5 ''k'' 2 minute]"
  have "int (allowed ''k'' (Rate 1 ''k'' 2 minute # ?xs) new_memory)
      = min (1 + int (length (filter (is_rate ''k'') ?xs))) (max 0 2)"
    by (rule rate_limit_exact) (auto simp: window_open_def new_memory_def zero_time_def minute_def)
  then show ?thesis by simp
qed

end
