(* ===== verification/Base64.thy ===== *)
theory Base64
  imports GoStrings
begin

text \<open>
  \<open>base64.RawURLEncoding\<close> of Go's \<open>encoding/base64\<close> (RFC 4648 URL alphabet, no padding), which
  the gateway uses for identifiers, seeds and the three parts of a token. As the library does,
  the decoder skips carriage returns and line feeds, rejects every other character outside the
  alphabet and ignores the unused low bits of the last character.
\<close>

definition b64_char :: "nat \<Rightarrow> char" where
  "b64_char n = char_of
     (if n < 26 then 65 + n else if n < 52 then 71 + n else if n < 62 then n - 4
      else if n = 62 then 45 else 95)"

definition b64_val :: "char \<Rightarrow> nat option" where
  "b64_val c = (let n = (of_char c :: nat) in
     if 65 \<le> n \<and> n \<le> 90 then Some (n - 65)
     else if 97 \<le> n \<and> n \<le> 122 then Some (n - 71)
     else if 48 \<le> n \<and> n \<le> 57 then Some (n + 4)
     else if n = 45 then Some 62 else if n = 95 then Some 63 else None)"

fun b64_digits :: "nat list \<Rightarrow> nat list" where
  "b64_digits [] = []"
| "b64_digits [a] = [a div 4, (a mod 4) * 16]"
| "b64_digits [a, b] = [a div 4, (a mod 4) * 16 + b div 16, (b mod 16) * 4]"
| "b64_digits (a # b # c # r) =
     [a div 4, (a mod 4) * 16 + b div 16, (b mod 16) * 4 + c div 64, c mod 64] @ b64_digits r"

definition b64_encode :: "bytes \<Rightarrow> string" where
  "b64_encode bs = map b64_char (b64_digits (map unat bs))"

fun b64_bytes :: "nat list \<Rightarrow> nat list option" where
  "b64_bytes [] = Some []"
| "b64_bytes [p] = None"
| "b64_bytes [p, q] = Some [p * 4 + q div 16]"
| "b64_bytes [p, q, r] = Some [p * 4 + q div 16, (q mod 16) * 16 + r div 4]"
| "b64_bytes (p # q # r # t # rest) =
     map_option (\<lambda>bs. [p * 4 + q div 16, (q mod 16) * 16 + r div 4, (r mod 4) * 64 + t] @ bs)
       (b64_bytes rest)"

definition b64_decode :: "string \<Rightarrow> bytes option" where
  "b64_decode s =
     (let cs = filter (\<lambda>c. (of_char c :: nat) \<noteq> 10 \<and> (of_char c :: nat) \<noteq> 13) s
      in if list_all (\<lambda>c. b64_val c \<noteq> None) cs
         then map_option (map word_of_nat) (b64_bytes (map (\<lambda>c. the (b64_val c)) cs))
         else None)"

subsection \<open>Round trip\<close>

definition b64_alphabet :: "char \<Rightarrow> bool" where
  "b64_alphabet c \<longleftrightarrow> b64_val c \<noteq> None"

lemma b64_val_char [simp]: "n < 64 \<Longrightarrow> b64_val (b64_char n) = Some n"
  by (auto simp: b64_val_def b64_char_def Let_def)

lemma b64_alphabet_char: "n < 64 \<Longrightarrow> b64_alphabet (b64_char n)"
  by (simp add: b64_alphabet_def [abs_def])

lemma b64_alphabet_graphic: "b64_alphabet c \<Longrightarrow> graphic c \<and> c \<noteq> CHR ''.''"
  by (auto simp: b64_alphabet_def b64_val_def graphic_def Let_def split: if_splits)

lemma b64_digits_range: "list_all (\<lambda>b. b < 256) bs \<Longrightarrow> list_all (\<lambda>d. d < 64) (b64_digits bs)"
  by (induction bs rule: b64_digits.induct) auto

lemma b64_bytes_digits: "list_all (\<lambda>b. b < 256) bs \<Longrightarrow> b64_bytes (b64_digits bs) = Some bs"
  by (induction bs rule: b64_digits.induct) (auto simp: mult.commute)

lemma unat_bytes_range: "list_all (\<lambda>b. b < 256) (map unat (bs :: bytes))"
proof -
  have "unat b < 2 ^ LENGTH(8)" for b :: byte by (rule unsigned_less)
  then show ?thesis by (simp add: list_all_iff)
qed

lemma b64_encode_alphabet: "list_all b64_alphabet (b64_encode bs)"
  using b64_digits_range [OF unat_bytes_range [of bs]]
  by (auto simp: b64_encode_def list_all_iff intro: b64_alphabet_char)

lemma b64_decode_encode: "b64_decode (b64_encode bs) = Some bs"
proof -
  let ?ds = "b64_digits (map unat bs)"
  have ds: "d < 64" if "d \<in> set ?ds" for d
    using that b64_digits_range [OF unat_bytes_range [of bs]] by (auto simp: list_all_iff)
  have "(of_char c :: nat) \<noteq> 10 \<and> (of_char c :: nat) \<noteq> 13" if "c \<in> set (b64_encode bs)" for c
  proof -
    from that b64_encode_alphabet [of bs] have "graphic c"
      unfolding list_all_iff by (blast dest: b64_alphabet_graphic)
    then have "33 \<le> (of_char c :: nat)" unfolding graphic_def by (rule conjunct1)
    then show ?thesis by linarith
  qed
  then have keep: "filter (\<lambda>c. (of_char c :: nat) \<noteq> 10 \<and> (of_char c :: nat) \<noteq> 13) (b64_encode bs)
      = b64_encode bs"
    by (simp only: filter_id_conv) blast
  have "map (\<lambda>c. the (b64_val c)) (b64_encode bs) = ?ds"
    by (auto simp: b64_encode_def intro!: map_idI dest: ds)
  moreover have "list_all (\<lambda>c. b64_val c \<noteq> None) (b64_encode bs)"
    using b64_encode_alphabet [of bs] by (simp add: b64_alphabet_def [abs_def])
  moreover have "b64_bytes ?ds = Some (map unat bs)"
    by (rule b64_bytes_digits [OF unat_bytes_range])
  ultimately show ?thesis
    using keep by (simp add: b64_decode_def Let_def comp_def)
qed

lemma b64_encode_ascii: "list_all is_ascii (b64_encode bs)"
proof -
  have "graphic c \<Longrightarrow> is_ascii c" for c by (simp add: graphic_def is_ascii_def)
  then show ?thesis using b64_encode_alphabet [of bs]
    unfolding list_all_iff by (blast dest: b64_alphabet_graphic)
qed

lemma length_b64_digits: "length (b64_digits bs) = (4 * length bs + 2) div 3"
  by (induction bs rule: b64_digits.induct) auto

lemma length_b64_encode: "length (b64_encode bs) = (4 * length bs + 2) div 3"
  by (simp add: b64_encode_def length_b64_digits)

subsection \<open>Text encodings whose output can be joined with dots\<close>

text \<open>
  The interface the token code relies on: an encoding of values as text that can be read back
  and never holds the separator of a token's parts.
\<close>

locale dot_free_encoding =
  fixes enc :: "'a \<Rightarrow> string" and dec :: "string \<Rightarrow> 'a option"
  assumes dec_enc: "dec (enc x) = Some x"
    and enc_no_dot: "CHR ''.'' \<notin> set (enc x)"
begin

lemma enc_inject: "enc x = enc y \<longleftrightarrow> x = y"
  by (metis dec_enc option.inject)

lemma split_three:
  "split_on CHR ''.'' (enc x @ CHR ''.'' # enc y @ CHR ''.'' # enc z) = [enc x, enc y, enc z]"
  by (simp add: split_on_append split_on_free enc_no_dot)

lemma join_two_inject:
  "enc x @ CHR ''.'' # enc y = enc x' @ CHR ''.'' # enc y' \<longleftrightarrow> x = x' \<and> y = y'"
proof
  assume "enc x @ CHR ''.'' # enc y = enc x' @ CHR ''.'' # enc y'"
  then have "split_on CHR ''.'' (enc x @ CHR ''.'' # enc y)
      = split_on CHR ''.'' (enc x' @ CHR ''.'' # enc y')"
    by (rule arg_cong)
  then show "x = x' \<and> y = y'"
    by (simp add: split_on_append split_on_free enc_no_dot enc_inject)
qed simp

end

interpretation b64: dot_free_encoding b64_encode b64_decode
proof
  show "b64_decode (b64_encode bs) = Some bs" for bs
    by (rule b64_decode_encode)
  show "CHR ''.'' \<notin> set (b64_encode bs)" for bs
    using b64_encode_alphabet [of bs] by (auto simp: list_all_iff dest: b64_alphabet_graphic)
qed

lemma b64_encode_Nil_iff [simp]: "b64_encode bs = [] \<longleftrightarrow> bs = []"
  using b64.enc_inject [of bs "[]"] by (simp add: b64_encode_def)

lemma b64_no_slash: "CHR ''/'' \<notin> set (b64_encode bs)"
proof -
  have "\<not> b64_alphabet CHR ''/''" by (simp add: b64_alphabet_def b64_val_def)
  then show ?thesis using b64_encode_alphabet [of bs] by (auto simp: list_all_iff)
qed

end
