(* ===== verification/Challenge.thy ===== *)
theory Challenge
  imports Model Sha256 Base64
begin

unbundle bit_operations_syntax

text \<open>
  \<open>services/gateway/internal/challenge/challenge.go\<close>: creation and verification of
  proof-of-work and press-and-hold challenges. The bytes that \<open>crypto/rand.Read\<close> delivers are
  arguments (\<open>None\<close> when it fails), as are the readings of the clock.
\<close>

datatype challenge_error =
    RandError | UnsupportedKind string
  | ChallengeExpired | KindMismatch | NonceOutOfRange | InvalidPow
  | HoldOutsideRange | TooQuick | TooFewEvents | InvalidSummary | InvalidInteractiveWork
  | UnsupportedChallenge

definition new_id :: "random_read \<Rightarrow> challenge_error + string" where
  "new_id rnd = (case read_random 18 rnd of None \<Rightarrow> Inl RandError | Some b \<Rightarrow> Inr (''bsc_'' @ b64_encode b))"

definition new_seed :: "random_read \<Rightarrow> challenge_error + string" where
  "new_seed rnd = (case read_random 24 rnd of None \<Rightarrow> Inl RandError | Some b \<Rightarrow> Inr (b64_encode b))"

definition pow_params :: "string \<Rightarrow> int \<Rightarrow> params" where
  "pow_params seed score =
     [''seed'' \<mapsto> AString seed,
      ''difficulty_bits'' \<mapsto> AInt (if score \<ge> 50 then 17 else 16),
      ''algorithm'' \<mapsto> AString ''sha256'',
      ''max_nonce'' \<mapsto> AInt 20000000]"

definition interactive_params :: "string \<Rightarrow> params" where
  "interactive_params seed =
     [''mode'' \<mapsto> AString ''press_hold'',
      ''min_hold_ms'' \<mapsto> AInt 850,
      ''max_hold_ms'' \<mapsto> AInt 7000,
      ''min_events'' \<mapsto> AInt 2,
      ''pow_seed'' \<mapsto> AString seed,
      ''pow_bits'' \<mapsto> AInt 14,
      ''pow_max_nonce'' \<mapsto> AInt 10000000]"

text \<open>\<open>New\<close>: the first random read is for the identifier, the second for the seed.\<close>

definition new_challenge ::
  "random_read \<Rightarrow> random_read \<Rightarrow> instant \<Rightarrow> string \<Rightarrow> string \<Rightarrow> string \<Rightarrow> string \<Rightarrow> string \<Rightarrow> string
     \<Rightarrow> int \<Rightarrow> string list \<Rightarrow> duration \<Rightarrow> challenge_error + challenge" where
  "new_challenge rnd1 rnd2 now kind site_key action hostname session_id ip_bind score tags ttl =
     bind_err (new_id rnd1) (\<lambda>cid.
       let c = \<lparr>ch_id = cid, ch_site_key = site_key, ch_action = action, ch_hostname = hostname,
                ch_session_id = session_id, ch_ip_bind = ip_bind, ch_risk_score = score,
                ch_risk_tags = tags, ch_kind = kind, ch_params = Map.empty, ch_created_at = now,
                ch_expires_at = now + ttl, ch_attempts = 0\<rparr>
       in if kind = ''pow''
          then bind_err (new_seed rnd2) (\<lambda>seed. Inr (c\<lparr>ch_params := pow_params seed score\<rparr>))
          else if kind = ''interactive''
          then bind_err (new_seed rnd2) (\<lambda>seed. Inr (c\<lparr>ch_params := interactive_params seed\<rparr>))
          else Inl (UnsupportedKind kind))"

text \<open>The loop over the bits of one byte, from the top: the number of zero bits met, and
  whether a one bit ended the loop.\<close>

fun count_byte :: "nat \<Rightarrow> byte \<Rightarrow> nat \<Rightarrow> nat \<times> bool" where
  "count_byte 0 x n = (n, False)"
| "count_byte (Suc i) x n = (if \<not> bit x i then count_byte i x (n + 1) else (n, True))"

fun count_zero_bits :: "bytes \<Rightarrow> nat \<Rightarrow> nat" where
  "count_zero_bits [] n = n"
| "count_zero_bits (x # xs) n =
     (if x = 0 then count_zero_bits xs (n + 8)
      else (case count_byte 8 x n of (n', stop) \<Rightarrow> if stop then n' else count_zero_bits xs n'))"

definition leading_zero_bits :: "bytes \<Rightarrow> nat" where
  "leading_zero_bits b = count_zero_bits b 0"

definition int_from_any :: "any option \<Rightarrow> int" where
  "int_from_any v =
     (case v of
        Some (AInt x) \<Rightarrow> x
      | Some (AInt64 x) \<Rightarrow> x
      | Some (AFloat x) \<Rightarrow> f64_to_int x
      | _ \<Rightarrow> 0)"

definition string_from_any :: "any option \<Rightarrow> string" where
  "string_from_any v = (case v of Some (AString s) \<Rightarrow> s | _ \<Rightarrow> [])"

definition work_hash :: "string \<Rightarrow> 64 word \<Rightarrow> bytes" where
  "work_hash seed nonce = sha256 (bytes_of (seed @ '':'' @ show_nat (unat nonce)))"

text \<open>\<open>Verify\<close>: \<open>now\<close> is read by the expiry check, \<open>later\<close> by \<open>time.Since\<close>.\<close>

definition verify_challenge_proof ::
  "instant \<Rightarrow> instant \<Rightarrow> challenge \<Rightarrow> challenge_proof \<Rightarrow> challenge_error + unit" where
  "verify_challenge_proof now later c p =
     (if now > ch_expires_at c then Inl ChallengeExpired
      else if pf_kind p \<noteq> ch_kind c then Inl KindMismatch
      else if ch_kind c = ''pow''
      then (let seed = string_from_any (ch_params c ''seed'');
                difficulty = int_from_any (ch_params c ''difficulty_bits'');
                max_nonce = uint64_of_int (int_from_any (ch_params c ''max_nonce''))
            in if pf_nonce p > max_nonce then Inl NonceOutOfRange
               else if int (leading_zero_bits (work_hash seed (pf_nonce p))) < difficulty
               then Inl InvalidPow
               else Inr ())
      else if ch_kind c = ''interactive''
      then (let min_hold = int_from_any (ch_params c ''min_hold_ms'');
                max_hold = int_from_any (ch_params c ''max_hold_ms'');
                min_events = int_from_any (ch_params c ''min_events'');
                seed = string_from_any (ch_params c ''pow_seed'');
                bits = int_from_any (ch_params c ''pow_bits'');
                max_nonce = uint64_of_int (int_from_any (ch_params c ''pow_max_nonce''))
            in if pf_hold_ms p < min_hold \<or> pf_hold_ms p > max_hold then Inl HoldOutsideRange
               else if time_sub later (ch_created_at c)
                       < wrap64 (max 0 (wrap64 (min_hold - 100)) * millisecond)
               then Inl TooQuick
               else if pf_event_count p < min_events then Inl TooFewEvents
               else if f64_neg (pf_pointer_variance p) \<or> f64_above_10 (pf_pointer_variance p)
               then Inl InvalidSummary
               else if seed = [] \<or> bits < 4 \<or> pf_nonce p > max_nonce
               then Inl InvalidInteractiveWork
               else if int (leading_zero_bits (work_hash seed (pf_nonce p))) < bits
               then Inl InvalidInteractiveWork
               else Inr ())
      else Inl UnsupportedChallenge)"

subsection \<open>Leading zero bits\<close>

fun be_value :: "bytes \<Rightarrow> nat" where
  "be_value [] = 0"
| "be_value (x # xs) = unat x * 256 ^ length xs + be_value xs"

lemma be_value_bound: "be_value xs < 256 ^ length xs"
proof (induction xs)
  case (Cons x xs)
  have "unat x \<le> 255" using unsigned_less [of x, where 'a = nat] by simp
  then have "unat x * 256 ^ length xs \<le> 255 * 256 ^ length xs" by (rule mult_le_mono1)
  with Cons have "unat x * 256 ^ length xs + be_value xs < 255 * 256 ^ length xs + 256 ^ length xs"
    by linarith
  then show ?case by simp
qed simp

lemma take_bit_Suc_top:
  "take_bit (Suc j) a = take_bit j a + (if bit a j then 2 ^ j else (0 :: nat))"
  by (simp add: take_bit_Suc_from_most)

lemma count_byte_ge:
  assumes "d \<le> i"
  shows "n + d \<le> fst (count_byte i x n) \<longleftrightarrow> take_bit i (unat x) < 2 ^ (i - d)"
  using assms
proof (induction i arbitrary: n d)
  case 0
  then show ?case by simp
next
  case (Suc j)
  have b: "bit x j = bit (unat x) j" by (simp add: bit_unsigned_iff bit_imp_le_length)
  have low: "take_bit j (unat x) < 2 ^ j" by (rule take_bit_nat_less_exp)
  show ?case
  proof (cases "bit x j")
    case True
    have "(2::nat) ^ (Suc j - d) \<le> 2 ^ j" if "0 < d"
      using that by (intro power_increasing) auto
    then have "\<not> take_bit j (unat x) + 2 ^ j < 2 ^ (Suc j - d)" if "0 < d"
      using that by (simp add: not_less trans_le_add2)
    with True show ?thesis
      using low by (cases "d = 0") (auto simp: take_bit_Suc_top simp flip: b)
  next
    case False
    moreover have "take_bit j (unat x) < 2 * 2 ^ j" using low by linarith
    ultimately show ?thesis
      using Suc.IH [of "d - 1" "n + 1"] Suc.IH [of 0 "n + 1"] Suc.prems
      by (cases d) (auto simp: take_bit_Suc_top simp flip: b)
  qed
qed

lemma count_byte_stop: "snd (count_byte i x n) \<longleftrightarrow> take_bit i (unat x) \<noteq> 0"
proof (induction i arbitrary: n)
  case (Suc j)
  have b: "bit x j = bit (unat x) j" by (simp add: bit_unsigned_iff bit_imp_le_length)
  show ?case by (auto simp: Suc.IH take_bit_Suc_top simp flip: b)
qed simp

lemma count_byte_le: "fst (count_byte i x n) \<le> n + i"
proof (induction i arbitrary: n)
  case (Suc i)
  show ?case using Suc.IH [of "n + 1"] by auto
qed simp

lemma be_value_Cons_less: "be_value (x # xs) < 2 ^ m * 2 ^ (8 * length xs) \<longleftrightarrow> unat x < 2 ^ m"
proof -
  have p256: "(256::nat) ^ length xs = 2 ^ (8 * length xs)" by (simp add: power_mult)
  have v: "be_value xs < 2 ^ (8 * length xs)" using be_value_bound [of xs] by (simp add: p256)
  show ?thesis
  proof
    assume "be_value (x # xs) < 2 ^ m * 2 ^ (8 * length xs)"
    then have "unat x * 2 ^ (8 * length xs) < 2 ^ m * 2 ^ (8 * length xs)"
      by (simp only: be_value.simps p256)
    then show "unat x < 2 ^ m" by simp
  next
    assume "unat x < 2 ^ m"
    then have "(unat x + 1) * 2 ^ (8 * length xs) \<le> 2 ^ m * 2 ^ (8 * length xs)"
      by (intro mult_right_mono) auto
    with v show "be_value (x # xs) < 2 ^ m * 2 ^ (8 * length xs)" by (simp add: p256)
  qed
qed

lemma count_zero_bits_ge:
  assumes "d \<le> 8 * length xs"
  shows "n + d \<le> count_zero_bits xs n \<longleftrightarrow> be_value xs < 2 ^ (8 * length xs - d)"
  using assms
proof (induction xs arbitrary: n d)
  case Nil
  then show ?case by simp
next
  case (Cons x xs)
  let ?l = "length xs"
  have p256: "(256::nat) ^ ?l = 2 ^ (8 * ?l)" by (simp add: power_mult)
  have v: "be_value xs < 2 ^ (8 * ?l)" using be_value_bound [of xs] by (simp add: p256)
  have x8: "take_bit 8 (unat x) = unat x"
    by (rule take_bit_nat_eq_self) (use unsigned_less [of x, where 'a = nat] in simp)
  show ?case
  proof (cases "x = 0")
    case True
    show ?thesis
    proof (cases "d \<le> 8")
      case d: True
      have "n + 8 \<le> count_zero_bits xs (n + 8)" using Cons.IH [of 0 "n + 8"] v by simp
      moreover have "be_value xs < 2 ^ (8 * length (x # xs) - d)"
        using d by (intro less_le_trans [OF v] power_increasing) auto
      ultimately show ?thesis using True d by auto
    next
      case d: False
      then obtain d' where d': "d = 8 + d'" by (auto simp: not_le less_iff_Suc_add)
      then have "(n + 8) + d' \<le> count_zero_bits xs (n + 8) \<longleftrightarrow> be_value xs < 2 ^ (8 * ?l - d')"
        using Cons.prems by (intro Cons.IH) simp
      then show ?thesis using True d' by (simp add: add.assoc)
    qed
  next
    case False
    then have pos: "unat x \<noteq> 0" by (simp add: unat_eq_0)
    obtain k st where k: "count_byte 8 x n = (k, st)" by (cases "count_byte 8 x n")
    have "st" using count_byte_stop [of 8 x n] k pos x8 by simp
    then have c: "count_zero_bits (x # xs) n = k" using False k by simp
    show ?thesis
    proof (cases "d \<le> 8")
      case d: True
      have e: "8 * length (x # xs) - d = (8 - d) + 8 * ?l" using d by simp
      show ?thesis
        using count_byte_ge [OF d, of n x] k x8 be_value_Cons_less [of x xs "8 - d"] by (simp only: c e power_add fst_conv)
    next
      case d: False
      have "\<not> unat x < 2 ^ (8 - 8)" using pos by simp
      then have "\<not> n + 8 \<le> k" using count_byte_ge [of 8 8 n x] k x8 by simp
      moreover have "2 ^ (8 * length (x # xs) - d) \<le> (2::nat) ^ (8 * ?l)"
        using d by (intro power_increasing) auto
      moreover have "2 ^ (8 * ?l) \<le> be_value (x # xs)"
        using pos by (simp add: p256 trans_le_add1)
      ultimately show ?thesis using c d by linarith
    qed
  qed
qed

lemma leading_zero_bits_ge:
  "d \<le> 8 * length b \<Longrightarrow> d \<le> leading_zero_bits b \<longleftrightarrow> be_value b < 2 ^ (8 * length b - d)"
  using count_zero_bits_ge [of d b 0] by (simp add: leading_zero_bits_def)

lemma work_hash_difficulty:
  assumes "d \<le> 256"
  shows "\<not> int (leading_zero_bits (work_hash seed nonce)) < int d
    \<longleftrightarrow> be_value (work_hash seed nonce) < 2 ^ (256 - d)"
  using assms leading_zero_bits_ge [of d "work_hash seed nonce"] by (simp add: work_hash_def not_less)

subsection \<open>Created challenges\<close>

lemma new_challenge_Inr:
  assumes "new_challenge r1 r2 t kind sk ac h sid b score tags ttl = Inr c"
  obtains idb seedb where "read_random 18 r1 = Some idb" "read_random 24 r2 = Some seedb"
    "c = \<lparr>ch_id = ''bsc_'' @ b64_encode idb, ch_site_key = sk, ch_action = ac, ch_hostname = h,
          ch_session_id = sid, ch_ip_bind = b, ch_risk_score = score, ch_risk_tags = tags,
          ch_kind = kind,
          ch_params = (if kind = ''pow'' then pow_params (b64_encode seedb) score
                       else interactive_params (b64_encode seedb)),
          ch_created_at = t, ch_expires_at = t + ttl, ch_attempts = 0\<rparr>"
    "kind = ''pow'' \<or> kind = ''interactive''"
proof -
  obtain idb where r1: "read_random 18 r1 = Some idb"
    using assms by (cases "read_random 18 r1") (simp_all add: new_challenge_def new_id_def)
  obtain seedb where r2: "read_random 24 r2 = Some seedb"
    using assms r1
    by (cases "read_random 24 r2") (auto simp: new_challenge_def new_id_def new_seed_def Let_def split: if_splits)
  show thesis
    using assms that [OF r1 r2]
    by (simp add: r1 r2 new_challenge_def new_id_def new_seed_def Let_def split: if_splits)
qed

lemma new_challenge_unsupported:
  "kind \<noteq> ''pow'' \<Longrightarrow> kind \<noteq> ''interactive'' \<Longrightarrow>
     new_challenge (Some src) r2 t kind sk ac h sid b score tags ttl = Inl (UnsupportedKind kind)"
  by (simp add: new_challenge_def new_id_def read_random_def Let_def)

lemma pow_params_lookup [simp]:
  "pow_params seed score ''seed'' = Some (AString seed)"
  "pow_params seed score ''difficulty_bits'' = Some (AInt (if score \<ge> 50 then 17 else 16))"
  "pow_params seed score ''max_nonce'' = Some (AInt 20000000)"
  by (simp_all add: pow_params_def)

lemma interactive_params_lookup [simp]:
  "interactive_params seed ''min_hold_ms'' = Some (AInt 850)"
  "interactive_params seed ''max_hold_ms'' = Some (AInt 7000)"
  "interactive_params seed ''min_events'' = Some (AInt 2)"
  "interactive_params seed ''pow_seed'' = Some (AString seed)"
  "interactive_params seed ''pow_bits'' = Some (AInt 14)"
  "interactive_params seed ''pow_max_nonce'' = Some (AInt 10000000)"
  by (simp_all add: interactive_params_def)

lemma uint64_le_iff:
  assumes "n < 2 ^ 63"
  shows "\<not> w > uint64_of_int (int n) \<longleftrightarrow> unat w \<le> n"
proof -
  have "unat (uint64_of_int (int n)) = n"
    using assms by (simp add: uint64_of_int_def unsigned_of_nat take_bit_nat_eq_self)
  then show ?thesis by (simp add: not_less word_le_nat_alt)
qed

lemma int_from_any_int [simp]: "int_from_any (Some (AInt n)) = n"
  by (simp add: int_from_any_def)

lemma string_from_any_string [simp]: "string_from_any (Some (AString s)) = s"
  by (simp add: string_from_any_def)

definition pow_difficulty :: "int \<Rightarrow> nat" where
  "pow_difficulty score = (if score \<ge> 50 then 17 else 16)"

lemma verify_pow_iff:
  assumes "ch_kind c = ''pow''" and "ch_params c = pow_params seed score"
  shows "verify_challenge_proof now later c p = Inr () \<longleftrightarrow>
     now \<le> ch_expires_at c \<and> pf_kind p = ''pow'' \<and> unat (pf_nonce p) \<le> 20000000
     \<and> be_value (work_hash seed (pf_nonce p)) < 2 ^ (256 - pow_difficulty score)"
proof -
  have "\<not> pf_nonce p > uint64_of_int 20000000 \<longleftrightarrow> unat (pf_nonce p) \<le> 20000000"
    using uint64_le_iff [of 20000000 "pf_nonce p"] by simp
  moreover have "\<not> int (leading_zero_bits (work_hash seed (pf_nonce p))) < int (pow_difficulty score)
    \<longleftrightarrow> be_value (work_hash seed (pf_nonce p)) < 2 ^ (256 - pow_difficulty score)"
    by (rule work_hash_difficulty) (simp add: pow_difficulty_def)
  moreover have "(if score \<ge> 50 then 17 else 16 :: int) = int (pow_difficulty score)"
    by (simp add: pow_difficulty_def)
  ultimately show ?thesis
    using assms by (auto simp: verify_challenge_proof_def Let_def simp del: of_nat_less_iff split: if_splits)
qed

lemma verify_interactive_iff:
  assumes "ch_kind c = ''interactive''" and "ch_params c = interactive_params seed"
  shows "verify_challenge_proof now later c p = Inr () \<longleftrightarrow>
     now \<le> ch_expires_at c \<and> pf_kind p = ''interactive''
     \<and> 850 \<le> pf_hold_ms p \<and> pf_hold_ms p \<le> 7000
     \<and> 750 * millisecond \<le> later - ch_created_at c
     \<and> 2 \<le> pf_event_count p
     \<and> \<not> f64_neg (pf_pointer_variance p) \<and> \<not> f64_above_10 (pf_pointer_variance p)
     \<and> seed \<noteq> [] \<and> unat (pf_nonce p) \<le> 10000000
     \<and> be_value (work_hash seed (pf_nonce p)) < 2 ^ (256 - 14)"
proof -
  have "\<not> pf_nonce p > uint64_of_int 10000000 \<longleftrightarrow> unat (pf_nonce p) \<le> 10000000"
    using uint64_le_iff [of 10000000 "pf_nonce p"] by simp
  moreover have "\<not> int (leading_zero_bits (work_hash seed (pf_nonce p))) < 14
    \<longleftrightarrow> be_value (work_hash seed (pf_nonce p)) < 2 ^ (256 - 14)"
    using work_hash_difficulty [of 14 seed "pf_nonce p"] by simp
  moreover have "wrap64 (max 0 (wrap64 (850 - 100)) * millisecond) = 750 * millisecond"
    by (simp add: millisecond_def)
  moreover have "\<not> time_sub later (ch_created_at c) < 750 * millisecond \<longleftrightarrow>
      750 * millisecond \<le> later - ch_created_at c"
    using time_sub_less_iff [of "750 * millisecond" later "ch_created_at c"]
    by (simp add: millisecond_def not_less)
  ultimately show ?thesis
    using assms
    by (simp add: verify_challenge_proof_def Let_def del: power_numeral) argo
qed

text \<open>C28. A proof of work for a challenge that \<open>New\<close> created is accepted exactly when it comes in time,
  names the kind, keeps within the nonce limit, and the hash, read as a big-endian number, is below
  \<open>2 ^ (256 - d)\<close> for the difficulty \<open>d\<close> that goes with the risk score.\<close>

theorem pow_proof_iff:
  assumes "new_challenge r1 r2 t ''pow'' sk ac h sid b score tags ttl = Inr c"
  shows "\<exists>seedb. read_random 24 r2 = Some seedb \<and>
    (verify_challenge_proof now later c p = Inr () \<longleftrightarrow>
       now \<le> t + ttl \<and> pf_kind p = ''pow'' \<and> unat (pf_nonce p) \<le> 20000000
       \<and> be_value (work_hash (b64_encode seedb) (pf_nonce p)) < 2 ^ (256 - pow_difficulty score))"
proof -
  from assms obtain seedb where seedb: "read_random 24 r2 = Some seedb"
    and c: "ch_kind c = ''pow''" "ch_params c = pow_params (b64_encode seedb) score" "ch_expires_at c = t + ttl"
    by (auto elim!: new_challenge_Inr)
  with verify_pow_iff [OF c(1,2), of now later p] show ?thesis by auto
qed

lemma pow_proof_iff_witness:
  "\<exists>c seedb. new_challenge (Some (\<lambda>i. 7)) (Some (\<lambda>i. 9)) 0 ''pow'' ''shop'' ''login'' ''shop.example'' ''s1'' [] 50 [] minute = Inr c
    \<and> (verify_challenge_proof 5 5 c (\<lparr>pf_kind = ''pow'', pf_nonce = 3, pf_hold_ms = 0, pf_event_count = 0, pf_pointer_variance = 0\<rparr>) = Inr ()
       \<longleftrightarrow> be_value (work_hash (b64_encode seedb) 3) < 2 ^ 239)"
proof -
  obtain c where c: "new_challenge (Some (\<lambda>i. 7)) (Some (\<lambda>i. 9)) 0 ''pow'' ''shop'' ''login'' ''shop.example'' ''s1'' [] 50 [] minute = Inr c"
    by (simp add: new_challenge_def new_id_def new_seed_def read_random_def Let_def)
  from pow_proof_iff [OF c, of 5 5 "\<lparr>pf_kind = ''pow'', pf_nonce = 3, pf_hold_ms = 0, pf_event_count = 0, pf_pointer_variance = 0\<rparr>"]
  show ?thesis using c by (auto simp: pow_difficulty_def minute_def simp del: power_numeral)
qed

text \<open>C29. An interactive proof for a challenge that \<open>New\<close> created is accepted exactly when it comes in
  time, the hold lasted between 850 and 7000 ms by the client's account and at least 750 ms by the
  server's clock, with two events, a variance that is neither negative nor above ten, and 14 bits of
  work.\<close>

theorem interactive_proof_iff:
  assumes "new_challenge r1 r2 t ''interactive'' sk ac h sid b score tags ttl = Inr c"
  shows "\<exists>seedb. read_random 24 r2 = Some seedb \<and>
    (verify_challenge_proof now later c p = Inr () \<longleftrightarrow>
       now \<le> t + ttl \<and> pf_kind p = ''interactive'' \<and> pf_hold_ms p \<in> {850..7000}
       \<and> 750 * millisecond \<le> later - t \<and> 2 \<le> pf_event_count p
       \<and> \<not> f64_neg (pf_pointer_variance p) \<and> \<not> f64_above_10 (pf_pointer_variance p)
       \<and> unat (pf_nonce p) \<le> 10000000
       \<and> be_value (work_hash (b64_encode seedb) (pf_nonce p)) < 2 ^ (256 - 14))"
proof -
  from assms obtain seedb where seedb: "read_random 24 r2 = Some seedb"
    and c: "ch_kind c = ''interactive''" "ch_params c = interactive_params (b64_encode seedb)"
      "ch_expires_at c = t + ttl" "ch_created_at c = t"
    by (auto elim!: new_challenge_Inr)
  have "b64_encode seedb \<noteq> []" using length_read_random [OF seedb] by auto
  with seedb c verify_interactive_iff [OF c(1,2), of now later p] show ?thesis by auto
qed

lemma interactive_proof_iff_witness:
  "\<exists>c. new_challenge (Some (\<lambda>i. 7)) (Some (\<lambda>i. 9)) 0 ''interactive'' ''shop'' ''login'' ''shop.example'' ''s1'' [] 50 [] minute = Inr c
    \<and> verify_challenge_proof 5 5 c \<lparr>pf_kind = ''interactive'', pf_nonce = 3, pf_hold_ms = 900, pf_event_count = 2, pf_pointer_variance = 0\<rparr> \<noteq> Inr ()"
proof -
  obtain c where c: "new_challenge (Some (\<lambda>i. 7)) (Some (\<lambda>i. 9)) 0 ''interactive'' ''shop'' ''login'' ''shop.example'' ''s1'' [] 50 [] minute = Inr c"
    by (simp add: new_challenge_def new_id_def new_seed_def read_random_def Let_def)
  from interactive_proof_iff [OF c, of 5 5 "\<lparr>pf_kind = ''interactive'', pf_nonce = 3, pf_hold_ms = 900, pf_event_count = 2, pf_pointer_variance = 0\<rparr>"]
  show ?thesis using c by (auto simp: millisecond_def simp del: power_numeral)
qed
end
