(* ===== verification/Token.thy ===== *)
theory Token
  imports Model Sha256 Base64 JsonData
begin

text \<open>
  \<open>services/gateway/internal/token/token.go\<close>: minting, signing and verification of proof tokens
  with a ring of keys. A token is \<open>header.payload.signature\<close>, each part in URL-safe base64, the
  first two JSON texts.
\<close>

record token_header =
  hd_alg :: string
  hd_typ :: string
  hd_kid :: string

datatype token_error =
    MarshalError | JtiError
  | MalformedToken | MalformedHeader | InvalidHeader | UnknownKey | MalformedSignature
  | InvalidSignature | MalformedPayload | InvalidPayload | InvalidAudience | ExpiredToken
  | IssuedInFuture | MissingClaims

subsection \<open>The JSON texts of a token\<close>

text \<open>The header is a map, whose keys \<open>Marshal\<close> sorts; the claims are a struct, written in the order of
  its fields, the last one left out when it is empty.\<close>

definition marshal_header :: "token_header \<Rightarrow> string option" where
  "marshal_header h = Some (print_json (JObj
     [(''alg'', JStr (hd_alg h)), (''kid'', JStr (hd_kid h)), (''typ'', JStr (hd_typ h))]))"

definition claims_members :: "token_claims \<Rightarrow> (string \<times> json) list" where
  "claims_members c =
     [(''iss'', JStr (tc_issuer c)), (''aud'', JStr (tc_audience c)), (''site_key'', JStr (tc_site_key c)),
      (''action'', JStr (tc_action c)), (''hostname'', JStr (tc_hostname c)), (''jti'', JStr (tc_jti c)),
      (''iat'', JNum (show_int (tc_issued_at c))), (''exp'', JNum (show_int (tc_expires_at c))),
      (''risk_score'', JNum (show_int (tc_risk_score c))), (''risk_bucket'', JStr (tc_risk_bucket c)),
      (''challenge_kind'', JStr (tc_challenge_kind c))]
     @ (if tc_ip_bind c = [] then [] else [(''ip_bind'', JStr (tc_ip_bind c))])"

definition marshal_claims :: "token_claims \<Rightarrow> string option" where
  "marshal_claims c = Some (print_json (JObj (claims_members c)))"

definition empty_claims :: token_claims where
  "empty_claims =
     \<lparr>tc_issuer = [], tc_audience = [], tc_site_key = [], tc_action = [], tc_hostname = [], tc_jti = [],
      tc_issued_at = 0, tc_expires_at = 0, tc_risk_score = 0, tc_risk_bucket = [],
      tc_challenge_kind = [], tc_ip_bind = []\<rparr>"

definition header_fields :: "token_header fields" where
  "header_fields =
     [(''alg'', field hd_alg_update hd_alg dec_string), (''typ'', field hd_typ_update hd_typ dec_string),
      (''kid'', field hd_kid_update hd_kid dec_string)]"

definition claims_fields :: "token_claims fields" where
  "claims_fields =
     [(''iss'', field tc_issuer_update tc_issuer dec_string),
      (''aud'', field tc_audience_update tc_audience dec_string),
      (''site_key'', field tc_site_key_update tc_site_key dec_string),
      (''action'', field tc_action_update tc_action dec_string),
      (''hostname'', field tc_hostname_update tc_hostname dec_string),
      (''jti'', field tc_jti_update tc_jti dec_string),
      (''iat'', field tc_issued_at_update tc_issued_at dec_int),
      (''exp'', field tc_expires_at_update tc_expires_at dec_int),
      (''risk_score'', field tc_risk_score_update tc_risk_score dec_int),
      (''risk_bucket'', field tc_risk_bucket_update tc_risk_bucket dec_string),
      (''challenge_kind'', field tc_challenge_kind_update tc_challenge_kind dec_string),
      (''ip_bind'', field tc_ip_bind_update tc_ip_bind dec_string)]"

definition unmarshal_header :: "string \<Rightarrow> token_header option" where
  "unmarshal_header = unmarshal (dec_struct False header_fields) \<lparr>hd_alg = [], hd_typ = [], hd_kid = []\<rparr>"

definition unmarshal_claims :: "string \<Rightarrow> token_claims option" where
  "unmarshal_claims = unmarshal (dec_struct False claims_fields) empty_claims"

text \<open>The claims whose text reads back as the same claims: strings in UTF-8, numbers of 64 bits.\<close>

definition encodable :: "token_claims \<Rightarrow> bool" where
  "encodable c \<longleftrightarrow>
     list_all utf8_valid [tc_issuer c, tc_audience c, tc_site_key c, tc_action c, tc_hostname c, tc_jti c,
       tc_risk_bucket c, tc_challenge_kind c, tc_ip_bind c]
     \<and> list_all int64_range [tc_issued_at c, tc_expires_at c, tc_risk_score c]"

lemma header_names: "distinct (map (\<lambda>f. fold_name (fst f)) header_fields)"
  by (simp add: header_fields_def upper_byte_def)

lemma claims_names: "distinct (map (\<lambda>f. fold_name (fst f)) claims_fields)"
  by (simp add: claims_fields_def upper_byte_def)

lemma ascii_names: "list_all utf8_valid [''alg'', ''kid'', ''typ'', ''iss'', ''aud'', ''site_key'', ''action'', ''hostname'', ''jti'',
   ''iat'', ''exp'', ''risk_score'', ''risk_bucket'', ''challenge_kind'', ''ip_bind'']"
  unfolding list_all_iff by (intro ballI utf8_valid_ascii) (auto simp: list_all_iff is_ascii_def)

lemma unmarshal_marshal_header:
  assumes "utf8_valid (hd_alg h)" "utf8_valid (hd_typ h)" "utf8_valid (hd_kid h)"
  shows "Option.bind (marshal_header h) unmarshal_header = Some h"
  unfolding marshal_header_def unmarshal_header_def bind.simps
  using assms ascii_names
  by (intro unmarshal_struct [OF _ header_names]) (simp_all add: max_nesting_def header_fields_def field_def)

lemma unmarshal_marshal_claims: "encodable c \<Longrightarrow> Option.bind (marshal_claims c) unmarshal_claims = Some c"
  unfolding marshal_claims_def unmarshal_claims_def bind.simps
  using ascii_names
  by (intro unmarshal_struct [OF _ claims_names])
    (simp_all add: max_nesting_def claims_members_def claims_fields_def field_def encodable_def empty_claims_def)

subsection \<open>Signing and verifying\<close>

record signer =
  active_secret :: string
  signer_kid :: string
  verify_keys :: "string \<rightharpoonup> string"

definition new_signer_with_keys :: "string \<Rightarrow> string \<Rightarrow> (string \<rightharpoonup> string) \<Rightarrow> signer" where
  "new_signer_with_keys secret kid previous =
     \<lparr>active_secret = secret, signer_kid = kid,
      verify_keys = (\<lambda>k. if k \<noteq> [] \<and> k \<noteq> kid \<and> previous k \<noteq> None then previous k
                         else if k = kid then Some secret else None)\<rparr>"

definition new_signer :: "string \<Rightarrow> string \<Rightarrow> signer" where
  "new_signer secret kid = new_signer_with_keys secret kid Map.empty"

definition new_jti :: "random_read \<Rightarrow> token_error + string" where
  "new_jti rnd = (case read_random 18 rnd of None \<Rightarrow> Inl JtiError | Some b \<Rightarrow> Inr (b64_encode b))"

definition mac_with_key :: "string \<Rightarrow> string \<Rightarrow> bytes" where
  "mac_with_key key v = hmac_sha256 (bytes_of key) (bytes_of v)"

definition sign_header :: "signer \<Rightarrow> token_header" where
  "sign_header s = \<lparr>hd_alg = ''HS256'', hd_typ = ''BST'', hd_kid = signer_kid s\<rparr>"

definition sign :: "signer \<Rightarrow> token_claims \<Rightarrow> token_error + string" where
  "sign s claims =
     (case marshal_header (sign_header s) of
        None \<Rightarrow> Inl MarshalError
      | Some hb \<Rightarrow>
          (case marshal_claims claims of
             None \<Rightarrow> Inl MarshalError
           | Some pb \<Rightarrow>
               let unsigned = b64_encode (bytes_of hb) @ ''.'' @ b64_encode (bytes_of pb);
                   sig = mac_with_key (active_secret s) unsigned
               in Inr (unsigned @ ''.'' @ b64_encode sig)))"

definition check_claims :: "instant \<Rightarrow> token_claims \<Rightarrow> token_error + token_claims" where
  "check_claims now claims =
     (if tc_issuer claims \<noteq> ''berryshield'' \<or> tc_audience claims \<noteq> ''siteverify''
      then Inl InvalidAudience
      else if tc_expires_at claims \<le> unix now then Inl ExpiredToken
      else if tc_issued_at claims > unix (now + 30 * second) then Inl IssuedInFuture
      else if tc_jti claims = [] \<or> tc_site_key claims = [] \<or> tc_hostname claims = []
              \<or> tc_action claims = []
      then Inl MissingClaims
      else Inr claims)"

definition verify_token :: "signer \<Rightarrow> string \<Rightarrow> instant \<Rightarrow> token_error + token_claims" where
  "verify_token s tok now =
     (case split_on CHR ''.'' tok of
        [p0, p1, p2] \<Rightarrow>
          (case b64_decode p0 of
             None \<Rightarrow> Inl MalformedHeader
           | Some hb \<Rightarrow>
               (case unmarshal_header (string_of hb) of
                  None \<Rightarrow> Inl InvalidHeader
                | Some h \<Rightarrow>
                    if hd_alg h \<noteq> ''HS256'' \<or> hd_typ h \<noteq> ''BST'' \<or> hd_kid h = []
                    then Inl InvalidHeader
                    else (case verify_keys s (hd_kid h) of
                            None \<Rightarrow> Inl UnknownKey
                          | Some key \<Rightarrow>
                              (case b64_decode p2 of
                                 None \<Rightarrow> Inl MalformedSignature
                               | Some got \<Rightarrow>
                                   if got \<noteq> mac_with_key key (p0 @ ''.'' @ p1)
                                   then Inl InvalidSignature
                                   else (case b64_decode p1 of
                                           None \<Rightarrow> Inl MalformedPayload
                                         | Some pb \<Rightarrow>
                                             (case unmarshal_claims (string_of pb) of
                                                None \<Rightarrow> Inl InvalidPayload
                                              | Some claims \<Rightarrow> check_claims now claims))))))
      | _ \<Rightarrow> Inl MalformedToken)"

definition risk_bucket :: "int \<Rightarrow> string" where
  "risk_bucket score =
     (if score < 30 then ''low'' else if score < 62 then ''medium''
      else if score < 92 then ''high'' else ''critical'')"

definition mint ::
  "random_read \<Rightarrow> instant \<Rightarrow> signer \<Rightarrow> string \<Rightarrow> string \<Rightarrow> string \<Rightarrow> string \<Rightarrow> string \<Rightarrow> int
     \<Rightarrow> duration \<Rightarrow> token_error + (string \<times> token_claims)" where
  "mint rnd now s site_key action hostname ip_bind kind score ttl =
     bind_err (new_jti rnd) (\<lambda>jti.
       let claims =
         \<lparr>tc_issuer = ''berryshield'', tc_audience = ''siteverify'', tc_site_key = site_key,
          tc_action = action, tc_hostname = hostname, tc_jti = jti, tc_issued_at = unix now,
          tc_expires_at = unix (now + ttl), tc_risk_score = score,
          tc_risk_bucket = risk_bucket score, tc_challenge_kind = kind, tc_ip_bind = ip_bind\<rparr>
       in bind_err (sign s claims) (\<lambda>tok. Inr (tok, claims)))"

text \<open>The text of an error, where the code looks for the word \<open>expired\<close> in it.\<close>

definition token_error_text :: "token_error \<Rightarrow> string" where
  "token_error_text e =
     (case e of
        MalformedToken \<Rightarrow> ''malformed token'' | MalformedHeader \<Rightarrow> ''malformed header''
      | InvalidHeader \<Rightarrow> ''invalid token header'' | UnknownKey \<Rightarrow> ''unknown signing key''
      | MalformedSignature \<Rightarrow> ''malformed signature'' | InvalidSignature \<Rightarrow> ''invalid signature''
      | MalformedPayload \<Rightarrow> ''malformed payload'' | InvalidPayload \<Rightarrow> ''invalid payload''
      | InvalidAudience \<Rightarrow> ''invalid token audience'' | ExpiredToken \<Rightarrow> ''expired token''
      | IssuedInFuture \<Rightarrow> ''token issued in future'' | MissingClaims \<Rightarrow> ''missing token claims''
      | _ \<Rightarrow> [])"

subsection \<open>The claims of an accepted token\<close>

definition claims_current :: "instant \<Rightarrow> token_claims \<Rightarrow> bool" where
  "claims_current now c \<longleftrightarrow>
     tc_issuer c = ''berryshield'' \<and> tc_audience c = ''siteverify''
     \<and> now < time_unix (tc_expires_at c) \<and> tc_issued_at c \<le> unix now + 30
     \<and> tc_jti c \<noteq> [] \<and> tc_site_key c \<noteq> [] \<and> tc_hostname c \<noteq> [] \<and> tc_action c \<noteq> []"

lemma check_claims_iff: "check_claims now c = Inr c' \<longleftrightarrow> c' = c \<and> claims_current now c"
proof -
  have "unix (now + 30 * second) = unix now + 30"
    using unix_add_seconds [of now 30] by (simp add: second_def)
  then show ?thesis
    by (auto simp: check_claims_def claims_current_def not_le not_less simp flip: unix_less_iff split: if_splits)
qed

text \<open>Acceptance, in terms of the three parts.\<close>

definition authentic :: "signer \<Rightarrow> string \<Rightarrow> token_claims \<Rightarrow> bool" where
  "authentic s tok c \<longleftrightarrow>
     (\<exists>p0 p1 p2 hb pb h key. split_on CHR ''.'' tok = [p0, p1, p2]
        \<and> b64_decode p0 = Some hb \<and> unmarshal_header (string_of hb) = Some h
        \<and> hd_alg h = ''HS256'' \<and> hd_typ h = ''BST'' \<and> hd_kid h \<noteq> []
        \<and> verify_keys s (hd_kid h) = Some key
        \<and> b64_decode p2 = Some (mac_with_key key (p0 @ ''.'' @ p1))
        \<and> b64_decode p1 = Some pb \<and> unmarshal_claims (string_of pb) = Some c)"

lemma verify_token_iff:
  "verify_token s tok now = Inr c \<longleftrightarrow> authentic s tok c \<and> claims_current now c"
proof
  assume "verify_token s tok now = Inr c"
  then show "authentic s tok c \<and> claims_current now c"
    by (auto simp: verify_token_def authentic_def check_claims_iff
        split: list.splits option.splits if_splits)
next
  assume "authentic s tok c \<and> claims_current now c"
  then show "verify_token s tok now = Inr c"
    by (auto simp: verify_token_def authentic_def check_claims_iff)
qed

lemma authentic_functional: "authentic s tok c \<Longrightarrow> authentic s tok c' \<Longrightarrow> c = c'"
  by (auto simp: authentic_def)

subsection \<open>Signing\<close>

lemma unmarshal_marshal_sign_header:
  "utf8_valid (signer_kid s) \<Longrightarrow> Option.bind (marshal_header (sign_header s)) unmarshal_header = Some (sign_header s)"
  by (rule unmarshal_marshal_header) (simp_all add: sign_header_def ascii_simps)

lemma sign_authentic:
  assumes "encodable c" and "utf8_valid (signer_kid s)" and "signer_kid s \<noteq> []"
    and "verify_keys v (signer_kid s) = Some (active_secret s)"
  shows "\<exists>tok. sign s c = Inr tok \<and> authentic v tok c"
proof -
  obtain hb pb where hb: "marshal_header (sign_header s) = Some hb"
      "unmarshal_header hb = Some (sign_header s)"
    and pb: "marshal_claims c = Some pb" "unmarshal_claims pb = Some c"
    using unmarshal_marshal_claims [OF assms(1)] unmarshal_marshal_sign_header [OF assms(2)]
    by (auto simp: bind_eq_Some_conv)
  let ?p0 = "b64_encode (bytes_of hb)" and ?p1 = "b64_encode (bytes_of pb)"
  let ?sig = "mac_with_key (active_secret s) (?p0 @ ''.'' @ ?p1)"
  have "sign s c = Inr (?p0 @ ''.'' @ ?p1 @ ''.'' @ b64_encode ?sig)"
    by (simp add: sign_def hb pb Let_def)
  moreover have "split_on CHR ''.'' (?p0 @ ''.'' @ ?p1 @ ''.'' @ b64_encode ?sig)
      = [?p0, ?p1, b64_encode ?sig]"
    using b64.split_three by simp
  ultimately show ?thesis
    using hb pb assms(3,4)
    by (simp add: authentic_def b64_decode_encode sign_header_def)
qed

lemma signer_own_key: "verify_keys (new_signer_with_keys secret kid previous) kid = Some secret"
  by (simp add: new_signer_with_keys_def)

lemma signer_previous_key:
  "kid' \<noteq> [] \<Longrightarrow> kid' \<noteq> kid \<Longrightarrow> previous kid' = Some secret' \<Longrightarrow>
     verify_keys (new_signer_with_keys secret kid previous) kid' = Some secret'"
  by (simp add: new_signer_with_keys_def)

lemma signer_unknown_key:
  "kid' \<noteq> kid \<Longrightarrow> previous kid' = None \<Longrightarrow>
     verify_keys (new_signer_with_keys secret kid previous) kid' = None"
  by (simp add: new_signer_with_keys_def)

lemma signer_fields [simp]:
  "signer_kid (new_signer_with_keys secret kid previous) = kid"
  "active_secret (new_signer_with_keys secret kid previous) = secret"
  by (simp_all add: new_signer_with_keys_def)

lemma verify_unknown_key:
  assumes "encodable c" and "utf8_valid (signer_kid s)" and "signer_kid s \<noteq> []"
    and "verify_keys v (signer_kid s) = None" and "sign s c = Inr tok"
  shows "verify_token v tok now = Inl UnknownKey"
proof -
  obtain hb pb where hb: "marshal_header (sign_header s) = Some hb"
      "unmarshal_header hb = Some (sign_header s)"
    and pb: "marshal_claims c = Some pb" "unmarshal_claims pb = Some c"
    using unmarshal_marshal_claims [OF assms(1)] unmarshal_marshal_sign_header [OF assms(2)]
    by (auto simp: bind_eq_Some_conv)
  let ?p0 = "b64_encode (bytes_of hb)" and ?p1 = "b64_encode (bytes_of pb)"
  let ?sig = "mac_with_key (active_secret s) (?p0 @ ''.'' @ ?p1)"
  have "tok = ?p0 @ ''.'' @ ?p1 @ ''.'' @ b64_encode ?sig"
    using assms(5) by (simp add: sign_def hb pb Let_def)
  moreover have "split_on CHR ''.'' (?p0 @ ''.'' @ ?p1 @ ''.'' @ b64_encode ?sig)
      = [?p0, ?p1, b64_encode ?sig]"
    using b64.split_three by simp
  ultimately show ?thesis
    using hb assms(3,4) by (simp add: verify_token_def b64_decode_encode sign_header_def)
qed

subsection \<open>Minting\<close>

definition minted_claims ::
  "bytes \<Rightarrow> instant \<Rightarrow> string \<Rightarrow> string \<Rightarrow> string \<Rightarrow> string \<Rightarrow> string \<Rightarrow> int \<Rightarrow> duration \<Rightarrow> token_claims"
where
  "minted_claims rnd now sk ac h b kind score ttl =
     \<lparr>tc_issuer = ''berryshield'', tc_audience = ''siteverify'', tc_site_key = sk, tc_action = ac,
      tc_hostname = h, tc_jti = b64_encode rnd, tc_issued_at = unix now,
      tc_expires_at = unix (now + ttl), tc_risk_score = score, tc_risk_bucket = risk_bucket score,
      tc_challenge_kind = kind, tc_ip_bind = b\<rparr>"

lemma mint_Inr:
  "mint r now s sk ac h b kind score ttl = Inr (tok, c) \<longleftrightarrow>
     (\<exists>rnd. read_random 18 r = Some rnd \<and> c = minted_claims rnd now sk ac h b kind score ttl \<and> sign s c = Inr tok)"
  by (cases "read_random 18 r") (auto simp: mint_def new_jti_def Let_def bind_err_Inr minted_claims_def)

lemma minted_claims_current:
  assumes "rnd \<noteq> []" "sk \<noteq> []" "ac \<noteq> []" "h \<noteq> []" and "now \<le> t" and "t < time_unix (unix (now + ttl))"
  shows "claims_current t (minted_claims rnd now sk ac h b kind score ttl)"
  using assms unix_mono [of now t] by (simp add: claims_current_def minted_claims_def)

lemma b64_html_safe: "list_all html_safe (b64_encode bs)"
proof -
  have "b64_alphabet c \<Longrightarrow> html_safe c" for c
    by (auto simp: b64_alphabet_def b64_val_def html_safe_def Let_def split: if_splits)
  then show ?thesis using b64_encode_alphabet [of bs] by (auto simp: list_all_iff)
qed

lemma minted_claims_encodable:
  assumes "utf8_valid sk" "utf8_valid ac" "utf8_valid h" "utf8_valid b" "utf8_valid kind" "int64_range score"
    and "int64_range (unix now)" "int64_range (unix (now + ttl))"
  shows "encodable (minted_claims rnd now sk ac h b kind score ttl)"
  using assms b64_encode_ascii [of rnd]
  by (simp add: encodable_def minted_claims_def risk_bucket_def ascii_simps)

lemma mint_verifies:
  assumes "mint r now s sk ac h b kind score ttl = Inr (tok, c)"
    and "encodable c" and "utf8_valid (signer_kid s)" and "signer_kid s \<noteq> []"
    and "verify_keys v (signer_kid s) = Some (active_secret s)"
    and "sk \<noteq> []" "ac \<noteq> []" "h \<noteq> []"
    and "now \<le> t" and "t < time_unix (unix (now + ttl))"
  shows "verify_token v tok t = Inr c"
proof -
  obtain rnd where rnd: "read_random 18 r = Some rnd"
    and c: "c = minted_claims rnd now sk ac h b kind score ttl" and "sign s c = Inr tok"
    using assms(1) by (auto simp: mint_Inr)
  with sign_authentic [OF assms(2-5)] have "authentic v tok c" by simp
  moreover have "claims_current t c"
    using assms(6-10) length_read_random [OF rnd] unfolding c
    by (intro minted_claims_current) auto
  ultimately show ?thesis by (simp add: verify_token_iff)
qed

end
