(* ===== verification/Decoding.thy ===== *)
theory Decoding
  imports JsonData
begin

text \<open>
  What decoding guarantees: whatever the bytes of a JSON text are, every string that is decoded from
  it is well-formed UTF-8, since an ill-formed sequence and half of a surrogate pair become U+FFFD,
  every integer is within its type, and every floating-point number is finite.
\<close>

subsection \<open>What a literal stands for is UTF-8\<close>

lemma utf8_valid_append: "utf8_valid s \<Longrightarrow> utf8_valid t \<Longrightarrow> utf8_valid (s @ t)"
proof (induction s rule: utf8_valid.induct)
  case (1 s)
  show ?case
  proof (cases "s = []")
    case False
    with "1.prems"(1) have n: "rune_size s \<noteq> 0" "utf8_valid (drop (rune_size s) s)"
      by (subst (asm) utf8_valid.simps; simp split: if_splits)+
    with "1.IH" False "1.prems"(2) have "utf8_valid (drop (rune_size s) s @ t)" by simp
    with n(1) rune_size_le [of s] show ?thesis
      by (subst utf8_valid.simps) (simp add: rune_size_append)
  qed (use "1.prems" in simp)
qed

lemma utf8_valid_whole: "rune_size s = length s \<Longrightarrow> utf8_valid s"
  by (subst utf8_valid.simps) simp

lemma utf8_valid_rune: "rune_size s \<noteq> 0 \<Longrightarrow> utf8_valid (take (rune_size s) s)"
  using rune_size_prefix [of s "rune_size s" "rune_size s" "[]"] rune_size_le [of s]
  by (intro utf8_valid_whole) simp

lemma of_char_byte: "n < 256 \<Longrightarrow> (of_char (char_of n) :: nat) = n"
  by simp

lemma byte_in_char [simp]: "n < 256 \<Longrightarrow> byte_in lo hi (char_of n) \<longleftrightarrow> lo \<le> n \<and> n \<le> hi"
  by (simp add: byte_in_def)

lemma utf8_valid_replacement: "utf8_valid replacement_char"
  by (rule utf8_valid_whole) (simp add: replacement_char_def rune_size.simps rune_lead_def byte_in_def)

lemma utf8_valid_encode_rune: "utf8_valid (encode_rune r)"
proof -
  let ?c = "r mod 64" and ?b = "r div 64 mod 64" and ?a = "r div 4096 mod 64"
  have low: "?c < 64" "?b < 64" "?a < 64" by simp_all
  consider "r < 0x80" | "0x80 \<le> r" "r < 0x800"
    | "0x800 \<le> r" "0xD800 \<le> r \<and> r < 0xE000 \<or> r > 0x10FFFF"
    | "0x800 \<le> r" "\<not> (0xD800 \<le> r \<and> r < 0xE000)" "r < 0x10000"
    | "0x10000 \<le> r" "r \<le> 0x10FFFF" by linarith
  then show ?thesis
  proof cases
    case 1
    then show ?thesis by (intro utf8_valid_ascii) (simp add: encode_rune_def is_ascii_def)
  next
    case 2
    then have "2 \<le> r div 64" "r div 64 < 32" by auto
    with 2 low show ?thesis
      by (intro utf8_valid_whole) (simp add: encode_rune_def rune_size.simps rune_lead_def)
  next
    case 3
    then show ?thesis by (auto simp: encode_rune_def utf8_valid_replacement)
  next
    case 4
    let ?h = "r div 4096"
    have "?h = r div 64 div 64" by (simp flip: div_mult2_eq)
    then have h: "?h < 16" "r div 64 = 64 * ?h + ?b" using 4 by simp_all
    have "?h = 0 \<Longrightarrow> 32 \<le> ?b" "?h = 13 \<Longrightarrow> ?b < 32" using 4 h by auto
    with 4 low h show ?thesis
      by (intro utf8_valid_whole) (auto simp: encode_rune_def rune_size.simps rune_lead_def)
  next
    case 5
    let ?h = "r div 262144"
    have "?h = r div 4096 div 64" by (simp flip: div_mult2_eq)
    then have h: "?h \<le> 4" "r div 4096 = 64 * ?h + ?a" using 5 by simp_all
    have "?h = 0 \<Longrightarrow> 16 \<le> ?a" "?h \<le> 3 \<or> ?h = 4 \<and> ?a < 16" using 5 h by auto
    with 5 low h show ?thesis
      by (intro utf8_valid_whole) (auto simp: encode_rune_def rune_size.simps rune_lead_def)
  qed
qed

lemma simple_escape_ascii:
  assumes "simple_escape e = Some c"
  shows "is_ascii c"
proof -
  have "c \<in> {CHR 0x08, CHR 0x0C, CHR 0x0A, CHR 0x0D, CHR 0x09} \<or> c \<in> {quote_mark, backslash, CHR ''/'', CHR 0x27}"
    using assms unfolding simple_escape_def by (simp only: option.inject split: if_splits) simp_all
  then show ?thesis by (elim disjE insertE emptyE) (simp_all add: is_ascii_def)
qed

lemma utf8_valid_ascii_Cons: "is_ascii c \<Longrightarrow> utf8_valid s \<Longrightarrow> utf8_valid (c # s)"
  using utf8_valid_append [of "[c]" s] by (simp add: utf8_valid_ascii)

lemma utf8_valid_unquote: "utf8_valid (unquote s)"
proof (induction s rule: unquote.induct)
  case (2 c s)
  show ?case
  proof (cases "c = backslash")
    case True
    note eq = unquote.simps(2) [of c s, unfolded if_P [OF True]]
    show ?thesis
    proof (cases "s = [] \<or> hd s \<noteq> CHR ''u''")
      case True
      then show ?thesis
        using "2.IH"(1) [OF \<open>c = backslash\<close>] unfolding eq
        by (auto split: option.split intro: utf8_valid_ascii_Cons simple_escape_ascii)
    next
      case u: False
      show ?thesis
      proof (cases "read_u4 (tl s)")
        case None
        with u show ?thesis unfolding eq by simp
      next
        case (Some r)
        have ne: "s \<noteq> []" "\<not> hd s \<noteq> CHR ''u''" using u by auto
        note IH = "2.IH"(2-4) [OF True ne Some]
        show ?thesis
        proof (cases "0xD800 \<le> r \<and> r < 0xE000")
          case sur: True
          show ?thesis
            using u IH(1,2) [OF sur] unfolding eq
            by (cases "if r < 0xDC00 then low_surrogate (drop 5 s) else None")
              (simp_all add: Some sur utf8_valid_append utf8_valid_encode_rune utf8_valid_replacement)
        next
          case False
          then show ?thesis
            unfolding eq if_not_P [OF ne(1)] if_not_P [OF ne(2)] Some option.case if_not_P [OF False]
            by (intro utf8_valid_append utf8_valid_encode_rune IH(3) [OF False])
        qed
      qed
    qed
  next
    case False
    note eq = unquote.simps(2) [of c s, unfolded if_not_P [OF False]]
    show ?thesis
      using "2.IH"(5,6) [OF False] unfolding eq
      by (cases "rune_size (c # s) = 0")
        (simp_all add: utf8_valid_append utf8_valid_replacement utf8_valid_rune del: take_Suc_Cons)
  qed
qed simp

subsection \<open>What the scanner collects is UTF-8\<close>

fun clean_json :: "json \<Rightarrow> bool" where
  "clean_json (JStr s) = utf8_valid s"
| "clean_json (JArr vs) = list_all clean_json vs"
| "clean_json (JObj kvs) = list_all (\<lambda>kv. utf8_valid (fst kv) \<and> clean_json (snd kv)) kvs"
| "clean_json v = True"

fun clean_frame :: "frame \<Rightarrow> bool" where
  "clean_frame (InArray vs) = list_all clean_json vs"
| "clean_frame (InObject kvs) = list_all (\<lambda>kv. utf8_valid (fst kv) \<and> clean_json (snd kv)) kvs"
| "clean_frame (InMember kvs k) = (utf8_valid k \<and> list_all (\<lambda>kv. utf8_valid (fst kv) \<and> clean_json (snd kv)) kvs)"

fun clean_mode :: "mode \<Rightarrow> bool" where
  "clean_mode (InWord w v) = clean_json v"
| "clean_mode m = True"

fun clean_progress :: "progress \<Rightarrow> bool" where
  "clean_progress (More st m) = (list_all clean_frame st \<and> clean_mode m)"
| "clean_progress (Ended v used) = clean_json v"
| "clean_progress Malformed = True"

lemma clean_attach: "clean_json v \<Longrightarrow> list_all clean_frame st \<Longrightarrow> clean_progress (attach v st)"
  by (induction v st rule: attach.induct) auto

lemma clean_attach_string: "utf8_valid s \<Longrightarrow> list_all clean_frame st \<Longrightarrow> clean_progress (attach_string s st)"
  by (cases "(s, st)" rule: attach_string.cases) (auto simp: clean_attach)

lemma clean_end_value: "list_all clean_frame st \<Longrightarrow> clean_progress (end_value st c)"
  by (cases "(st, c)" rule: end_value.cases) (auto simp: clean_attach)

lemma clean_begin_value: "list_all clean_frame st \<Longrightarrow> clean_progress (begin_value st c)"
  by (simp add: begin_value_def open_frame_def)

lemma clean_step:
  assumes "list_all clean_frame st" and "clean_mode m"
  shows "clean_progress (step st m c)"
proof (cases m)
  case (InNumber n lit)
  have "clean_progress (attach (JNum (rev lit)) st)" using assms(1) by (intro clean_attach) simp_all
  then show ?thesis using assms(1)
    by (cases "attach (JNum (rev lit)) st") (auto simp: InNumber clean_end_value split: option.split)
next
  case (InWord w v)
  then show ?thesis using assms by (simp add: clean_attach)
qed (use assms in \<open>simp_all add: clean_begin_value clean_end_value clean_attach_string utf8_valid_unquote\<close>)

lemma clean_feed:
  "list_all clean_frame st \<Longrightarrow> clean_mode m \<Longrightarrow> feed st m s = Scanned v rest b \<Longrightarrow> clean_json v"
proof (induction st m s rule: feed.induct)
  case (1 st m)
  then show ?case by (auto split: mode.splits if_splits)
next
  case (2 st m c s)
  with clean_step [OF "2.prems"(1,2), of c] show ?case
    by (auto split: progress.splits)
qed

lemma clean_next_value: "next_value b = Some (v, rest) \<Longrightarrow> clean_json v"
  using clean_feed [of "[]" BeginValue "fst b"] by (auto simp: next_value_def split: scanned.splits if_splits)

subsection \<open>Decoders that keep a property\<close>

definition keeps :: "('s \<Rightarrow> bool) \<Rightarrow> 's decoder \<Rightarrow> bool" where
  "keeps I d \<longleftrightarrow> (\<forall>v s t. clean_json v \<longrightarrow> I s \<longrightarrow> d v s = Some t \<longrightarrow> I t)"

lemma keepsD: "keeps I d \<Longrightarrow> clean_json v \<Longrightarrow> I s \<Longrightarrow> d v s = Some t \<Longrightarrow> I t"
  by (auto simp: keeps_def)

lemma keeps_struct:
  assumes "\<forall>f\<in>set fs. keeps I (snd f)"
  shows "keeps I (dec_struct strict fs)"
proof -
  have d: "keeps I d" if "find_field fs k = Some d" for k d
    using that assms by (auto simp: find_field_def find_Some_iff) (metis nth_mem snd_conv)
  have m: "dec_members strict fs kvs s = Some t \<Longrightarrow> clean_json (JObj kvs) \<Longrightarrow> I s \<Longrightarrow> I t" for kvs s t
  proof (induction kvs arbitrary: s)
    case (Cons kv kvs)
    then show ?case
      by (cases kv) (auto split: option.splits if_splits simp: bind_eq_Some_conv dest: keepsD [OF d])
  qed simp
  show ?thesis unfolding keeps_def
  proof (intro allI impI)
    fix v s t assume v: "clean_json v" "I s" "dec_struct strict fs v s = Some t"
    then show "I t" using m by (cases v) auto
  qed
qed

lemma keeps_field:
  assumes "\<And>x s. I (upd (\<lambda>_. x) s) = I s" shows "keeps I (field upd get d)"
  using assms by (auto simp: keeps_def field_def)

lemma dec_string_clean: "dec_string v x = Some y \<Longrightarrow> clean_json v \<Longrightarrow> utf8_valid x \<Longrightarrow> utf8_valid y"
  by (cases v) auto

subsection \<open>Scalars hold values of their types\<close>

definition f64_finite :: "f64 \<Rightarrow> bool" where
  "f64_finite x \<longleftrightarrow> \<not> f64_is_nan x \<and> \<not> f64_is_inf x"

lemma f64_finite_iff: "f64_finite x \<longleftrightarrow> f64_magnitude x < 0x7FF0000000000000"
  unfolding f64_finite_def f64_is_nan_def f64_is_inf_def by (auto simp: not_less order.order_iff_strict)

lemma f64_magnitude_mod: "uint (f64_magnitude x) = uint x mod 2 ^ 63"
proof -
  have "f64_magnitude x = take_bit 63 x"
    by (simp only: f64_magnitude_def take_bit_eq_mask mask_eq_exp_minus_1) simp
  show ?thesis unfolding \<open>f64_magnitude x = take_bit 63 x\<close> unsigned_take_bit_eq by (simp add: take_bit_eq_mod)
qed

lemma f64_finite_of_bits:
  assumes "0 \<le> b" and "b < 0x7FF0000000000000"
  shows "f64_finite (word_of_int ((if neg then 2 ^ 63 else 0) + b))"
proof -
  have "uint (f64_magnitude (word_of_int ((if neg then 2 ^ 63 else 0) + b))) = b"
    using assms unfolding f64_magnitude_mod uint_word_of_int by (cases neg) (simp_all add: mod_mod_cancel)
  then show ?thesis using assms(2) by (simp add: f64_finite_iff word_less_def)
qed

lemma f64_of_ratio_finite:
  assumes "f64_of_ratio neg p q = Some x" and "0 \<le> p" and "0 < q"
  shows "f64_finite x"
proof -
  let ?s = "ratio_ulp p q"
  define num where "num = (if ?s \<ge> 0 then p else p * 2 ^ nat (- ?s))"
  define den where "den = (if ?s \<ge> 0 then q * 2 ^ nat ?s else q)"
  define m where "m = (if 2 * (num mod den) > den \<or> (2 * (num mod den) = den \<and> odd (num div den))
      then num div den + 1 else num div den)"
  define b where "b = (if p = 0 then 0 else (?s + 1074) * 2 ^ 52 + m)"
  have "0 \<le> num" "0 < den" using assms(2,3) by (simp_all add: num_def den_def)
  then have "0 \<le> num div den" by (simp add: pos_imp_zdiv_nonneg_iff)
  then have m: "0 \<le> m" by (simp add: m_def)
  have s: "- 1074 \<le> ?s" by (simp add: ratio_ulp_def Let_def)
  have "0 \<le> b" using m s by (simp add: b_def)
  moreover have "b < 0x7FF0000000000000 \<and> x = word_of_int ((if neg then 2 ^ 63 else 0) + b)"
    using assms(1) unfolding f64_of_ratio_def Let_def num_def [symmetric] den_def [symmetric] m_def [symmetric] b_def [symmetric]
    by (simp split: if_splits)
  ultimately show ?thesis using f64_finite_of_bits by blast
qed

lemma parse_float64_finite: "parse_float64 s = Some x \<Longrightarrow> f64_finite x"
proof -
  have "f64_of_ratio neg (int m * 10 ^ e) 1 = Some x \<Longrightarrow> f64_finite x" "f64_of_ratio neg (int m) (10 ^ e) = Some x \<Longrightarrow> f64_finite x"
    for neg m e by (simp_all add: f64_of_ratio_finite)
  then show "parse_float64 s = Some x \<Longrightarrow> f64_finite x"
    unfolding parse_float64_def Let_def by (simp only: split: if_splits)
qed

lemma parse_int64_range: "parse_int64 s = Some i \<Longrightarrow> int64_range i"
  by (auto simp: parse_int64_def Let_def split: if_splits)

lemma dec_float_finite: "dec_float v x = Some y \<Longrightarrow> f64_finite x \<Longrightarrow> f64_finite y"
  by (cases v) (auto intro: parse_float64_finite)

lemma dec_int_range: "dec_int v x = Some y \<Longrightarrow> int64_range x \<Longrightarrow> int64_range y"
  by (cases v) (auto intro: parse_int64_range)

lemma dec_cells_clean:
  "dec_cells vs cells = Some ys \<Longrightarrow> list_all clean_json vs \<Longrightarrow> list_all utf8_valid cells \<Longrightarrow> list_all utf8_valid ys"
proof (induction vs cells arbitrary: ys rule: dec_cells.induct)
  case (2 v vs cells)
  then show ?case
    by (cases cells) (auto simp: bind_eq_Some_conv dec_string_clean)
qed simp

lemma dec_strings_clean:
  assumes "dec_strings v (xs, cells) = Some (ys, cells')" and "clean_json v"
    and "list_all utf8_valid xs" "list_all utf8_valid cells"
  shows "list_all utf8_valid ys \<and> list_all utf8_valid cells'"
  using assms
  by (cases v) (auto simp: list_all_append list_all_iff dest!: in_set_dropD dec_cells_clean [unfolded list_all_iff] split: if_splits)

lemmas dec_typed = dec_string_clean dec_int_range dec_float_finite

lemma keeps_pairD:
  "keeps (\<lambda>s. P (fst s) \<and> Q (snd s)) d \<Longrightarrow> d v (x, y) = Some (x', y') \<Longrightarrow> clean_json v \<Longrightarrow> P x \<Longrightarrow> Q y \<Longrightarrow> P x' \<and> Q y'"
  using keepsD [of "\<lambda>s. P (fst s) \<and> Q (snd s)" d v "(x, y)" "(x', y')"] by simp

end
