(* ===== verification/Risk.thy ===== *)
theory Risk
  imports Config Decoding
begin

text \<open>
  \<open>services/gateway/internal/risk/scorer.go\<close> and \<open>remote.go\<close>: the local scorer and the client of
  the remote one.

  The scorer adds its points in a \<open>float64\<close>. Every double it can reach is a non-negative
  multiple of \<open>2 ^ -54\<close> (the weight 0.48 is the double \<open>8646911284551352 * 2 ^ -54\<close>, all other
  weights are integers), so a double is modelled here by the natural number of these units,
  and every operation is followed by \<open>f64_round\<close>: rounding to 53 significant bits, ties to
  even, which is what IEEE 754 prescribes.
\<close>

subsection \<open>Rounding to a double\<close>

fun bit_length :: "nat \<Rightarrow> nat" where
  "bit_length n = (if n = 0 then 0 else Suc (bit_length (n div 2)))"

declare bit_length.simps [simp del]

definition round_at :: "nat \<Rightarrow> nat \<Rightarrow> nat" where
  "round_at s x =
     (let q = x div 2 ^ s; r = x mod 2 ^ s
      in if 2 * r > 2 ^ s \<or> (2 * r = 2 ^ s \<and> odd q) then (q + 1) * 2 ^ s else q * 2 ^ s)"

definition f64_round :: "nat \<Rightarrow> nat" where
  "f64_round x = (if bit_length x \<le> 53 then x else round_at (bit_length x - 53) x)"

definition f64_unit :: nat where
  "f64_unit = 2 ^ 54"

definition weight_048 :: nat where
  "weight_048 = 8646911284551352"

text \<open>What a rule adds: a constant number of points, or the reputation score times 0.48.\<close>

datatype weight = Points nat | ReputationShare int

text \<open>\<open>float64(n)\<close> of an integer is again an integer, so the product with 0.48 before rounding
  is a whole number of units.\<close>

fun weight_units :: "weight \<Rightarrow> nat" where
  "weight_units (Points p) = p * f64_unit"
| "weight_units (ReputationShare k) = f64_round (f64_round (nat k) * weight_048)"

subsection \<open>The local scorer\<close>

definition automation_needles :: "string list" where
  "automation_needles =
     [''headlesschrome'', ''phantomjs'', ''python-requests'', ''curl/'', ''wget/'']"

definition normalize_platform :: "unicode \<Rightarrow> string \<Rightarrow> string" where
  "normalize_platform uc v0 =
     (let v = to_lower uc (trim_set [CHR 0x22, CHR 0x27, CHR 0x20] v0) in
      if sublist ''win'' v then ''windows''
      else if sublist ''mac'' v then ''macos''
      else if sublist ''android'' v then ''android''
      else if sublist ''ios'' v \<or> sublist ''iphone'' v \<or> sublist ''ipad'' v then ''ios''
      else if sublist ''linux'' v then ''linux''
      else [])"

text \<open>Integer division by a positive constant truncates towards zero.\<close>

definition quot2 :: "int \<Rightarrow> int" where
  "quot2 x = (if x \<ge> 0 then x div 2 else - (- x div 2))"

text \<open>
  The rules in the order of the code: condition, weight, tag. The first group is about the
  client, the second about the network.
\<close>

definition client_rules :: "unicode \<Rightarrow> risk_input \<Rightarrow> (bool \<times> weight \<times> string) list" where
  "client_rules uc i =
     (let c = client (ri_telemetry i); b = behavior c;
          ua = to_lower uc (ri_user_agent i @ '' '' @ cs_user_agent c);
          a = normalize_platform uc (cs_platform c);
          h = normalize_platform uc (ri_sec_ch_platform i)
      in [(webdriver c, Points 32, ''webdriver-exposed''),
          (trim_space (ri_user_agent i) = [] \<or> trim_space (cs_user_agent c) = [],
           Points 18, ''missing-user-agent''),
          (list_ex (\<lambda>n. sublist n ua) automation_needles, Points 30, ''automation-user-agent''),
          (\<not> secure_context c, Points 5, ''non-secure-context''),
          (\<not> webcrypto_available c, Points 5, ''webcrypto-unavailable''),
          (\<not> wasm_available c, Points 3, ''wasm-unavailable''),
          (hardware_concurrency c < 0 \<or> hardware_concurrency c > 256,
           Points 10, ''invalid-hardware-concurrency''),
          (screen_width_bucket c < 0 \<or> screen_height_bucket c < 0, Points 8, ''invalid-screen''),
          (languages c = [] \<and> trim_space (ri_accept_language i) \<noteq> [],
           Points 5, ''language-inconsistency''),
          (cs_platform c \<noteq> [] \<and> ri_sec_ch_platform i \<noteq> [] \<and> a \<noteq> [] \<and> h \<noteq> [] \<and> a \<noteq> h,
           Points 12, ''platform-inconsistency''),
          (dwell_ms b > 1500 \<and> pointer_events b = 0 \<and> key_events b = 0,
           Points 4, ''no-observed-interaction''),
          (pointer_events b > 5000 \<and> dwell_ms b < 1000, Points 8, ''impossible-pointer-density''),
          (f64_is_nan (pointer_variance b) \<or> f64_is_inf (pointer_variance b),
           Points 15, ''invalid-behavior-metrics'')])"

definition network_rules :: "risk_input \<Rightarrow> site \<Rightarrow> (bool \<times> weight \<times> string) list" where
  "network_rules i site =
     (let rep = ri_reputation i
      in [(rep_tor rep, Points 22, ''tor-exit''),
          (rep_hosting rep, Points 10, ''hosting-network''),
          (rep_proxy rep \<or> rep_vpn rep, Points 7, ''proxy-or-vpn''),
          (rep_abuse_score rep \<ge> 80, Points 12, ''high-abuse-score''),
          (ri_request_rate i > quot2 (rate_limit_per_minute site),
           Points 8, ''elevated-request-rate'')])"

definition score_rules :: "unicode \<Rightarrow> risk_input \<Rightarrow> site \<Rightarrow> (bool \<times> weight \<times> string) list" where
  "score_rules uc i site =
     client_rules uc i
     @ [(rep_score (ri_reputation i) > 0, ReputationShare (rep_score (ri_reputation i)),
         ''network-reputation'')]
     @ network_rules i site"

text \<open>One \<open>if\<close> of the code, with its call of \<open>add\<close>.\<close>

fun apply_rule :: "bool \<times> weight \<times> string \<Rightarrow> nat \<times> string list \<Rightarrow> nat \<times> string list" where
  "apply_rule (fires, w, tag) (score, tags) =
     (if fires then (f64_round (score + weight_units w), tags @ [tag]) else (score, tags))"

fun unique_from :: "string list \<Rightarrow> string list \<Rightarrow> string list" where
  "unique_from seen [] = []"
| "unique_from seen (v # vs) =
     (if v \<in> set seen then unique_from seen vs else v # unique_from (v # seen) vs)"

definition unique :: "string list \<Rightarrow> string list" where
  "unique vs = unique_from [] vs"

text \<open>\<open>int(math.Round(math.Max(0, math.Min(100, score))))\<close>\<close>

definition clamp_round :: "nat \<Rightarrow> int" where
  "clamp_round score = int ((min (100 * f64_unit) score + f64_unit div 2) div f64_unit)"

definition decide :: "thresholds \<Rightarrow> int \<Rightarrow> string" where
  "decide t n =
     (if n \<ge> th_block t then ''block''
      else if n \<ge> th_interactive t then ''interactive''
      else if n \<ge> th_pow t then ''pow''
      else ''allow'')"

definition local_score :: "unicode \<Rightarrow> risk_input \<Rightarrow> site \<Rightarrow> risk_decision" where
  "local_score uc i site =
     (let (score, tags) = fold apply_rule (score_rules uc i site) (0, []);
          n = clamp_round score
      in \<lparr>rd_score = n, rd_decision = decide (site_thresholds site) n, rd_tags = unique tags\<rparr>)"

subsection \<open>The remote scorer\<close>

record remote_site =
  rs_rate_limit_per_minute :: int
  rs_thresholds :: thresholds

text \<open>
  What the HTTP client reports for a request to the risk engine: the request cannot be built,
  the exchange fails (unreachable, timeout), or a status with a body. The engine is given the values of
  the payload, of which the posted text is a function.
\<close>

datatype http_outcome = BuildFailed | TransportFailed | Answer int stream

type_synonym risk_service = "string \<Rightarrow> risk_input \<times> remote_site \<Rightarrow> http_outcome"

definition dec_tags :: "(risk_decision \<times> string list) decoder" where
  "dec_tags v s =
     map_option (\<lambda>x. ((fst s)\<lparr>rd_tags := fst x\<rparr>, snd x)) (dec_strings v (rd_tags (fst s), snd s))"

definition decision_fields :: "(risk_decision \<times> string list) fields" where
  "decision_fields =
     [(''score'', on_fst (field rd_score_update rd_score dec_int)),
      (''decision'', on_fst (field rd_decision_update rd_decision dec_string)),
      (''tags'', dec_tags)]"

definition decode_decision :: "stream \<Rightarrow> risk_decision option" where
  "decode_decision b =
     Option.bind (next_value b) (\<lambda>x. map_option fst
       (dec_struct False decision_fields (fst x) (\<lparr>rd_score = 0, rd_decision = [], rd_tags = []\<rparr>, [])))"

definition remote_score ::
  "risk_service \<Rightarrow> string \<Rightarrow> (risk_input \<Rightarrow> site \<Rightarrow> risk_decision) \<Rightarrow> risk_input \<Rightarrow> site \<Rightarrow> risk_decision"
where
  "remote_score service url fallback i site =
     (let payload = (i, \<lparr>rs_rate_limit_per_minute = rate_limit_per_minute site,
                         rs_thresholds = site_thresholds site\<rparr>)
      in case service (url @ ''/v1/score'') payload of
           BuildFailed \<Rightarrow> fallback i site
         | TransportFailed \<Rightarrow> fallback i site
         | Answer status body \<Rightarrow>
             if status \<noteq> 200 then fallback i site
             else (case decode_decision body of
                     None \<Rightarrow> fallback i site
                   | Some out \<Rightarrow> if rd_decision out = [] then fallback i site else out))"

lemma remote_score_cases:
  "remote_score service url fallback i site = fallback i site
   \<or> (\<exists>b out. service (url @ ''/v1/score'') (i, \<lparr>rs_rate_limit_per_minute = rate_limit_per_minute site,
          rs_thresholds = site_thresholds site\<rparr>) = Answer 200 b \<and> decode_decision b = Some out
        \<and> rd_decision out \<noteq> [] \<and> remote_score service url fallback i site = out)"
  by (cases "service (url @ ''/v1/score'') (i, \<lparr>rs_rate_limit_per_minute = rate_limit_per_minute site,
          rs_thresholds = site_thresholds site\<rparr>)")
    (simp_all add: remote_score_def split: option.split)

text \<open>The scores of the engine are read as 64-bit integers.\<close>

lemma decode_decision_range: "decode_decision b = Some out \<Longrightarrow> int64_range (rd_score out)"
proof -
  have "keeps (\<lambda>s. int64_range (rd_score (fst s))) (dec_struct False decision_fields)"
    by (rule keeps_struct)
      (auto simp: decision_fields_def keeps_def decoder_defs dec_tags_def dest: dec_int_range)
  then show "decode_decision b = Some out \<Longrightarrow> int64_range (rd_score out)"
    by (auto simp: decode_decision_def bind_eq_Some_conv int64_range_def dest!: clean_next_value keepsD)
qed

subsection \<open>Rounding error\<close>

lemma bit_length_0 [simp]: "bit_length 0 = 0"
  by (simp add: bit_length.simps)

lemma bit_length_pos: "k < bit_length x \<Longrightarrow> 0 < x"
  by (cases "x = 0") simp_all

lemma bit_length_bounds: "x < 2 ^ bit_length x" "0 < x \<Longrightarrow> 2 ^ (bit_length x - 1) \<le> x"
proof (induction x rule: bit_length.induct)
  case (1 n)
  {
    case 1
    show ?case
    proof (cases "n = 0")
      case False
      with "1.IH"(1) have "n div 2 < 2 ^ bit_length (n div 2)" by simp
      with False show ?thesis by (subst bit_length.simps) simp
    qed simp
  next
    case 2
    show ?case
    proof (cases "n div 2 = 0")
      case True
      then have "n = 1" using 2 by simp
      then show ?thesis by (simp add: bit_length.simps)
    next
      case False
      with "1.IH"(2) have "2 ^ (bit_length (n div 2) - 1) \<le> n div 2" by simp
      moreover have "bit_length (n div 2) \<noteq> 0" using False by (subst bit_length.simps) simp
      ultimately have "2 ^ bit_length (n div 2) \<le> n"
        by (cases "bit_length (n div 2)") auto
      with 2 show ?thesis by (subst bit_length.simps) simp
    qed
  }
qed

lemma round_at_error: "2 * round_at s x \<le> 2 * x + 2 ^ s" "2 * x \<le> 2 * round_at s x + 2 ^ s"
proof -
  define q r where "q = x div 2 ^ s" and "r = x mod 2 ^ s"
  have x: "x = q * 2 ^ s + r" unfolding q_def r_def by (rule div_mult_mod_eq [symmetric])
  moreover have "r < 2 ^ s" by (simp add: r_def)
  ultimately show "2 * round_at s x \<le> 2 * x + 2 ^ s" "2 * x \<le> 2 * round_at s x + 2 ^ s"
    by (auto simp: round_at_def Let_def simp flip: q_def r_def)
qed

lemma f64_round_small: "x < 2 ^ 53 \<Longrightarrow> f64_round x = x"
proof -
  assume x: "x < 2 ^ 53"
  have "bit_length x \<le> 53"
  proof (rule ccontr)
    assume "\<not> bit_length x \<le> 53"
    then have "2 ^ 53 \<le> (2::nat) ^ (bit_length x - 1)" by (intro power_increasing) auto
    moreover have "0 < x" using \<open>\<not> bit_length x \<le> 53\<close> bit_length_pos [of 53 x] by simp
    ultimately show False using bit_length_bounds(2) [of x] x by linarith
  qed
  then show ?thesis by (simp add: f64_round_def)
qed

lemma f64_round_error: "2 ^ 53 * f64_round x \<le> (2 ^ 53 + 1) * x" "2 ^ 53 * x \<le> 2 ^ 53 * f64_round x + x"
proof -
  let ?s = "bit_length x - 53"
  have "2 ^ 53 * 2 ^ ?s \<le> 2 * x" if "53 < bit_length x"
  proof -
    have "0 < x" using that by (rule bit_length_pos)
    then have "2 ^ (bit_length x - 1) \<le> x" by (rule bit_length_bounds)
    moreover have "53 + ?s = Suc (bit_length x - 1)" using that by simp
    then have "(2::nat) ^ 53 * 2 ^ ?s = 2 * 2 ^ (bit_length x - 1)"
      by (simp only: flip: power_add power_Suc)
    ultimately show ?thesis by simp
  qed
  then show "2 ^ 53 * f64_round x \<le> (2 ^ 53 + 1) * x" "2 ^ 53 * x \<le> 2 ^ 53 * f64_round x + x"
    using round_at_error [where s = ?s and x = x] by (auto simp: f64_round_def not_le)
qed

lemma round_at_multiple: "x = q * 2 ^ s \<Longrightarrow> round_at s x = x"
  by (simp add: round_at_def Let_def)

lemma f64_round_multiple: "a < 2 ^ 53 \<Longrightarrow> f64_round (a * f64_unit) = a * f64_unit"
proof -
  assume a: "a < 2 ^ 53"
  let ?x = "a * f64_unit"
  have x: "?x < 2 ^ 107" using a by (simp add: f64_unit_def)
  have s: "bit_length ?x - 53 \<le> 54"
  proof (rule ccontr)
    assume *: "\<not> bit_length ?x - 53 \<le> 54"
    then have "2 ^ 107 \<le> (2::nat) ^ (bit_length ?x - 1)" by (intro power_increasing) auto
    moreover have "0 < ?x" using * bit_length_pos [of 53 ?x] by linarith
    ultimately show False using bit_length_bounds(2) [of ?x] x by linarith
  qed
  let ?s = "bit_length ?x - 53"
  have "f64_unit = 2 ^ (54 - ?s) * 2 ^ ?s"
    using s by (simp add: f64_unit_def flip: power_add)
  then have "?x = (a * 2 ^ (54 - ?s)) * 2 ^ ?s" by (simp only: mult.assoc)
  then have "round_at ?s ?x = ?x" by (rule round_at_multiple)
  then show ?thesis by (simp add: f64_round_def)
qed

lemma f64_round_ge_100: "100 * f64_unit \<le> x \<Longrightarrow> 100 * f64_unit \<le> f64_round x"
proof -
  assume x: "100 * f64_unit \<le> x"
  let ?s = "bit_length x - 53"
  let ?q = "x div 2 ^ ?s"
  have low: "?q * 2 ^ ?s \<le> round_at ?s x"
    by (auto simp: round_at_def Let_def)
  have "100 * f64_unit \<le> ?q * 2 ^ ?s"
  proof (cases "?s \<le> 56")
    case True
    have "100 * f64_unit = 25 * 2 ^ (56 - ?s) * 2 ^ ?s"
      using True by (simp add: f64_unit_def mult.assoc flip: power_add)
    then obtain t where t: "100 * f64_unit = t * 2 ^ ?s" by blast
    with x have "t \<le> ?q" by (simp add: less_eq_div_iff_mult_less_eq)
    then show ?thesis unfolding t by (rule mult_le_mono1)
  next
    case False
    then have "0 < x" using x by (simp add: f64_unit_def)
    then have "2 ^ (bit_length x - 1) \<le> x" by (rule bit_length_bounds)
    moreover have "bit_length x - 1 = 52 + ?s" using False by simp
    ultimately have "2 ^ 52 * 2 ^ ?s \<le> x" by (simp only: power_add)
    then have "2 ^ 52 \<le> ?q" by (simp add: less_eq_div_iff_mult_less_eq)
    moreover have "(2::nat) ^ 57 \<le> 2 ^ ?s" using False by (intro power_increasing) auto
    ultimately have "2 ^ 52 * 2 ^ 57 \<le> ?q * 2 ^ ?s" by (rule mult_le_mono)
    moreover have "100 * f64_unit \<le> 2 ^ 52 * 2 ^ 57" by (simp add: f64_unit_def)
    ultimately show ?thesis by (rule order_trans [rotated])
  qed
  with low x show ?thesis by (simp add: f64_round_def)
qed

subsection \<open>The score without floating point\<close>

text \<open>The same rules over exact hundredths of a point.\<close>

fun weight_hundredths :: "weight \<Rightarrow> int" where
  "weight_hundredths (Points p) = 100 * int p"
| "weight_hundredths (ReputationShare k) = 48 * k"

fun rule_sum :: "(bool \<times> weight \<times> string) list \<Rightarrow> int" where
  "rule_sum [] = 0"
| "rule_sum ((fires, w, tag) # rs) = (if fires then weight_hundredths w else 0) + rule_sum rs"

definition exact_score :: "unicode \<Rightarrow> risk_input \<Rightarrow> site \<Rightarrow> int" where
  "exact_score uc i site = min 100 ((rule_sum (score_rules uc i site) + 50) div 100)"

definition near :: "nat \<Rightarrow> int \<Rightarrow> int \<Rightarrow> bool" where
  "near u h err \<longleftrightarrow> \<bar>100 * int u - h * 2 ^ 54\<bar> \<le> err"

fun weight_small :: "weight \<Rightarrow> bool" where
  "weight_small (Points p) = True"
| "weight_small (ReputationShare k) = (0 \<le> k \<and> k \<le> 1000)"

lemma weight_hundredths_nonneg: "weight_small w \<Longrightarrow> 0 \<le> weight_hundredths w"
  by (cases w) simp_all

lemma f64_round_error_int:
  "2 ^ 53 * int (f64_round x) \<le> (2 ^ 53 + 1) * int x"
  "2 ^ 53 * int x \<le> 2 ^ 53 * int (f64_round x) + int x"
proof -
  have "int (2 ^ 53 * f64_round x) \<le> int ((2 ^ 53 + 1) * x)"
    using f64_round_error(1) [of x] by (rule of_nat_mono)
  then show "2 ^ 53 * int (f64_round x) \<le> (2 ^ 53 + 1) * int x"
    by (simp only: of_nat_mult of_nat_add of_nat_power of_nat_numeral of_nat_1)
  have "int (2 ^ 53 * x) \<le> int (2 ^ 53 * f64_round x + x)"
    using f64_round_error(2) [of x] by (rule of_nat_mono)
  then show "2 ^ 53 * int x \<le> 2 ^ 53 * int (f64_round x) + int x"
    by (simp only: of_nat_mult of_nat_add of_nat_power of_nat_numeral of_nat_1)
qed

lemma weight_near: "weight_small w \<Longrightarrow> near (weight_units w) (weight_hundredths w) 1000000"
proof (cases w)
  case (Points p)
  then show ?thesis by (simp add: near_def f64_unit_def)
next
  case (ReputationShare k)
  assume "weight_small w"
  with ReputationShare have k: "0 \<le> k" "k \<le> 1000" by simp_all
  define x where "x = nat k * weight_048"
  have "f64_round (nat k) = nat k" using k by (intro f64_round_small) simp
  then have u: "weight_units w = f64_round x" by (simp add: ReputationShare x_def)
  have x: "int x = k * 8646911284551352" using k by (simp add: x_def weight_048_def)
  note e = f64_round_error_int [of x]
  have h: "weight_hundredths w = 48 * k" by (simp add: ReputationShare)
  show ?thesis
    using e k unfolding near_def u h x abs_le_iff by simp
qed

lemma near_round:
  assumes "near x h err" and "0 \<le> h" and "h \<le> 100000" and "0 \<le> err" and "err \<le> 1000000000"
  shows "near (f64_round x) h (err + 1000000)"
proof -
  note e = f64_round_error_int [of x]
  show ?thesis
    using e assms unfolding near_def abs_le_iff by simp
qed

lemma near_add:
  "near u h err \<Longrightarrow> near v k err' \<Longrightarrow> near (u + v) (h + k) (err + err')"
  unfolding near_def by (simp add: algebra_simps)

fun rules_small :: "(bool \<times> weight \<times> string) list \<Rightarrow> bool" where
  "rules_small [] = True"
| "rules_small ((fires, w, tag) # rs) = ((fires \<longrightarrow> weight_small w) \<and> rules_small rs)"

lemma rule_sum_nonneg: "rules_small rs \<Longrightarrow> 0 \<le> rule_sum rs"
  by (induction rs rule: rules_small.induct) (auto simp: weight_hundredths_nonneg)

lemma fold_rules_near:
  assumes "rules_small rs" and "near u h err" and "0 \<le> h" and "h + rule_sum rs \<le> 100000"
    and "0 \<le> err" and "err + 2000000 * int (length rs) \<le> 1000000000"
  shows "near (fst (fold apply_rule rs (u, tags))) (h + rule_sum rs) (err + 2000000 * int (length rs))"
  using assms
proof (induction rs arbitrary: u h err tags rule: rules_small.induct)
  case 1
  then show ?case by simp
next
  case (2 fires w tag rs)
  have rs: "0 \<le> rule_sum rs" using 2(2) by (simp add: rule_sum_nonneg)
  show ?case
  proof (cases fires)
    case False
    with 2 have "near (fst (fold apply_rule rs (u, tags))) (h + rule_sum rs) (err + 2000000 * int (length rs))"
      by (intro "2.IH") simp_all
    with False show ?thesis by (simp add: near_def)
  next
    case True
    with 2(2) have w: "weight_small w" by simp
    have "near (u + weight_units w) (h + weight_hundredths w) (err + 1000000)"
      using 2(3) weight_near [OF w] by (rule near_add)
    then have "near (f64_round (u + weight_units w)) (h + weight_hundredths w) (err + 1000000 + 1000000)"
      using 2 True rs weight_hundredths_nonneg [OF w] by (intro near_round) simp_all
    then have "near (fst (fold apply_rule rs (f64_round (u + weight_units w), tags @ [tag])))
        (h + weight_hundredths w + rule_sum rs)
        (err + 1000000 + 1000000 + 2000000 * int (length rs))"
      using 2 True weight_hundredths_nonneg [OF w] by (intro "2.IH") simp_all
    then show ?thesis using True by (simp add: algebra_simps)
  qed
qed

lemma fold_rules_ge_100:
  "100 * f64_unit \<le> u \<Longrightarrow> 100 * f64_unit \<le> fst (fold apply_rule rs (u, tags))"
proof (induction rs arbitrary: u tags)
  case (Cons r rs)
  obtain fires w tag where r: "r = (fires, w, tag)" by (cases r)
  have "100 * f64_unit \<le> f64_round (u + weight_units w)"
    using Cons.prems by (intro f64_round_ge_100) simp
  with Cons r show ?case by simp
qed simp

lemma clamp_round_near:
  assumes "near u h 1000000000" and "0 \<le> h" and "4 dvd h"
  shows "clamp_round u = min 100 ((h + 50) div 100)"
proof -
  define N r where "N = (h + 50) div 100" and "r = (h + 50) mod 100"
  have h: "h + 50 = 100 * N + r" by (simp add: N_def r_def)
  obtain q where q: "h = 4 * q" using assms(3) by (rule dvdE)
  have "0 \<le> r" "r < 100" by (simp_all add: r_def)
  moreover have "r = 4 * (q + 12 - 25 * N) + 2" using h unfolding q by simp
  moreover have "2 \<le> 4 * m + 2 \<and> 4 * m + 2 \<le> 98" if "0 \<le> 4 * m + 2" "4 * m + 2 < 100" for m :: int
    using that by presburger
  ultimately have r: "2 \<le> r" "r \<le> 98" by blast+
  have "0 \<le> N" using assms(2) by (simp add: N_def)
  have "N * 2 ^ 54 \<le> int u + 2 ^ 53" "int u + 2 ^ 53 < (N + 1) * 2 ^ 54"
    using assms(1) h r unfolding near_def abs_le_iff by simp_all
  then have "(int u + 2 ^ 53) div 2 ^ 54 = N"
    by (intro int_div_pos_eq [where r = "int u + 2 ^ 53 - N * 2 ^ 54"]) (simp_all add: algebra_simps)
  moreover have "clamp_round u = min 100 ((int u + 2 ^ 53) div 2 ^ 54)"
  proof (cases "u \<le> 100 * f64_unit")
    case True
    then have "(int u + 2 ^ 53) div 2 ^ 54 \<le> (100 * 2 ^ 54 + 2 ^ 53) div 2 ^ 54"
      by (intro zdiv_mono1) (simp_all add: f64_unit_def)
    with True show ?thesis by (simp add: clamp_round_def f64_unit_def zdiv_int min_def)
  next
    case False
    then have "(100 * 2 ^ 54 + 2 ^ 53) div 2 ^ 54 \<le> (int u + 2 ^ 53) div 2 ^ 54"
      by (intro zdiv_mono1) (simp_all add: f64_unit_def)
    with False show ?thesis by (simp add: clamp_round_def f64_unit_def min_def)
  qed
  ultimately show ?thesis by (simp add: N_def)
qed

subsection \<open>The score is the exact one\<close>

lemma rule_sum_append [simp]: "rule_sum (rs @ rs') = rule_sum rs + rule_sum rs'"
  by (induction rs rule: rule_sum.induct) simp_all

lemma rules_small_append [simp]: "rules_small (rs @ rs') \<longleftrightarrow> rules_small rs \<and> rules_small rs'"
  by (induction rs rule: rules_small.induct) auto

fun points_only :: "nat \<Rightarrow> (bool \<times> weight \<times> string) list \<Rightarrow> bool" where
  "points_only b [] = True"
| "points_only b ((fires, w, tag) # rs) =
     (case w of Points p \<Rightarrow> p \<le> b \<and> points_only (b - p) rs | ReputationShare k \<Rightarrow> False)"

lemma points_only_facts:
  "points_only b rs \<Longrightarrow> rules_small rs \<and> 100 dvd rule_sum rs \<and> rule_sum rs \<le> 100 * int b"
proof (induction b rs rule: points_only.induct)
  case (2 b fires w tag rs)
  then show ?case by (cases w) (auto simp: of_nat_diff)
qed simp

lemma client_rules_points: "points_only 155 (client_rules uc i)"
  by (simp add: client_rules_def Let_def)

lemma network_rules_points: "points_only 59 (network_rules i site)"
  by (simp add: network_rules_def Let_def)

lemma length_client_rules [simp]: "length (client_rules uc i) = 13"
  by (simp add: client_rules_def Let_def)

lemma length_network_rules [simp]: "length (network_rules i site) = 5"
  by (simp add: network_rules_def Let_def)

lemma big_share_counts:
  assumes "1000 < k"
  shows "100 * f64_unit \<le> fst (fold apply_rule (rs @ [(True, ReputationShare k, t)] @ rs') (0, []))"
proof -
  obtain u tags where u: "fold apply_rule rs (0, []) = (u, tags)" by fastforce
  have "1000 \<le> nat k" using assms by simp
  then have "999 \<le> f64_round (nat k)" using f64_round_error(2) [of "nat k"] by simp
  then have "999 * weight_048 \<le> f64_round (nat k) * weight_048" by (rule mult_le_mono1)
  then have "100 * f64_unit \<le> f64_round (nat k) * weight_048"
    by (simp add: weight_048_def f64_unit_def)
  then have "100 * f64_unit \<le> weight_units (ReputationShare k)" by (simp add: f64_round_ge_100)
  then have "100 * f64_unit \<le> f64_round (u + weight_units (ReputationShare k))"
    by (intro f64_round_ge_100) simp
  then show ?thesis by (simp add: u fold_rules_ge_100)
qed

lemma float_score_exact: "rd_score (local_score uc i site) = exact_score uc i site"
proof -
  define k where "k = rep_score (ri_reputation i)"
  define mid where "mid = (0 < k, ReputationShare k, ''network-reputation'')"
  note c = points_only_facts [OF client_rules_points [of uc i]]
  note n = points_only_facts [OF network_rules_points [of i site]]
  have rules: "score_rules uc i site = client_rules uc i @ [mid] @ network_rules i site"
    by (simp add: score_rules_def mid_def k_def)
  have score: "rd_score (local_score uc i site) = clamp_round (fst (fold apply_rule (score_rules uc i site) (0, [])))"
    by (simp add: local_score_def split_beta Let_def)
  have pos: "0 \<le> rule_sum (client_rules uc i)" "0 \<le> rule_sum (network_rules i site)"
    using c n by (simp_all add: rule_sum_nonneg)
  show ?thesis
  proof (cases "k \<le> 1000")
    case True
    let ?h = "rule_sum (score_rules uc i site)"
    have small: "rules_small (score_rules uc i site)"
      using c n True by (auto simp: rules mid_def)
    have len: "length (score_rules uc i site) = 19" by (simp add: rules)
    have h: "0 \<le> ?h" using small by (rule rule_sum_nonneg)
    have "?h \<le> 100000" using c n True by (auto simp: rules mid_def)
    then have "near (fst (fold apply_rule (score_rules uc i site) (0, []))) (0 + ?h) (0 + 2000000 * int (length (score_rules uc i site)))"
      using small by (intro fold_rules_near) (simp_all add: near_def len)
    then have "near (fst (fold apply_rule (score_rules uc i site) (0, []))) ?h 1000000000"
      unfolding near_def len by simp
    moreover have "4 dvd ?h"
    proof -
      have "4 dvd rule_sum (client_rules uc i)" "4 dvd rule_sum (network_rules i site)"
        using c n by (auto intro: dvd_trans [of 4 100])
      then show ?thesis by (simp add: rules mid_def)
    qed
    ultimately show ?thesis
      using h unfolding score exact_score_def by (intro clamp_round_near)
  next
    case False
    have "48000 \<le> rule_sum (score_rules uc i site)" using False pos by (simp add: rules mid_def)
    then have "100 \<le> (rule_sum (score_rules uc i site) + 50) div 100" by simp
    moreover have "100 * f64_unit \<le> fst (fold apply_rule (score_rules uc i site) (0, []))"
      using big_share_counts [of k "client_rules uc i" _ "network_rules i site"] False by (simp add: rules mid_def)
    ultimately show ?thesis
      unfolding score exact_score_def clamp_round_def by (simp add: f64_unit_def)
  qed
qed

subsection \<open>Bounds, decisions, tags\<close>

lemma exact_score_bounds: "0 \<le> exact_score uc i site" "exact_score uc i site \<le> 100"
proof -
  have "0 \<le> rule_sum (client_rules uc i)" "0 \<le> rule_sum (network_rules i site)"
    using points_only_facts [OF client_rules_points [of uc i]]
      points_only_facts [OF network_rules_points [of i site]] by (simp_all add: rule_sum_nonneg)
  then have "0 \<le> rule_sum (score_rules uc i site)" by (simp add: score_rules_def)
  then show "0 \<le> exact_score uc i site" by (simp add: exact_score_def)
qed (simp add: exact_score_def)

lemma local_score_fields:
  "rd_decision (local_score uc i site) = decide (site_thresholds site) (rd_score (local_score uc i site))"
  "rd_tags (local_score uc i site) = unique (snd (fold apply_rule (score_rules uc i site) (0, [])))"
  by (simp_all add: local_score_def split_beta Let_def)

lemma fold_rules_tags:
  "snd (fold apply_rule rs (u, tags)) = tags @ map (\<lambda>(f, w, t). t) (filter fst rs)"
  by (induction rs arbitrary: u tags) auto

lemma unique_from_facts:
  "set (unique_from seen vs) = set vs - set seen" "distinct (unique_from seen vs)"
  by (induction seen vs rule: unique_from.induct) auto

lemma unique_facts [simp]: "set (unique vs) = set vs" "distinct (unique vs)"
  by (simp_all add: unique_def unique_from_facts)

lemma local_score_tags:
  "set (rd_tags (local_score uc i site)) = {t. \<exists>w. (True, w, t) \<in> set (score_rules uc i site)}"
  by (force simp: local_score_fields fold_rules_tags)

definition severity :: "string \<Rightarrow> nat" where
  "severity d = (if d = ''block'' then 3 else if d = ''interactive'' then 2 else if d = ''pow'' then 1 else 0)"

lemma decide_monotone: "m \<le> n \<Longrightarrow> severity (decide t m) \<le> severity (decide t n)"
  by (simp add: decide_def severity_def)

lemma decide_cases: "decide t n \<in> {''allow'', ''pow'', ''interactive'', ''block''}"
  by (simp add: decide_def)

lemma decide_block_iff: "decide t n = ''block'' \<longleftrightarrow> th_block t \<le> n"
  by (simp add: decide_def)

lemma decide_allow_iff:
  "decide t n = ''allow'' \<longleftrightarrow> n < th_pow t \<and> n < th_interactive t \<and> n < th_block t"
  by (simp add: decide_def)

subsection \<open>The scorer interface\<close>

text \<open>
  What the handlers rely on in a \<open>Scorer\<close>: a decision is one of the four words. The remote scorer
  wraps another one and passes on whatever non-empty decision its service answers.
\<close>

locale scorer =
  fixes score :: "risk_input \<Rightarrow> site \<Rightarrow> risk_decision"
  assumes decisions: "rd_decision (score i site) \<in> {''allow'', ''pow'', ''interactive'', ''block''}"
begin

lemma severity_zero: "severity (rd_decision (score i site)) = 0 \<longleftrightarrow> rd_decision (score i site) = ''allow''"
  using decisions [of i site] by (auto simp: severity_def)

lemma remote_decision:
  "rd_decision (remote_score service url score i site) \<in> {''allow'', ''pow'', ''interactive'', ''block''}
   \<or> (\<exists>b out. service (url @ ''/v1/score'') (i, \<lparr>rs_rate_limit_per_minute = rate_limit_per_minute site,
          rs_thresholds = site_thresholds site\<rparr>) = Answer 200 b \<and> decode_decision b = Some out
        \<and> rd_decision out \<noteq> [] \<and> remote_score service url score i site = out)"
  using decisions [of i site] remote_score_cases [of service url score i site] by metis

lemma remote_down:
  "(\<And>u p. service u p = TransportFailed) \<Longrightarrow> remote_score service url score = score"
  by (intro ext) (simp add: remote_score_def)

end

interpretation local: scorer "local_score uc" for uc
  by unfold_locales (simp only: local_score_fields decide_cases)

text \<open>C26. The score computed in floating point is the exact one: the sum of the points of the rules that
  fire, in hundredths, rounded to the nearest point, and it lies between 0 and 100.\<close>

theorem score_is_exact:
  "rd_score (local_score uc i site) = exact_score uc i site
   \<and> 0 \<le> rd_score (local_score uc i site) \<and> rd_score (local_score uc i site) \<le> 100"
  using exact_score_bounds [of uc i site] by (simp add: float_score_exact)

text \<open>\<open>s\<close> is at least as severe evidence as \<open>r\<close>, rule by rule.\<close>

definition rule_le :: "bool \<times> weight \<times> string \<Rightarrow> bool \<times> weight \<times> string \<Rightarrow> bool" where
  "rule_le r s \<longleftrightarrow> (fst r \<longrightarrow> fst s) \<and> weight_hundredths (fst (snd r)) \<le> weight_hundredths (fst (snd s))
     \<and> (fst s \<longrightarrow> 0 \<le> weight_hundredths (fst (snd s)))"

lemma rule_sum_mono: "list_all2 rule_le rs ss \<Longrightarrow> rule_sum rs \<le> rule_sum ss"
proof (induction rule: list_all2_induct)
  case (Cons r rs s ss)
  then show ?case by (cases r; cases s) (auto simp: rule_le_def)
qed simp

text \<open>C27. More evidence never lowers the answer: when every rule that fires for one input fires for
  another with at least its weight, the other's score is at least as high and its decision at least
  as severe.\<close>

theorem more_evidence_more_severe:
  assumes "list_all2 rule_le (score_rules uc i site) (score_rules uc j site)"
  shows "rd_score (local_score uc i site) \<le> rd_score (local_score uc j site)
    \<and> severity (rd_decision (local_score uc i site)) \<le> severity (rd_decision (local_score uc j site))"
proof -
  have "exact_score uc i site \<le> exact_score uc j site"
    using rule_sum_mono [OF assms] by (auto simp: exact_score_def intro!: min.mono zdiv_mono1)
  then show ?thesis by (simp add: float_score_exact local_score_fields(1) decide_monotone)
qed

text \<open>The tags of a decision name the rules that fired, each once.\<close>

lemma decision_tags:
  "distinct (rd_tags (local_score uc i site))
   \<and> set (rd_tags (local_score uc i site)) = {t. \<exists>w. (True, w, t) \<in> set (score_rules uc i site)}"
  by (simp add: local_score_tags) (simp add: local_score_fields)

end
