(* ===== verification/Reputation.thy ===== *)
theory Reputation
  imports NetAddr Risk
begin

text \<open>
  \<open>services/gateway/internal/reputation/client.go\<close>: the client of the reputation service. The
  service itself is a parameter: what it answers to the posted address, user agent and
  language.
\<close>

record lookup_payload =
  lp_ip :: string
  lp_ua :: string
  lp_lang :: string

text \<open>The posted text: a map, whose keys \<open>Marshal\<close> sorts. The service is what it answers to a text
  posted to a URL.\<close>

definition marshal_lookup :: "lookup_payload \<Rightarrow> string option" where
  "marshal_lookup p = Some (print_json (JObj
     [(''ip'', JStr (lp_ip p)), (''lang'', JStr (lp_lang p)), (''ua'', JStr (lp_ua p))]))"

type_synonym reputation_service = "string \<Rightarrow> string \<Rightarrow> http_outcome"

text \<open>The answer, with the cells behind its two slices.\<close>

type_synonym reputation_state = "reputation \<times> string list \<times> string list"

definition dec_providers :: "reputation_state decoder" where
  "dec_providers v s =
     map_option (\<lambda>x. ((fst s)\<lparr>rep_providers := fst x\<rparr>, snd x, snd (snd s)))
       (dec_strings v (rep_providers (fst s), fst (snd s)))"

definition dec_warnings :: "reputation_state decoder" where
  "dec_warnings v s =
     map_option (\<lambda>x. ((fst s)\<lparr>rep_warnings := fst x\<rparr>, fst (snd s), snd x))
       (dec_strings v (rep_warnings (fst s), snd (snd s)))"

definition reputation_fields :: "reputation_state fields" where
  "reputation_fields =
     [(''score'', on_fst (field rep_score_update rep_score dec_int)),
      (''proxy'', on_fst (field rep_proxy_update rep_proxy dec_bool)),
      (''vpn'', on_fst (field rep_vpn_update rep_vpn dec_bool)),
      (''tor'', on_fst (field rep_tor_update rep_tor dec_bool)),
      (''hosting'', on_fst (field rep_hosting_update rep_hosting dec_bool)),
      (''abuse_score'', on_fst (field rep_abuse_score_update rep_abuse_score dec_int)),
      (''country'', on_fst (field rep_country_update rep_country dec_string)),
      (''asn'', on_fst (field rep_asn_update rep_asn dec_string)),
      (''providers'', dec_providers),
      (''warnings'', dec_warnings)]"

definition decode_reputation :: "stream \<Rightarrow> reputation option" where
  "decode_reputation b =
     Option.bind (next_value (limit_reader 65536 b)) (\<lambda>x. map_option fst
       (dec_struct False reputation_fields (fst x) (empty_reputation, [], [])))"

definition warn :: "string \<Rightarrow> reputation" where
  "warn code = empty_reputation\<lparr>rep_warnings := [code]\<rparr>"

definition lookup_reputation ::
  "reputation_service \<Rightarrow> string \<Rightarrow> string \<Rightarrow> string \<Rightarrow> string \<Rightarrow> reputation" where
  "lookup_reputation service base_url ip ua0 language0 =
     (if base_url = [] \<or> parse_ip ip = None then empty_reputation
      else let ua = (if length ua0 > 512 then take 512 ua0 else ua0);
               language = (if length language0 > 128 then take 128 language0 else language0);
               payload = \<lparr>lp_ip = ip, lp_ua = ua, lp_lang = language\<rparr>
           in case marshal_lookup payload of
                None \<Rightarrow> warn ''reputation-request-encode-failed''
              | Some text \<Rightarrow>
                  (case service (base_url @ ''/v1/ip'') text of
                     BuildFailed \<Rightarrow> warn ''reputation-request-build-failed''
                   | TransportFailed \<Rightarrow> warn ''reputation-unavailable''
                   | Answer status body \<Rightarrow>
                       if status \<noteq> 200 then warn ''reputation-non-200''
                       else (case decode_reputation body of
                               None \<Rightarrow> warn ''reputation-invalid-json''
                             | Some out \<Rightarrow> out)))"

text \<open>A failing service leaves no evidence behind but a warning.\<close>

definition no_evidence :: "reputation \<Rightarrow> bool" where
  "no_evidence r \<longleftrightarrow>
     rep_score r = 0 \<and> rep_abuse_score r = 0
     \<and> \<not> rep_proxy r \<and> \<not> rep_vpn r \<and> \<not> rep_tor r \<and> \<not> rep_hosting r"

lemma no_evidence_warn [simp]: "no_evidence (warn code)"
  by (simp add: no_evidence_def warn_def empty_reputation_def)

lemma no_evidence_empty [simp]: "no_evidence empty_reputation"
  by (simp add: no_evidence_def empty_reputation_def)

definition lookup_warnings :: "string list" where
  "lookup_warnings =
     [''reputation-request-build-failed'', ''reputation-unavailable'', ''reputation-non-200'', ''reputation-invalid-json'']"

lemma outcome_cases:
  "(case outcome of
      BuildFailed \<Rightarrow> warn e1
    | TransportFailed \<Rightarrow> warn e2
    | Answer status body \<Rightarrow>
        if status \<noteq> 200 then warn e3
        else (case decode_reputation body of None \<Rightarrow> warn e4 | Some out \<Rightarrow> out)) = r
   \<Longrightarrow> r \<in> warn ` set [e1, e2, e3, e4] \<or> (\<exists>b. outcome = Answer 200 b \<and> decode_reputation b = Some r)"
  by (cases outcome) (auto split: if_splits option.splits)

lemma lookup_cases:
  "lookup_reputation service base_url ip ua language \<in> insert empty_reputation (warn ` set lookup_warnings)
   \<or> (\<exists>url t b. service url t = Answer 200 b \<and> decode_reputation b = Some (lookup_reputation service base_url ip ua language))"
proof (cases "base_url = [] \<or> parse_ip ip = None")
  case True
  then show ?thesis by (simp add: lookup_reputation_def)
next
  case False
  define p where "p = \<lparr>lp_ip = ip, lp_ua = if length ua > 512 then take 512 ua else ua,
      lp_lang = if length language > 128 then take 128 language else language\<rparr>"
  obtain t where t: "marshal_lookup p = Some t" by (simp add: marshal_lookup_def)
  note eq = lookup_reputation_def [of service base_url ip ua language, unfolded Let_def if_not_P [OF False],
      folded p_def, unfolded t option.case]
  from outcome_cases [OF eq [symmetric]] show ?thesis unfolding lookup_warnings_def by blast
qed

text \<open>A payload never carries more than 512 bytes of the user agent and 128 of the language.\<close>

definition payload_bounded :: "lookup_payload \<Rightarrow> bool" where
  "payload_bounded p \<longleftrightarrow> length (lp_ua p) \<le> 512 \<and> length (lp_lang p) \<le> 128"

text \<open>A reputation service that fails, in whatever way, leaves no evidence against the client.\<close>

theorem reputation_fails_open:
  assumes "\<And>url t b. service url t = Answer 200 b \<Longrightarrow> decode_reputation b = None"
  shows "no_evidence (lookup_reputation service base_url ip ua language)"
  using lookup_cases [of service base_url ip ua language] assms by auto

lemma reputation_fails_open_witness:
  "no_evidence (lookup_reputation (\<lambda>u t. Answer 503 ([], True)) ''http://reputation'' ''192.0.2.7'' ''agent'' ''en'')"
  by (rule reputation_fails_open) simp

text \<open>What a client sends cannot reach the reputation service beyond 512 bytes of its user agent and
  128 of its language, nor at all with an address that does not parse: two services that agree on
  such payloads give the same answers.\<close>

lemma reputation_payload_bounded:
  assumes "\<And>url p t. payload_bounded p \<Longrightarrow> parse_ip (lp_ip p) \<noteq> None \<Longrightarrow> marshal_lookup p = Some t \<Longrightarrow>
           service url t = service' url t"
  shows "lookup_reputation service base_url ip ua language
       = lookup_reputation service' base_url ip ua language"
proof (cases "parse_ip ip")
  case (Some b)
  let ?p = "\<lparr>lp_ip = ip, lp_ua = if length ua > 512 then take 512 ua else ua,
              lp_lang = if length language > 128 then take 128 language else language\<rparr>"
  obtain t where t: "marshal_lookup ?p = Some t" by (simp add: marshal_lookup_def)
  have "payload_bounded ?p" by (simp add: payload_bounded_def)
  then have "service url t = service' url t" for url
    using assms [OF _ _ t, of url] Some by simp
  then show ?thesis by (simp add: lookup_reputation_def Let_def t)
qed (simp add: lookup_reputation_def)

text \<open>The evidence of an answer is of its type.\<close>

definition reputation_typed :: "reputation \<Rightarrow> bool" where
  "reputation_typed r \<longleftrightarrow>
     int64_range (rep_score r) \<and> int64_range (rep_abuse_score r)
     \<and> list_all utf8_valid ([rep_country r, rep_asn r] @ rep_providers r @ rep_warnings r)"

lemma keeps_reputation:
  "keeps (\<lambda>s. reputation_typed (fst s) \<and> (list_all utf8_valid (fst (snd s)) \<and> list_all utf8_valid (snd (snd s))))
     (dec_struct False reputation_fields)"
  by (rule keeps_struct)
    (auto simp: reputation_fields_def keeps_def decoder_defs dec_providers_def dec_warnings_def
      reputation_typed_def dest: dec_typed dec_strings_clean)

lemma decode_reputation_typed: "decode_reputation b = Some out \<Longrightarrow> reputation_typed out"
  using keepsD [OF keeps_reputation, of _ "(empty_reputation, [], [])"] clean_next_value [of "limit_reader 65536 b"]
  by (fastforce simp: decode_reputation_def bind_eq_Some_conv reputation_typed_def empty_reputation_def int64_range_def)

lemma lookup_reputation_typed: "reputation_typed (lookup_reputation service base_url ip ua language)"
proof -
  have "list_all utf8_valid lookup_warnings"
    unfolding lookup_warnings_def list_all_iff by (intro ballI utf8_valid_ascii) (auto simp: list_all_iff is_ascii_def)
  then have "reputation_typed r" if "r \<in> insert empty_reputation (warn ` set lookup_warnings)" for r
    using that by (auto simp: reputation_typed_def warn_def empty_reputation_def int64_range_def list_all_iff)
  then show ?thesis
    using lookup_cases [of service base_url ip ua language] decode_reputation_typed by blast
qed

end
