(* ===== verification/Metrics.thy ===== *)
theory Metrics
  imports Model
begin

text \<open>
  \<open>services/gateway/internal/metrics/metrics.go\<close>: ten atomic 64-bit counters and the text that
  reports them.
\<close>

record metrics =
  m_requests :: "64 word"
  m_challenges :: "64 word"
  m_allowed :: "64 word"
  m_pow :: "64 word"
  m_interactive :: "64 word"
  m_blocked :: "64 word"
  m_verify_success :: "64 word"
  m_verify_failure :: "64 word"
  m_replays :: "64 word"
  m_rate_limited :: "64 word"

definition zero_metrics :: metrics where
  "zero_metrics =
     \<lparr>m_requests = 0, m_challenges = 0, m_allowed = 0, m_pow = 0, m_interactive = 0, m_blocked = 0,
      m_verify_success = 0, m_verify_failure = 0, m_replays = 0, m_rate_limited = 0\<rparr>"

definition metric_line :: "string \<Rightarrow> 64 word \<Rightarrow> string" where
  "metric_line name n = name @ '' '' @ show_nat (unat n)"

definition metric_lines :: "metrics \<Rightarrow> string list" where
  "metric_lines m =
     [metric_line ''berryshield_requests_total'' (m_requests m),
      metric_line ''berryshield_challenges_total'' (m_challenges m),
      metric_line ''berryshield_decision_allow_total'' (m_allowed m),
      metric_line ''berryshield_decision_pow_total'' (m_pow m),
      metric_line ''berryshield_decision_interactive_total'' (m_interactive m),
      metric_line ''berryshield_decision_block_total'' (m_blocked m),
      metric_line ''berryshield_siteverify_success_total'' (m_verify_success m),
      metric_line ''berryshield_siteverify_failure_total'' (m_verify_failure m),
      metric_line ''berryshield_token_replay_total'' (m_replays m),
      metric_line ''berryshield_rate_limited_total'' (m_rate_limited m)]"

definition newline :: char where
  "newline = CHR 0x0A"

fun join_lines :: "string list \<Rightarrow> string" where
  "join_lines [] = []"
| "join_lines [l] = l"
| "join_lines (l # ls) = l @ newline # join_lines ls"

definition metrics_text :: "metrics \<Rightarrow> string" where
  "metrics_text m = join_lines (metric_lines m) @ [newline]"

text \<open>A body written without \<open>WriteHeader\<close> has the status 200.\<close>

definition metrics_handler :: "metrics \<Rightarrow> writer \<Rightarrow> writer" where
  "metrics_handler m w =
     (write_status 200 (set_header ''Content-Type'' ''text/plain; version=0.0.4; charset=utf-8'' w))
       \<lparr>w_body := Some (TextBody (metrics_text m))\<rparr>"

subsection \<open>The report is faithful\<close>

lemma split_join_lines:
  "ls \<noteq> [] \<Longrightarrow> list_all (\<lambda>l. newline \<notin> set l) ls \<Longrightarrow> split_on newline (join_lines ls) = ls"
  by (induction ls rule: join_lines.induct) (simp_all add: split_on_free split_on_append)

lemma split_join_lines_end:
  "ls \<noteq> [] \<Longrightarrow> list_all (\<lambda>l. newline \<notin> set l) ls
   \<Longrightarrow> split_on newline (join_lines ls @ [newline]) = ls @ [[]]"
  by (induction ls rule: join_lines.induct) (simp_all add: split_on_append split_on_free)

lemma metric_line_parts: "CHR '' '' \<notin> set name \<Longrightarrow> split_on CHR '' '' (metric_line name n) = [name, show_nat (unat n)]"
proof -
  assume name: "CHR '' '' \<notin> set name"
  have "CHR '' '' \<notin> set (show_nat k)" for k
    using show_nat_digits [of k] by (auto simp: list_all_iff is_digit_def digit_val_def)
  then show ?thesis by (simp add: metric_line_def split_on_append [OF name] split_on_free)
qed

lemma metric_line_inject: "metric_line name a = metric_line name b \<longleftrightarrow> a = b"
  by (simp add: metric_line_def word_unat_eq_iff)

lemma newline_not_in_line: "newline \<notin> set name \<Longrightarrow> newline \<notin> set (metric_line name a)"
  using show_nat_digits [of "unat a"]
  by (auto simp: metric_line_def newline_def list_all_iff is_digit_def digit_val_def)

text \<open>The report of the metrics determines the counters: two different states of the counters are
  never reported alike.\<close>

theorem metrics_report_faithful: "metrics_text m = metrics_text m' \<longleftrightarrow> m = m'"
proof
  assume eq: "metrics_text m = metrics_text m'"
  have free: "list_all (\<lambda>l. newline \<notin> set l) (metric_lines k)" for k
    unfolding metric_lines_def list.pred_inject
    by (intro conjI TrueI newline_not_in_line) (simp_all add: newline_def)
  have "split_on newline (metrics_text k) = metric_lines k @ [[]]" for k
    unfolding metrics_text_def by (rule split_join_lines_end [OF _ free]) (simp add: metric_lines_def)
  with eq have "metric_lines m = metric_lines m'" by (metis append_same_eq)
  then show "m = m'" by (simp add: metric_lines_def metric_line_inject)
qed simp

end
