(* ===== verification/Server.thy ===== *)
theory Server
  imports ClientAddr Config Store Challenge Token Risk Reputation Metrics
begin

text \<open>
  \<open>services/gateway/internal/api/server.go\<close>: the server's state and its handlers.

  A handler takes the outside world as it meets it during one request (\<open>world\<close>), the request,
  the outcome of decoding the body, the server and the response written so far. It returns the
  server and the response after it.
\<close>

subsection \<open>The world of one request\<close>

text \<open>
  \<open>clock i\<close> and \<open>random i\<close> are the \<open>i\<close>-th reading of the clock and of the random source in the
  request, in program order. \<open>site_order\<close> is the order in which a loop over the registry's map
  visits its keys, \<open>parse_url\<close> gives scheme and host name of \<open>url.Parse\<close> and \<open>media_type\<close> the media type of
  \<open>mime.ParseMediaType\<close> (\<open>None\<close> for an error).
\<close>

record world =
  lower :: unicode
  parse_url :: "string \<Rightarrow> (string \<times> string) option"
  media_type :: "string \<Rightarrow> string option"
  clock :: "nat \<Rightarrow> instant"
  random :: "nat \<Rightarrow> random_read"
  site_order :: "string list"
  reputation_at :: reputation_service
  risk_at :: risk_service

datatype scorer_kind = LocalScorer | RemoteScorer string

record server =
  cfg :: runtime
  store :: memory
  signer :: signer
  rep_url :: string
  scorer :: scorer_kind
  stats :: metrics

definition new_server :: "runtime \<Rightarrow> server" where
  "new_server c =
     \<lparr>cfg = c, store = new_memory,
      signer = new_signer_with_keys (rt_signing_secret c) (rt_signing_key_id c) (rt_previous_keys c),
      rep_url = rt_reputation_url c,
      scorer = (if rt_risk_engine_url c \<noteq> [] then RemoteScorer (rt_risk_engine_url c) else LocalScorer),
      stats = zero_metrics\<rparr>"

text \<open>\<open>main\<close> loads the configuration and makes a server of it, or ends with the error.\<close>

definition start_server :: "unicode \<Rightarrow> os \<Rightarrow> config_error + server" where
  "start_server uc e = bind_err (load uc e) (\<lambda>c. Inr (new_server c))"

definition run_scorer :: "world \<Rightarrow> scorer_kind \<Rightarrow> risk_input \<Rightarrow> site \<Rightarrow> risk_decision" where
  "run_scorer wd k =
     (case k of
        LocalScorer \<Rightarrow> local_score (lower wd)
      | RemoteScorer url \<Rightarrow> remote_score (risk_at wd) url (local_score (lower wd)))"

definition count :: "(metrics \<Rightarrow> metrics) \<Rightarrow> server \<Rightarrow> server" where
  "count f s = s\<lparr>stats := f (stats s)\<rparr>"

definition inc_requests :: "metrics \<Rightarrow> metrics" where "inc_requests m = m\<lparr>m_requests := m_requests m + 1\<rparr>"
definition inc_challenges :: "metrics \<Rightarrow> metrics" where "inc_challenges m = m\<lparr>m_challenges := m_challenges m + 1\<rparr>"
definition inc_allowed :: "metrics \<Rightarrow> metrics" where "inc_allowed m = m\<lparr>m_allowed := m_allowed m + 1\<rparr>"
definition inc_pow :: "metrics \<Rightarrow> metrics" where "inc_pow m = m\<lparr>m_pow := m_pow m + 1\<rparr>"
definition inc_interactive :: "metrics \<Rightarrow> metrics" where "inc_interactive m = m\<lparr>m_interactive := m_interactive m + 1\<rparr>"
definition inc_blocked :: "metrics \<Rightarrow> metrics" where "inc_blocked m = m\<lparr>m_blocked := m_blocked m + 1\<rparr>"
definition inc_success :: "metrics \<Rightarrow> metrics" where "inc_success m = m\<lparr>m_verify_success := m_verify_success m + 1\<rparr>"
definition inc_failure :: "metrics \<Rightarrow> metrics" where "inc_failure m = m\<lparr>m_verify_failure := m_verify_failure m + 1\<rparr>"
definition inc_replays :: "metrics \<Rightarrow> metrics" where "inc_replays m = m\<lparr>m_replays := m_replays m + 1\<rparr>"
definition inc_rate_limited :: "metrics \<Rightarrow> metrics" where "inc_rate_limited m = m\<lparr>m_rate_limited := m_rate_limited m + 1\<rparr>"

lemmas inc_defs =
  inc_requests_def inc_challenges_def inc_allowed_def inc_pow_def inc_interactive_def
  inc_blocked_def inc_success_def inc_failure_def inc_replays_def inc_rate_limited_def

subsection \<open>Helpers of the handlers\<close>

definition action_char :: "char \<Rightarrow> bool" where
  "action_char c \<longleftrightarrow> (let n = (of_char c :: nat) in
     65 \<le> n \<and> n \<le> 90 \<or> 97 \<le> n \<and> n \<le> 122 \<or> 48 \<le> n \<and> n \<le> 57
     \<or> n = 95 \<or> n = 46 \<or> n = 58 \<or> n = 47 \<or> n = 45)"

text \<open>The regular expression \<open>^[A-Za-z0-9_.:/-]{1,64}$\<close>.\<close>

definition action_ok :: "string \<Rightarrow> bool" where
  "action_ok a \<longleftrightarrow> 1 \<le> length a \<and> length a \<le> 64 \<and> list_all action_char a"

definition origin_of :: "http_request \<Rightarrow> string" where
  "origin_of r = trim_space (header r ''Origin'')"

definition origin_allowed_for_hostname :: "world \<Rightarrow> http_request \<Rightarrow> site \<Rightarrow> string \<Rightarrow> bool" where
  "origin_allowed_for_hostname wd r site expected_hostname =
     (if origin_of r = [] then True
      else case parse_url wd (origin_of r) of
             None \<Rightarrow> False
           | Some (scheme, hostname) \<Rightarrow>
               if hostname = [] \<or> (scheme \<noteq> ''http'' \<and> scheme \<noteq> ''https'') then False
               else let origin_host = normalize_hostname (lower wd) hostname;
                        expected_host = normalize_hostname (lower wd) expected_hostname
                    in allows_hostname (lower wd) site origin_host \<and> origin_host = expected_host)"

definition set_cors :: "http_request \<Rightarrow> writer \<Rightarrow> writer" where
  "set_cors r w =
     (if origin_of r \<noteq> []
      then set_header ''Vary'' ''Origin'' (set_header ''Access-Control-Allow-Origin'' (origin_of r) w)
      else w)"

definition decode_json :: "'a decoded \<Rightarrow> writer \<Rightarrow> writer + 'a" where
  "decode_json body w =
     (case body of
        BadJson \<Rightarrow> Inl (write_error 400 ''invalid-json'' w)
      | GoodJson v at_end \<Rightarrow>
          if \<not> at_end then Inl (write_error 400 ''multiple-json-values'' w) else Inr v)"

definition options :: "http_request \<Rightarrow> writer \<Rightarrow> writer" where
  "options r w =
     write_status 204
       (set_header ''Access-Control-Max-Age'' ''600''
         (set_header ''Access-Control-Allow-Headers'' ''Content-Type, X-BerryShield-Site-Key''
           (set_header ''Access-Control-Allow-Methods'' ''POST, OPTIONS'' (set_cors r w))))"

definition health :: "writer \<Rightarrow> writer" where
  "health w = write_json 200 HealthBody w"

text \<open>\<open>security\<close>: the headers it sets before the handler runs.\<close>

definition security :: "string \<Rightarrow> writer \<Rightarrow> writer" where
  "security path w =
     (let w' = set_header ''Cache-Control'' ''no-store''
                 (set_header ''Permissions-Policy'' ''camera=(), microphone=(), geolocation=()''
                   (set_header ''Referrer-Policy'' ''no-referrer''
                     (set_header ''X-Content-Type-Options'' ''nosniff'' w)))
      in if path \<noteq> ''/metrics'' \<and> path \<noteq> ''/healthz''
         then set_header ''Cross-Origin-Resource-Policy'' ''cross-origin'' w' else w')"

definition show_bool :: "bool \<Rightarrow> string" where
  "show_bool b = (if b then ''true'' else ''false'')"

definition log_config :: "server \<Rightarrow> string" where
  "log_config s =
     ''env='' @ rt_environment (cfg s) @ '' addr='' @ rt_addr (cfg s)
     @ '' reputation='' @ show_bool (rt_reputation_url (cfg s) \<noteq> [])
     @ '' remote_risk='' @ show_bool (rt_risk_engine_url (cfg s) \<noteq> [])"

subsection \<open>POST /v1/challenge\<close>

definition network_of :: "server \<Rightarrow> http_request \<Rightarrow> string" where
  "network_of s r = client_ip r (rt_trusted_proxies (cfg s))"

definition rate_key :: "site \<Rightarrow> string \<Rightarrow> string \<Rightarrow> string" where
  "rate_key site ip action = site_key site @ '':'' @ ip_prefix ip @ '':'' @ action"

definition binding_of :: "server \<Rightarrow> site \<Rightarrow> string \<Rightarrow> string" where
  "binding_of s site ip =
     (if bind_ip_prefix site then bind_ip (ip_binding_secret (cfg s)) ip else [])"

definition ttl_of :: "int \<Rightarrow> duration" where
  "ttl_of sec = wrap64 (sec * second)"

text \<open>
  The \<open>switch\<close> on the decision. Minting reads 18 random bytes, then the clock; a new challenge
  reads two random values, then the clock; the store reads the clock once more.
\<close>

definition answer_decision ::
  "world \<Rightarrow> challenge_request \<Rightarrow> string \<Rightarrow> site \<Rightarrow> string \<Rightarrow> risk_decision \<Rightarrow> server \<Rightarrow> writer
     \<Rightarrow> server \<times> writer" where
  "answer_decision wd req hostname site ip decision s w =
     (let ip_bind = binding_of s site ip in
      if rd_decision decision = ''block''
      then (count inc_blocked s,
            write_json 403 (ChallengeBody (empty_challenge_response\<lparr>resp_decision := ''block''\<rparr>)) w)
      else if rd_decision decision = ''allow''
      then (let s' = count inc_allowed s in
            case mint (random wd 0) (clock wd 1) (signer s') (site_key site) (cr_action req)
                   hostname ip_bind ''passive'' (rd_score decision) (ttl_of (token_ttl_seconds site)) of
              Inl _ \<Rightarrow> (s', write_error 500 ''internal-error'' w)
            | Inr (tok, _) \<Rightarrow>
                (s', write_json 200 (ChallengeBody
                       (empty_challenge_response\<lparr>resp_decision := ''allow'', resp_token := tok\<rparr>)) w))
      else if rd_decision decision = ''pow'' \<or> rd_decision decision = ''interactive''
      then (let s' = count (if rd_decision decision = ''pow'' then inc_pow else inc_interactive) s in
            case new_challenge (random wd 0) (random wd 1) (clock wd 1) (rd_decision decision)
                   (site_key site) (cr_action req) hostname (cr_session_id req) ip_bind
                   (rd_score decision) (rd_tags decision) (ttl_of (challenge_ttl_seconds site)) of
              Inl _ \<Rightarrow> (s', write_error 500 ''internal-error'' w)
            | Inr c \<Rightarrow>
                (s'\<lparr>store := put_challenge (clock wd 2) c (store s')\<rparr>,
                 write_json 200 (ChallengeBody
                   \<lparr>resp_decision = rd_decision decision, resp_challenge_id = ch_id c,
                    resp_kind = ch_kind c, resp_expires_at = ch_expires_at c,
                    resp_params = ch_params c, resp_token = []\<rparr>) w))
      else (s, write_error 500 ''invalid-decision'' w))"

definition risk_input_of :: "server \<Rightarrow> world \<Rightarrow> http_request \<Rightarrow> challenge_request \<Rightarrow> string \<Rightarrow> int \<Rightarrow> risk_input" where
  "risk_input_of s wd r req ip rate =
     \<lparr>ri_ip = ip,
      ri_user_agent = header r ''User-Agent'',
      ri_accept_language = header r ''Accept-Language'',
      ri_sec_ch_ua = header r ''Sec-CH-UA'',
      ri_sec_ch_platform = header r ''Sec-CH-UA-Platform'',
      ri_request_rate = rate,
      ri_telemetry = cr_telemetry req,
      ri_reputation = lookup_reputation (reputation_at wd) (rep_url s) ip
                        (header r ''User-Agent'') (header r ''Accept-Language'')\<rparr>"

text \<open>What follows the checks of the request: rate limit, reputation, score, answer.\<close>

definition admit_challenge ::
  "world \<Rightarrow> http_request \<Rightarrow> challenge_request \<Rightarrow> string \<Rightarrow> site \<Rightarrow> server \<Rightarrow> writer \<Rightarrow> server \<times> writer"
where
  "admit_challenge wd r req hostname site s w =
     (let ip = network_of s r;
          ((allowed, rate), st) = allow_rate (clock wd 0) (rate_key site ip (cr_action req))
                                    (rate_limit_per_minute site) minute (store s);
          s1 = s\<lparr>store := st\<rparr>
      in if \<not> allowed
         then (count inc_rate_limited s1, write_error 429 ''rate-limited'' w)
         else answer_decision wd req hostname site ip
                (run_scorer wd (scorer s1) (risk_input_of s1 wd r req ip rate) site)
                (count inc_challenges s1) w)"

definition issue_challenge ::
  "world \<Rightarrow> http_request \<Rightarrow> challenge_request decoded \<Rightarrow> server \<Rightarrow> writer \<Rightarrow> server \<times> writer" where
  "issue_challenge wd r body s0 w =
     (let s = count inc_requests s0 in
      case decode_json body w of
        Inl w' \<Rightarrow> (s, w')
      | Inr req \<Rightarrow>
          (case registry_get (rt_sites (cfg s)) (cr_site_key req) of
             None \<Rightarrow> (s, write_error 400 ''invalid-site-key'' w)
           | Some site \<Rightarrow>
               if \<not> action_ok (cr_action req) then (s, write_error 400 ''invalid-action'' w)
               else if \<not> allows_hostname (lower wd) site (cr_hostname req)
               then (s, write_error 400 ''hostname-not-allowed'' w)
               else let hostname = normalize_hostname (lower wd) (cr_hostname req) in
                 if cr_session_id req = [] \<or> length (cr_session_id req) > 128
                 then (s, write_error 400 ''invalid-session-id'' w)
                 else if \<not> origin_allowed_for_hostname wd r site hostname
                 then (s, write_error 403 ''origin-not-allowed'' w)
                 else admit_challenge wd r req hostname site s (set_cors r w)))"

subsection \<open>POST /v1/challenge/{id}/verify\<close>

text \<open>After all bindings hold: the proof, the single use of the challenge, the token.\<close>

definition redeem_challenge ::
  "world \<Rightarrow> site \<Rightarrow> challenge \<Rightarrow> string \<Rightarrow> challenge_proof \<Rightarrow> server \<Rightarrow> writer \<Rightarrow> server \<times> writer" where
  "redeem_challenge wd site c cid pf s w =
     (case verify_challenge_proof (clock wd 1) (clock wd 2) c pf of
        Inl _ \<Rightarrow>
          (s\<lparr>store := fail_challenge cid 3 (store s)\<rparr>,
           write_json 400 (VerifyBody \<lparr>vr_success = False, vr_token = [], vr_error = ''invalid-proof''\<rparr>) w)
      | Inr _ \<Rightarrow>
          (let (taken, st) = consume_challenge cid (store s); s' = s\<lparr>store := st\<rparr> in
           if \<not> taken then (s', write_error 400 ''challenge-already-consumed'' w)
           else (case mint (random wd 0) (clock wd 3) (signer s') (ch_site_key c) (ch_action c)
                        (ch_hostname c) (ch_ip_bind c) (ch_kind c) (ch_risk_score c)
                        (ttl_of (token_ttl_seconds site)) of
                   Inl _ \<Rightarrow> (s', write_error 500 ''internal-error'' w)
                 | Inr (tok, _) \<Rightarrow>
                     (s', write_json 200
                            (VerifyBody \<lparr>vr_success = True, vr_token = tok, vr_error = []\<rparr>) w))))"

definition verify_challenge ::
  "world \<Rightarrow> http_request \<Rightarrow> verify_challenge_request decoded \<Rightarrow> server \<Rightarrow> writer \<Rightarrow> server \<times> writer" where
  "verify_challenge wd r body s0 w =
     (let s = count inc_requests s0; cid = path_id r in
      if cid = [] \<or> length cid > 96 then (s, write_error 400 ''invalid-challenge-id'' w)
      else let (found, st) = get_challenge (clock wd 0) cid (store s); s1 = s\<lparr>store := st\<rparr> in
        case found of
          None \<Rightarrow> (s1, write_error 400 ''challenge-not-found-or-expired'' w)
        | Some c \<Rightarrow>
            (case registry_get (rt_sites (cfg s1)) (ch_site_key c) of
               None \<Rightarrow> (s1, write_error 400 ''invalid-site-key'' w)
             | Some site \<Rightarrow>
                 if \<not> origin_allowed_for_hostname wd r site (ch_hostname c)
                 then (s1, write_error 403 ''origin-not-allowed'' w)
                 else let w1 = set_cors r w; ip = network_of s1 r in
                   if bind_ip_prefix site \<and> bind_ip (ip_binding_secret (cfg s1)) ip \<noteq> ch_ip_bind c
                   then (s1\<lparr>store := fail_challenge cid 3 (store s1)\<rparr>,
                         write_error 400 ''network-binding-mismatch'' w1)
                   else (case decode_json body w1 of
                           Inl w2 \<Rightarrow> (s1, w2)
                         | Inr req \<Rightarrow>
                             if vc_session_id req = [] \<or> vc_session_id req \<noteq> ch_session_id c
                             then (s1\<lparr>store := fail_challenge cid 3 (store s1)\<rparr>,
                                   write_error 400 ''session-binding-mismatch'' w1)
                             else redeem_challenge wd site c cid (vc_proof req) s1 w1)))"

subsection \<open>POST /v1/siteverify\<close>

text \<open>
  The two readings of the body: \<open>sb_json\<close> is what \<open>Decode\<close> gives, \<open>sb_form\<close> what \<open>ParseForm\<close>
  gives (\<open>Form.Get\<close> as a function), \<open>None\<close> for an error.
\<close>

record site_verify_body =
  sb_json :: "site_verify_request option"
  sb_form :: "(string \<Rightarrow> string) option"

definition site_verify_fields_ok :: "site_verify_request \<Rightarrow> bool" where
  "site_verify_fields_ok q \<longleftrightarrow>
     sv_secret q \<noteq> [] \<and> sv_response q \<noteq> []
     \<and> \<not> (length (sv_secret q) > 512 \<or> length (sv_response q) > 8192
           \<or> length (sv_expected_action q) > 64 \<or> length (sv_expected_hostname q) > 253
           \<or> length (sv_remote_ip q) > 64)"

definition parse_site_verify ::
  "world \<Rightarrow> http_request \<Rightarrow> site_verify_body \<Rightarrow> site_verify_request option" where
  "parse_site_verify wd r body =
     (let ct = to_lower (lower wd) (header r ''Content-Type'');
          out = (if sublist ''application/json'' ct then sb_json body
                 else map_option (\<lambda>form.
                        \<lparr>sv_secret = form ''secret'', sv_response = form ''response'',
                         sv_remote_ip = form ''remoteip'',
                         sv_expected_action = form ''expected_action'',
                         sv_expected_hostname = form ''expected_hostname''\<rparr>) (sb_form body))
      in case out of
           None \<Rightarrow> None
         | Some q \<Rightarrow> if site_verify_fields_ok q then Some q else None)"

definition refuse_site_verify :: "int \<Rightarrow> string \<Rightarrow> server \<Rightarrow> writer \<Rightarrow> server \<times> writer" where
  "refuse_site_verify st code s w =
     (count inc_failure s, write_json st (SiteVerifyBody (failed_site_verify code)) w)"

text \<open>The checks of \<open>siteVerify\<close> between the signature and the spending of the token.\<close>

definition site_verify_mismatch ::
  "world \<Rightarrow> server \<Rightarrow> site \<Rightarrow> site_verify_request \<Rightarrow> token_claims \<Rightarrow> string option" where
  "site_verify_mismatch wd s site q c =
     (if tc_site_key c \<noteq> site_key site then Some ''sitekey-secret-mismatch''
      else if sv_expected_action q = [] then Some ''missing-expected-action''
      else if sv_expected_hostname q = [] then Some ''missing-expected-hostname''
      else if sv_expected_action q \<noteq> tc_action c then Some ''action-mismatch''
      else if normalize_hostname (lower wd) (sv_expected_hostname q)
              \<noteq> normalize_hostname (lower wd) (tc_hostname c)
      then Some ''hostname-mismatch''
      else if bind_ip_prefix site \<and> sv_remote_ip q = [] then Some ''missing-remoteip''
      else if bind_ip_prefix site \<and> bind_ip (ip_binding_secret (cfg s)) (sv_remote_ip q) \<noteq> tc_ip_bind c
      then Some ''remoteip-mismatch''
      else None)"

definition accepted_site_verify :: "token_claims \<Rightarrow> site_verify_response" where
  "accepted_site_verify c =
     \<lparr>svr_success = True, svr_challenge_ts = Some (time_unix (tc_issued_at c)),
      svr_hostname = tc_hostname c, svr_action = tc_action c, svr_risk_score = tc_risk_score c,
      svr_risk_bucket = tc_risk_bucket c, svr_challenge_kind = tc_challenge_kind c,
      svr_error_codes = []\<rparr>"

definition site_verify ::
  "world \<Rightarrow> http_request \<Rightarrow> site_verify_body \<Rightarrow> server \<Rightarrow> writer \<Rightarrow> server \<times> writer" where
  "site_verify wd r body s0 w =
     (let s = count inc_requests s0 in
      case parse_site_verify wd r body of
        None \<Rightarrow> refuse_site_verify 400 ''bad-request'' s w
      | Some q \<Rightarrow>
          (case registry_get_by_secret (site_order wd) (rt_sites (cfg s)) (sv_secret q) of
             None \<Rightarrow> refuse_site_verify 200 ''invalid-input-secret'' s w
           | Some site \<Rightarrow>
               (case verify_token (signer s) (sv_response q) (clock wd 0) of
                  Inl e \<Rightarrow>
                    refuse_site_verify 200
                      (if sublist ''expired'' (token_error_text e) then ''timeout-or-duplicate''
                       else ''invalid-input-response'') s w
                | Inr c \<Rightarrow>
                    (case site_verify_mismatch wd s site q c of
                       Some code \<Rightarrow> refuse_site_verify 200 code s w
                     | None \<Rightarrow>
                         let (fresh, st) = consume_jti (clock wd 1) (tc_jti c)
                                             (time_unix (tc_expires_at c)) (store s);
                             s1 = s\<lparr>store := st\<rparr>
                         in if \<not> fresh
                            then refuse_site_verify 200 ''timeout-or-duplicate'' (count inc_replays s1) w
                            else (count inc_success s1,
                                  write_json 200 (SiteVerifyBody (accepted_site_verify c)) w)))))"

subsection \<open>The handler of the whole server\<close>

text \<open>One request, after \<open>http.ServeMux\<close> has matched its method and path.\<close>

datatype call =
    Health
  | MetricsReport
  | IssueChallenge http_request "challenge_request decoded"
  | VerifyChallenge http_request "verify_challenge_request decoded"
  | Preflight http_request
  | SiteVerify http_request site_verify_body

definition call_path :: "call \<Rightarrow> string" where
  "call_path k =
     (case k of
        Health \<Rightarrow> ''/healthz''
      | MetricsReport \<Rightarrow> ''/metrics''
      | IssueChallenge r b \<Rightarrow> ''/v1/challenge''
      | VerifyChallenge r b \<Rightarrow> ''/v1/challenge/'' @ path_id r @ ''/verify''
      | Preflight r \<Rightarrow> ''/v1/challenge''
      | SiteVerify r b \<Rightarrow> ''/v1/siteverify'')"

definition handle_call :: "world \<Rightarrow> call \<Rightarrow> server \<Rightarrow> writer \<Rightarrow> server \<times> writer" where
  "handle_call wd k s w =
     (case k of
        Health \<Rightarrow> (s, health w)
      | MetricsReport \<Rightarrow> (s, metrics_handler (stats s) w)
      | IssueChallenge r b \<Rightarrow> issue_challenge wd r b s w
      | VerifyChallenge r b \<Rightarrow> verify_challenge wd r b s w
      | Preflight r \<Rightarrow> (s, options r w)
      | SiteVerify r b \<Rightarrow> site_verify wd r b s w)"

definition serve :: "world \<Rightarrow> call \<Rightarrow> server \<Rightarrow> server \<times> writer" where
  "serve wd k s = handle_call wd k s (security (call_path k) fresh_writer)"

fun serve_all :: "(world \<times> call) list \<Rightarrow> server \<Rightarrow> server" where
  "serve_all [] s = s"
| "serve_all ((wd, k) # ks) s = serve_all ks (fst (serve wd k s))"

subsection \<open>What a request leaves alone\<close>

lemma count_fields [simp]:
  "cfg (count f s) = cfg s" "store (count f s) = store s" "signer (count f s) = signer s"
  "rep_url (count f s) = rep_url s" "scorer (count f s) = scorer s" "stats (count f s) = f (stats s)"
  by (simp_all add: count_def)

definition same_setup :: "server \<Rightarrow> server \<Rightarrow> bool" where
  "same_setup s t \<longleftrightarrow> cfg t = cfg s \<and> signer t = signer s \<and> rep_url t = rep_url s \<and> scorer t = scorer s"

lemma same_setup_refl [simp]: "same_setup s s"
  by (simp add: same_setup_def)

lemma same_setup_trans: "same_setup s t \<Longrightarrow> same_setup t u \<Longrightarrow> same_setup s u"
  by (simp add: same_setup_def)

lemma count_store_update [simp]: "(count f s)\<lparr>store := st\<rparr> = count f (s\<lparr>store := st\<rparr>)"
  by (simp add: count_def)

text \<open>
  A request acts on the store as a sequence of the store's operations. Each of them reads the
  clock of the request, if it reads one; a challenge is put under the identifier drawn first and
  with no attempt made, it is failed with the limit of three attempts, and a rate window lasts a
  minute.
\<close>

fun handler_op :: "world \<Rightarrow> store_op \<Rightarrow> bool" where
  "handler_op wd (Put now c) = (now \<in> range (clock wd) \<and> ch_attempts c = 0 \<and> new_id (random wd 0) = Inr (ch_id c))"
| "handler_op wd (Get now cid) = (now \<in> range (clock wd))"
| "handler_op wd (Fail cid n) = (n = 3)"
| "handler_op wd (Consume cid) = True"
| "handler_op wd (Spend now jti expiry) = (now \<in> range (clock wd))"
| "handler_op wd (Rate now key limit window) = (now \<in> range (clock wd) \<and> window = minute)"

definition acts :: "world \<Rightarrow> server \<Rightarrow> server \<Rightarrow> bool" where
  "acts wd s t \<longleftrightarrow>
     same_setup s t \<and> (\<exists>xs. list_all (handler_op wd) xs \<and> store t = run_ops xs (store s))"

lemma acts_refl [simp]: "acts wd s s"
  unfolding acts_def by (intro conjI exI [of _ "[]"]) simp_all

lemma acts_trans: "acts wd s t \<Longrightarrow> acts wd t u \<Longrightarrow> acts wd s u"
proof -
  assume st: "acts wd s t" and tu: "acts wd t u"
  from st obtain xs where xs: "list_all (handler_op wd) xs" "store t = run_ops xs (store s)"
    by (auto simp: acts_def)
  from tu obtain ys where ys: "list_all (handler_op wd) ys" "store u = run_ops ys (store t)"
    by (auto simp: acts_def)
  have "store u = run_ops (xs @ ys) (store s)" using xs(2) ys(2) by (simp add: run_ops_append)
  moreover have "same_setup s u" using st tu by (auto simp: acts_def intro: same_setup_trans)
  ultimately show ?thesis using xs(1) ys(1) unfolding acts_def by (intro conjI exI [of _ "xs @ ys"]) simp_all
qed

lemma acts_count [simp]: "acts wd (count f s) t \<longleftrightarrow> acts wd s t" "acts wd s (count f t) \<longleftrightarrow> acts wd s t"
  by (simp_all add: acts_def same_setup_def)

lemma acts_op: "handler_op wd x \<Longrightarrow> st = snd (run_op x (store s)) \<Longrightarrow> acts wd s (s\<lparr>store := st\<rparr>)"
  unfolding acts_def same_setup_def by (intro conjI exI [of _ "[x]"]) simp_all

lemma acts_put:
  "ch_attempts c = 0 \<Longrightarrow> new_id (random wd 0) = Inr (ch_id c) \<Longrightarrow>
     acts wd s (s\<lparr>store := put_challenge (clock wd n) c (store s)\<rparr>)"
  by (rule acts_op [of _ "Put (clock wd n) c"]) simp_all

lemma acts_fail: "acts wd s (s\<lparr>store := fail_challenge cid 3 (store s)\<rparr>)"
  by (rule acts_op [of _ "Fail cid 3"]) simp_all

lemma acts_get: "get_challenge (clock wd n) cid (store s) = (found, st) \<Longrightarrow> acts wd s (s\<lparr>store := st\<rparr>)"
  by (rule acts_op [of _ "Get (clock wd n) cid"]) simp_all

lemma acts_consume: "consume_challenge cid (store s) = (taken, st) \<Longrightarrow> acts wd s (s\<lparr>store := st\<rparr>)"
  by (rule acts_op [of _ "Consume cid"]) simp_all

lemma acts_spend: "consume_jti (clock wd n) jti e (store s) = (fresh, st) \<Longrightarrow> acts wd s (s\<lparr>store := st\<rparr>)"
  by (rule acts_op [of _ "Spend (clock wd n) jti e"]) simp_all

lemma acts_rate:
  "allow_rate (clock wd n) key limit minute (store s) = (ac, st) \<Longrightarrow> acts wd s (s\<lparr>store := st\<rparr>)"
  by (rule acts_op [of _ "Rate (clock wd n) key limit minute"]) simp_all

lemma new_challenge_fresh:
  "new_challenge rnd1 rnd2 now kind key action hostname sid bind score tags ttl = Inr c \<Longrightarrow>
     ch_attempts c = 0 \<and> new_id rnd1 = Inr (ch_id c)"
  by (erule new_challenge_Inr) (simp add: new_id_def)

lemma answer_decision_acts: "acts wd s (fst (answer_decision wd req hostname site ip decision s w))"
  by (simp add: answer_decision_def Let_def acts_put new_challenge_fresh split: sum.split prod.split)

lemma answer_decision_acts_count:
  "acts wd s (fst (answer_decision wd req hostname site ip decision (count f s) w))"
  using answer_decision_acts [of wd "count f s"] by simp

lemma admit_challenge_acts: "acts wd s (fst (admit_challenge wd r req hostname site s w))"
  unfolding admit_challenge_def Let_def
  by (auto split: prod.split intro: acts_rate acts_trans [OF acts_rate answer_decision_acts_count])

lemma issue_challenge_acts: "acts wd s (fst (issue_challenge wd r body s w))"
  unfolding issue_challenge_def Let_def
  using admit_challenge_acts [of wd "count inc_requests s"]
  by (simp split: sum.split option.split)

lemma redeem_challenge_acts: "acts wd s (fst (redeem_challenge wd site c cid pf s w))"
  unfolding redeem_challenge_def Let_def
  by (auto split: sum.split prod.split intro: acts_fail acts_consume)

lemma verify_challenge_acts: "acts wd s (fst (verify_challenge wd r body s w))"
proof (cases "get_challenge (clock wd 0) (path_id r) (store s)")
  case (Pair found st)
  let ?s = "s\<lparr>store := st\<rparr>"
  have *: "acts wd s ?s" using Pair by (rule acts_get)
  note acts_trans [OF * acts_fail] acts_trans [OF * redeem_challenge_acts]
  with * show ?thesis
    using redeem_challenge_acts [of wd "count inc_requests ?s"] acts_trans [OF *] acts_fail [of wd ?s]
    by (auto simp: verify_challenge_def Let_def Pair split: sum.split option.split)
qed

lemma site_verify_acts: "acts wd s (fst (site_verify wd r body s w))"
  unfolding site_verify_def Let_def refuse_site_verify_def
  by (auto split: sum.split option.split prod.split intro: acts_spend)

lemma serve_acts: "acts wd s (fst (serve wd k s))"
  by (simp add: serve_def handle_call_def issue_challenge_acts verify_challenge_acts site_verify_acts
      split: call.split)

end
