(* ===== verification/Protocol.thy ===== *)
theory Protocol
  imports Server
begin

text \<open>
  What the handlers of \<open>server.go\<close> accept, and what stays true over a run of requests: a token
  is accepted once, a challenge is redeemed once, three failed attempts end a challenge.
\<close>

subsection \<open>When a token is accepted\<close>

definition accepted :: "writer \<Rightarrow> bool" where
  "accepted w \<longleftrightarrow> (case w_body w of Some (SiteVerifyBody r) \<Rightarrow> svr_success r | _ \<Rightarrow> False)"

text \<open>Everything \<open>siteVerify\<close> checks before it spends the token.\<close>

definition presents :: "world \<Rightarrow> http_request \<Rightarrow> site_verify_body \<Rightarrow> server \<Rightarrow> token_claims \<Rightarrow> bool" where
  "presents wd r body s c \<longleftrightarrow>
     (\<exists>q site. parse_site_verify wd r body = Some q
        \<and> registry_get_by_secret (site_order wd) (rt_sites (cfg s)) (sv_secret q) = Some site
        \<and> verify_token (signer s) (sv_response q) (clock wd 0) = Inr c
        \<and> site_verify_mismatch wd s site q c = None)"

lemma site_verify_mismatch_count [simp]:
  "site_verify_mismatch wd (count f s) site q c = site_verify_mismatch wd s site q c"
  by (simp add: site_verify_mismatch_def)

lemma accepted_refuse [simp]: "\<not> accepted (snd (refuse_site_verify st code s w))"
  by (simp add: accepted_def refuse_site_verify_def failed_site_verify_def)

lemma presents_functional: "presents wd r body s c \<Longrightarrow> presents wd r body s c' \<Longrightarrow> c = c'"
  by (auto simp: presents_def)

lemma site_verify_presented:
  assumes "presents wd r body s c"
  shows "site_verify wd r body s w =
    (let (fresh, st) = consume_jti (clock wd 1) (tc_jti c) (time_unix (tc_expires_at c)) (store s);
         s1 = (count inc_requests s)\<lparr>store := st\<rparr>
     in if \<not> fresh then refuse_site_verify 200 ''timeout-or-duplicate'' (count inc_replays s1) w
        else (count inc_success s1, write_json 200 (SiteVerifyBody (accepted_site_verify c)) w))"
  using assms by (auto simp: presents_def site_verify_def)

lemma site_verify_not_presented:
  assumes "\<nexists>c. presents wd r body s c"
  shows "\<exists>st code. site_verify wd r body s w = refuse_site_verify st code (count inc_requests s) w"
  using assms by (auto simp: presents_def site_verify_def Let_def split: option.split sum.split)

lemma accepted_site_verify_success [simp]: "svr_success (accepted_site_verify c)"
  by (simp add: accepted_site_verify_def)

lemma site_verify_accepted_iff:
  "accepted (snd (site_verify wd r body s w)) \<longleftrightarrow>
     (\<exists>c. presents wd r body s c
        \<and> fst (consume_jti (clock wd 1) (tc_jti c) (time_unix (tc_expires_at c)) (store s)))"
proof (cases "\<exists>c. presents wd r body s c")
  case True
  then obtain c where c: "presents wd r body s c" ..
  then have "accepted (snd (site_verify wd r body s w)) \<longleftrightarrow>
      fst (consume_jti (clock wd 1) (tc_jti c) (time_unix (tc_expires_at c)) (store s))"
    by (simp add: site_verify_presented split_beta Let_def accepted_def [where w = "write_json st b v" for st b v])
  with c presents_functional [OF c] show ?thesis by blast
next
  case False
  with site_verify_not_presented [of wd r body s w] show ?thesis by auto
qed

lemma site_verify_accepted_presented:
  "presents wd r body s c \<Longrightarrow> accepted (snd (site_verify wd r body s w)) \<longleftrightarrow>
     fst (consume_jti (clock wd 1) (tc_jti c) (time_unix (tc_expires_at c)) (store s))"
  using presents_functional unfolding site_verify_accepted_iff by blast

lemma site_verify_accepted:
  assumes "presents wd r body s c"
    and "fst (consume_jti (clock wd 1) (tc_jti c) (time_unix (tc_expires_at c)) (store s))"
  shows "w_body (snd (site_verify wd r body s w)) = Some (SiteVerifyBody (accepted_site_verify c))"
    and "store (fst (site_verify wd r body s w))
       = snd (consume_jti (clock wd 1) (tc_jti c) (time_unix (tc_expires_at c)) (store s))"
  using assms by (simp_all add: site_verify_presented split_beta Let_def)

lemma serve_site_verify:
  "serve wd (SiteVerify r body) s = site_verify wd r body s (security ''/v1/siteverify'' fresh_writer)"
  by (simp add: serve_def handle_call_def call_path_def)

subsection \<open>Runs of requests\<close>

definition clocks_until :: "instant \<Rightarrow> world \<Rightarrow> bool" where
  "clocks_until e wd \<longleftrightarrow> (\<forall>t\<in>range (clock wd). t \<le> e)"

lemma handler_op_clock: "handler_op wd x \<Longrightarrow> op_clock x = Some t \<Longrightarrow> t \<in> range (clock wd)"
  by (cases x) simp_all

lemma serve_all_ops:
  assumes "list_all (\<lambda>(wd, k). clocks_until e wd) ks"
  shows "same_setup s (serve_all ks s)
    \<and> (\<exists>xs. (\<forall>x\<in>set xs. \<forall>t. op_clock x = Some t \<longrightarrow> t \<le> e)
         \<and> store (serve_all ks s) = fold (\<lambda>x m. snd (run_op x m)) xs (store s))"
  using assms
proof (induction ks arbitrary: s)
  case Nil
  show ?case by (intro conjI exI [of _ "[]"]) simp_all
next
  case (Cons wk ks)
  obtain wd k where wk: "wk = (wd, k)" by (cases wk)
  let ?t = "fst (serve wd k s)"
  have "acts wd s ?t" by (rule serve_acts)
  then obtain xs where st: "same_setup s ?t" and xs: "list_all (handler_op wd) xs" "store ?t = run_ops xs (store s)"
    by (auto simp: acts_def)
  have clk: "\<forall>x\<in>set xs. \<forall>t. op_clock x = Some t \<longrightarrow> t \<le> e"
    using Cons.prems xs(1) by (auto simp: wk clocks_until_def list_all_iff dest!: handler_op_clock bspec)
  have "list_all (\<lambda>(wd, k). clocks_until e wd) ks" using Cons.prems by simp
  from Cons.IH [OF this, of ?t] obtain ys where "same_setup ?t (serve_all ks ?t)"
    and ys: "\<forall>x\<in>set ys. \<forall>t. op_clock x = Some t \<longrightarrow> t \<le> e"
      "store (serve_all ks ?t) = fold (\<lambda>x m. snd (run_op x m)) ys (store ?t)"
    by blast
  with st have "same_setup s (serve_all (wk # ks) s)" by (auto simp: wk intro: same_setup_trans)
  moreover have "store (serve_all (wk # ks) s) = fold (\<lambda>x m. snd (run_op x m)) (xs @ ys) (store s)"
    by (simp add: wk ys(2) xs(2) run_ops_fold)
  moreover have "\<forall>x\<in>set (xs @ ys). \<forall>t. op_clock x = Some t \<longrightarrow> t \<le> e" using clk ys(1) by auto
  ultimately show ?case by blast
qed

lemma site_verify_spends:
  assumes "presents wd r body s c" and "accepted (snd (serve wd (SiteVerify r body) s))"
  shows "fst (consume_jti (clock wd 1) (tc_jti c) (time_unix (tc_expires_at c)) (store s))"
    and "store (fst (serve wd (SiteVerify r body) s))
       = snd (consume_jti (clock wd 1) (tc_jti c) (time_unix (tc_expires_at c)) (store s))"
proof -
  show fresh: "fst (consume_jti (clock wd 1) (tc_jti c) (time_unix (tc_expires_at c)) (store s))"
    using assms(2) unfolding serve_site_verify site_verify_accepted_presented [OF assms(1)] .
  show "store (fst (serve wd (SiteVerify r body) s))
       = snd (consume_jti (clock wd 1) (tc_jti c) (time_unix (tc_expires_at c)) (store s))"
    unfolding serve_site_verify by (rule site_verify_accepted(2) [OF assms(1) fresh])
qed

text \<open>The checks of \<open>siteVerify\<close> between signature and spending, as one condition.\<close>

definition network_expected :: "server \<Rightarrow> site \<Rightarrow> site_verify_request \<Rightarrow> token_claims \<Rightarrow> bool" where
  "network_expected s site q c \<longleftrightarrow>
     (if bind_ip_prefix site
      then sv_remote_ip q \<noteq> [] \<and> bind_ip (ip_binding_secret (cfg s)) (sv_remote_ip q) = tc_ip_bind c
      else True)"

definition expected_by :: "world \<Rightarrow> server \<Rightarrow> site \<Rightarrow> site_verify_request \<Rightarrow> token_claims \<Rightarrow> bool" where
  "expected_by wd s site q c \<longleftrightarrow>
     tc_site_key c = site_key site
     \<and> sv_expected_action q \<noteq> [] \<and> sv_expected_action q = tc_action c
     \<and> sv_expected_hostname q \<noteq> []
     \<and> normalize_hostname (lower wd) (sv_expected_hostname q) = normalize_hostname (lower wd) (tc_hostname c)
     \<and> network_expected s site q c"

lemma site_verify_mismatch_iff: "site_verify_mismatch wd s site q c = None \<longleftrightarrow> expected_by wd s site q c"
  by (auto simp: site_verify_mismatch_def expected_by_def network_expected_def)

text \<open>No mark that is still alive at \<open>now\<close>.\<close>

definition unspent :: "instant \<Rightarrow> string \<Rightarrow> memory \<Rightarrow> bool" where
  "unspent now jti m \<longleftrightarrow> (case spent m jti of None \<Rightarrow> True | Some expiry \<Rightarrow> expiry < now)"

lemma unspent_iff: "unspent now jti m \<longleftrightarrow> fst (consume_jti now jti e m)"
  by (simp add: unspent_def consume_jti_iff split: option.split)

subsection \<open>When a challenge is redeemed\<close>

definition binding_holds :: "server \<Rightarrow> site \<Rightarrow> http_request \<Rightarrow> challenge \<Rightarrow> bool" where
  "binding_holds s site r c \<longleftrightarrow>
     \<not> bind_ip_prefix site \<or> bind_ip (ip_binding_secret (cfg s)) (network_of s r) = ch_ip_bind c"

text \<open>Everything \<open>verifyChallenge\<close> checks before it consumes the challenge.\<close>

definition redeemable ::
  "world \<Rightarrow> http_request \<Rightarrow> verify_challenge_request decoded \<Rightarrow> server \<Rightarrow> challenge \<Rightarrow> site \<Rightarrow> bool" where
  "redeemable wd r body s c site \<longleftrightarrow>
     path_id r \<noteq> [] \<and> length (path_id r) \<le> 96
     \<and> challenges (store s) (path_id r) = Some c \<and> clock wd 0 \<le> ch_expires_at c
     \<and> rt_sites (cfg s) (ch_site_key c) = Some site
     \<and> origin_allowed_for_hostname wd r site (ch_hostname c)
     \<and> binding_holds s site r c
     \<and> (\<exists>req. body = GoodJson req True
          \<and> vc_session_id req = ch_session_id c \<and> ch_session_id c \<noteq> []
          \<and> verify_challenge_proof (clock wd 1) (clock wd 2) c (vc_proof req) = Inr ())"

definition redeemed_claims :: "bytes \<Rightarrow> instant \<Rightarrow> challenge \<Rightarrow> site \<Rightarrow> token_claims" where
  "redeemed_claims rnd now c site =
     minted_claims rnd now (ch_site_key c) (ch_action c) (ch_hostname c) (ch_ip_bind c) (ch_kind c)
       (ch_risk_score c) (ttl_of (token_ttl_seconds site))"

definition redeemed :: "string \<Rightarrow> verify_challenge_response" where
  "redeemed tok = \<lparr>vr_success = True, vr_token = tok, vr_error = []\<rparr>"

lemma get_challenge_fields:
  "fst (get_challenge now cid m) = Some c \<longleftrightarrow> challenges m cid = Some c \<and> now \<le> ch_expires_at c"
  "challenges (snd (get_challenge now cid m)) cid = fst (get_challenge now cid m)"
  by (auto simp: get_challenge_def Let_def gc_locked_def purge_Some)

lemma network_of_simps [simp]:
  "network_of (count f s) r = network_of s r" "network_of (s\<lparr>store := st\<rparr>) r = network_of s r"
  by (simp_all add: network_of_def)

text \<open>The handler once the checks have passed: what is left is the random source.\<close>

lemma consume_present:
  "challenges m cid = Some c \<Longrightarrow> consume_challenge cid m = (True, m\<lparr>challenges := (challenges m)(cid := None)\<rparr>)"
  by (simp add: consume_challenge_def)

lemma verify_challenge_redeemable:
  assumes "redeemable wd r body s c site"
  shows "fst (verify_challenge wd r body s w) =
      (count inc_requests s)\<lparr>store := snd (consume_challenge (path_id r) (snd (get_challenge (clock wd 0) (path_id r) (store s))))\<rparr>"
    and "snd (verify_challenge wd r body s w) =
      (case mint (random wd 0) (clock wd 3) (signer s) (ch_site_key c) (ch_action c)
              (ch_hostname c) (ch_ip_bind c) (ch_kind c) (ch_risk_score c) (ttl_of (token_ttl_seconds site)) of
         Inl _ \<Rightarrow> write_error 500 ''internal-error'' (set_cors r w)
       | Inr (tok, _) \<Rightarrow> write_json 200 (VerifyBody (redeemed tok)) (set_cors r w))"
proof -
  obtain req where body: "body = GoodJson req True"
      "vc_session_id req = ch_session_id c" "ch_session_id c \<noteq> []"
      "verify_challenge_proof (clock wd 1) (clock wd 2) c (vc_proof req) = Inr ()"
    using assms by (auto simp: redeemable_def)
  obtain found st where g: "get_challenge (clock wd 0) (path_id r) (store s) = (found, st)" by fastforce
  have "found = Some c" "challenges st (path_id r) = Some c"
    using assms get_challenge_fields [of "clock wd 0" "path_id r" "store s"]
    by (auto simp: redeemable_def g)
  then have main: "verify_challenge wd r body s w =
      redeem_challenge wd site c (path_id r) (vc_proof req) ((count inc_requests s)\<lparr>store := st\<rparr>) (set_cors r w)"
    using assms body by (auto simp: redeemable_def binding_holds_def verify_challenge_def Let_def g
        decode_json_def registry_get_def)
  show "fst (verify_challenge wd r body s w) =
      (count inc_requests s)\<lparr>store := snd (consume_challenge (path_id r) (snd (get_challenge (clock wd 0) (path_id r) (store s))))\<rparr>"
    "snd (verify_challenge wd r body s w) =
      (case mint (random wd 0) (clock wd 3) (signer s) (ch_site_key c) (ch_action c)
              (ch_hostname c) (ch_ip_bind c) (ch_kind c) (ch_risk_score c) (ttl_of (token_ttl_seconds site)) of
         Inl _ \<Rightarrow> write_error 500 ''internal-error'' (set_cors r w)
       | Inr (tok, _) \<Rightarrow> write_json 200 (VerifyBody (redeemed tok)) (set_cors r w))"
    unfolding main
    by (simp_all add: redeem_challenge_def Let_def body(4) consume_present \<open>challenges st (path_id r) = Some c\<close>
        g redeemed_def del: One_nat_def split: sum.split prod.split)
qed

lemma decode_json_Inl: "decode_json body w = Inl w' \<Longrightarrow> \<exists>e. w_body w' = Some (ErrorBody e)"
  by (auto simp: decode_json_def split: decoded.splits if_splits)

lemma decode_json_Inr: "decode_json body w = Inr v \<longleftrightarrow> body = GoodJson v True"
  by (auto simp: decode_json_def split: decoded.splits if_splits)

lemma redeem_challenge_success:
  assumes "w_body (snd (redeem_challenge wd site c cid pf s w)) = Some (VerifyBody (redeemed tok))"
  shows "verify_challenge_proof (clock wd 1) (clock wd 2) c pf = Inr ()"
  using assms by (auto simp: redeem_challenge_def redeemed_def split: sum.splits)

lemma verify_challenge_success:
  assumes "w_body (snd (verify_challenge wd r body s w)) = Some (VerifyBody (redeemed tok))"
  shows "\<exists>c site. redeemable wd r body s c site"
proof -
  obtain found st where g: "get_challenge (clock wd 0) (path_id r) (store s) = (found, st)" by fastforce
  note a = assms [unfolded verify_challenge_def Let_def count_fields g prod.case]
  have cid: "path_id r \<noteq> [] \<and> length (path_id r) \<le> 96" using a by (auto split: if_splits)
  with a obtain c where c: "found = Some c" by (cases found) auto
  from a cid c obtain site where site: "rt_sites (cfg s) (ch_site_key c) = Some site"
    by (cases "rt_sites (cfg s) (ch_site_key c)") (auto simp: registry_get_def)
  from a cid c site have origin: "origin_allowed_for_hostname wd r site (ch_hostname c)"
    by (auto simp: registry_get_def split: if_splits)
  from a cid c site origin have bind: "binding_holds s site r c"
    by (auto simp: registry_get_def binding_holds_def split: if_splits)
  from a cid c site origin bind obtain req where req: "decode_json body (set_cors r w) = Inr req"
    using decode_json_Inl [of body "set_cors r w"]
    by (cases "decode_json body (set_cors r w)") (auto simp: registry_get_def binding_holds_def)
  from a cid c site origin bind req
  have sid: "vc_session_id req = ch_session_id c \<and> ch_session_id c \<noteq> []"
    by (auto simp: registry_get_def binding_holds_def split: if_splits)
  from a cid c site origin bind req sid
  have "verify_challenge_proof (clock wd 1) (clock wd 2) c (vc_proof req) = Inr ()"
    by (intro redeem_challenge_success) (auto simp: registry_get_def binding_holds_def)
  with cid c site origin bind req sid show ?thesis
    using get_challenge_fields(1) [of "clock wd 0" "path_id r" "store s" c]
    by (auto simp: redeemable_def g decode_json_Inr)
qed

lemma serve_verify_challenge:
  "serve wd (VerifyChallenge r body) s = verify_challenge wd r body s (security (call_path (VerifyChallenge r body)) fresh_writer)"
  by (simp add: serve_def handle_call_def)

text \<open>A redeemed challenge is gone.\<close>

lemma redeemed_gone:
  assumes "redeemable wd r body s c site"
  shows "challenges (store (fst (serve wd (VerifyChallenge r body) s))) (path_id r) = None"
  unfolding serve_verify_challenge verify_challenge_redeemable(1) [OF assms]
  by (simp add: consume_challenge_removes)

lemma redeemable_present: "redeemable wd r body s c site \<Longrightarrow> challenges (store s) (path_id r) = Some c"
  by (simp add: redeemable_def)

subsection \<open>The store along a run\<close>

text \<open>A stored challenge is filed under its identifier and has fewer than three failed attempts.\<close>

definition store_ok :: "memory \<Rightarrow> bool" where
  "store_ok m \<longleftrightarrow>
     (\<forall>cid c. challenges m cid = Some c \<longrightarrow> ch_id c = cid \<and> 0 \<le> ch_attempts c \<and> ch_attempts c < 3)"

lemma store_okD:
  "store_ok m \<Longrightarrow> challenges m cid = Some c \<Longrightarrow> ch_id c = cid \<and> 0 \<le> ch_attempts c \<and> ch_attempts c < 3"
  by (simp add: store_ok_def)

lemma run_op_store_ok: "handler_op wd x \<Longrightarrow> store_ok m \<Longrightarrow> store_ok (snd (run_op x m))"
proof (cases x)
  case (Fail cid n)
  assume x: "handler_op wd x" and m: "store_ok m"
  have wrap: "wrap64 (ch_attempts c + 1) = ch_attempts c + 1" if "challenges m k = Some c" for k c
    using store_okD [OF m that] by simp
  show ?thesis
    using x m wrap
    by (auto simp: Fail store_ok_def fail_challenge_def Let_def split: option.splits if_splits)
qed (auto simp: store_ok_def store_op_defs purge_Some split: option.splits if_splits)

lemma run_ops_store_ok: "list_all (handler_op wd) xs \<Longrightarrow> store_ok m \<Longrightarrow> store_ok (run_ops xs m)"
  by (induction xs arbitrary: m) (auto intro: run_op_store_ok)

lemma acts_store_ok: "acts wd s t \<Longrightarrow> store_ok (store s) \<Longrightarrow> store_ok (store t)"
  by (auto simp: acts_def run_ops_store_ok)

lemma serve_all_store_ok: "store_ok (store s) \<Longrightarrow> store_ok (store (serve_all ks s))"
  by (induction ks s rule: serve_all.induct) (simp_all add: acts_store_ok [OF serve_acts])

lemma serve_all_setup: "same_setup s (serve_all ks s)"
proof (induction ks arbitrary: s)
  case (Cons wk ks)
  obtain wd k where wk: "wk = (wd, k)" by (cases wk)
  have "same_setup s (fst (serve wd k s))" using serve_acts [of wd s k] by (simp add: acts_def)
  with Cons.IH [of "fst (serve wd k s)"] show ?case by (auto simp: wk intro: same_setup_trans)
qed simp

text \<open>The identifier is not drawn again.\<close>

definition never_issues :: "string \<Rightarrow> world \<Rightarrow> bool" where
  "never_issues cid wd \<longleftrightarrow> new_id (random wd 0) \<noteq> Inr cid"

lemma handler_op_creates: "handler_op wd x \<Longrightarrow> never_issues cid wd \<Longrightarrow> \<not> creates cid x"
  by (cases x) (auto simp: never_issues_def)

lemma acts_gone:
  assumes "acts wd s t" and "never_issues cid wd" and "challenges (store s) cid = None"
  shows "challenges (store t) cid = None"
proof -
  obtain xs where xs: "list_all (handler_op wd) xs" "store t = run_ops xs (store s)"
    using assms(1) by (auto simp: acts_def)
  have "\<not> creates cid x" if "x \<in> set xs" for x
    using xs(1) that assms(2) by (auto simp: list_all_iff handler_op_creates)
  with assms(3) show ?thesis unfolding xs(2) run_ops_fold by (intro pool.steps_gone)
qed

lemma serve_all_gone:
  "list_all (\<lambda>(wd, k). never_issues cid wd) ks \<Longrightarrow> challenges (store s) cid = None
   \<Longrightarrow> challenges (store (serve_all ks s)) cid = None"
  by (induction ks s rule: serve_all.induct) (simp_all add: acts_gone [OF serve_acts])

lemma redeemed_once:
  assumes "redeemable wd r body s c site" and "path_id r' = path_id r"
    and "list_all (\<lambda>(wd, k). never_issues (path_id r) wd) ks"
  shows "\<not> redeemable wd' r' body' (serve_all ks (fst (serve wd (VerifyChallenge r body) s))) c' site'"
  using serve_all_gone [OF assms(3) redeemed_gone [OF assms(1)]] assms(2)
  by (auto simp: redeemable_def)

text \<open>A failed attempt on a challenge, seen from outside: the answer names the reason.\<close>

definition invalid_proof :: resp_body where
  "invalid_proof = VerifyBody \<lparr>vr_success = False, vr_token = [], vr_error = ''invalid-proof''\<rparr>"

definition strike_body :: "resp_body option \<Rightarrow> bool" where
  "strike_body b \<longleftrightarrow> b = Some (ErrorBody ''network-binding-mismatch'')
     \<or> b = Some (ErrorBody ''session-binding-mismatch'') \<or> b = Some invalid_proof"

definition strikes :: "string \<Rightarrow> call \<Rightarrow> writer \<Rightarrow> bool" where
  "strikes cid k w \<longleftrightarrow>
     (case k of VerifyChallenge r b \<Rightarrow> path_id r = cid \<and> strike_body (w_body w) | _ \<Rightarrow> False)"

fun strike_count :: "string \<Rightarrow> (world \<times> call) list \<Rightarrow> server \<Rightarrow> nat" where
  "strike_count cid [] s = 0"
| "strike_count cid ((wd, k) # ks) s =
     (if strikes cid k (snd (serve wd k s)) then 1 else 0) + strike_count cid ks (fst (serve wd k s))"

lemma decode_json_no_strike: "decode_json body w = Inl w' \<Longrightarrow> \<not> strike_body (w_body w')"
  by (auto simp: decode_json_def strike_body_def invalid_proof_def split: decoded.splits if_splits)

lemma redeem_challenge_strike:
  assumes "strike_body (w_body (snd (redeem_challenge wd site c cid pf s w)))"
  shows "store (fst (redeem_challenge wd site c cid pf s w)) = fail_challenge cid 3 (store s)"
  using assms
  by (auto simp: redeem_challenge_def Let_def strike_body_def invalid_proof_def split: sum.splits prod.splits if_splits)

lemma verify_challenge_strike:
  assumes "strike_body (w_body (snd (verify_challenge wd r body s w)))"
  shows "store (fst (verify_challenge wd r body s w))
       = fail_challenge (path_id r) 3 (snd (get_challenge (clock wd 0) (path_id r) (store s)))"
proof -
  obtain found st where g: "get_challenge (clock wd 0) (path_id r) (store s) = (found, st)" by fastforce
  note a = assms [unfolded verify_challenge_def Let_def count_fields g prod.case]
  have err: "\<not> strike_body (Some (ErrorBody e))"
    if "e \<noteq> ''network-binding-mismatch''" "e \<noteq> ''session-binding-mismatch''" for e
    using that by (simp add: strike_body_def invalid_proof_def)
  have cid: "path_id r \<noteq> [] \<and> length (path_id r) \<le> 96" using a by (auto simp: err split: if_splits)
  with a obtain c where c: "found = Some c" by (cases found) (auto simp: err)
  from a cid c obtain site where site: "rt_sites (cfg s) (ch_site_key c) = Some site"
    by (cases "rt_sites (cfg s) (ch_site_key c)") (auto simp: registry_get_def err)
  from a cid c site have origin: "origin_allowed_for_hostname wd r site (ch_hostname c)"
    by (auto simp: registry_get_def err split: if_splits)
  show ?thesis
  proof (cases "binding_holds s site r c")
    case False
    with cid c site origin show ?thesis
      by (auto simp: verify_challenge_def g registry_get_def binding_holds_def)
  next
    case bind: True
    from a cid c site origin bind obtain req where req: "decode_json body (set_cors r w) = Inr req"
      using decode_json_no_strike [of body "set_cors r w"]
      by (cases "decode_json body (set_cors r w)") (auto simp: registry_get_def binding_holds_def)
    show ?thesis
    proof (cases "vc_session_id req = [] \<or> vc_session_id req \<noteq> ch_session_id c")
      case True
      with cid c site origin bind req show ?thesis
        by (auto simp: verify_challenge_def g registry_get_def binding_holds_def)
    next
      case False
      let ?t = "(count inc_requests s)\<lparr>store := st\<rparr>"
      have eq: "verify_challenge wd r body s w = redeem_challenge wd site c (path_id r) (vc_proof req) ?t (set_cors r w)"
        using False cid c site origin bind req
        by (auto simp: verify_challenge_def g registry_get_def binding_holds_def)
      show ?thesis
        using redeem_challenge_strike [OF assms [unfolded eq]] by (simp add: eq g)
    qed
  qed
qed

lemma serve_strike:
  assumes "strikes cid k (snd (serve wd k s))" and "store_ok (store s)"
    and "challenges (store (fst (serve wd k s))) cid = Some c'"
  shows "\<exists>c. challenges (store s) cid = Some c \<and> ch_attempts c' = ch_attempts c + 1"
proof -
  obtain r b where k: "k = VerifyChallenge r b" "path_id r = cid"
    "strike_body (w_body (snd (serve wd k s)))"
    using assms(1) by (auto simp: strikes_def split: call.splits)
  have "store (fst (serve wd k s)) = fail_challenge cid 3 (snd (get_challenge (clock wd 0) cid (store s)))"
    using k unfolding k(1) serve_verify_challenge by (auto dest: verify_challenge_strike)
  with assms(3) obtain c where c: "challenges (snd (get_challenge (clock wd 0) cid (store s))) cid = Some c"
      "ch_attempts c' = wrap64 (ch_attempts c + 1)"
    by (auto simp: fail_challenge_def Let_def split: option.splits if_splits)
  then have "challenges (store s) cid = Some c"
    by (simp add: get_challenge_fields)
  with c(2) store_okD [OF assms(2), of cid c] show ?thesis by auto
qed

lemma acts_attempts:
  assumes "acts wd s t" and "store_ok (store s)" and "never_issues cid wd"
    and "challenges (store t) cid = Some c'"
  shows "\<exists>c. challenges (store s) cid = Some c \<and> ch_attempts c \<le> ch_attempts c'"
proof -
  obtain xs where xs: "list_all (handler_op wd) xs" "store t = run_ops xs (store s)"
    using assms(1) by (auto simp: acts_def)
  have op: "\<not> creates cid x" "fails_with cid 3 x" if "x \<in> set xs" for x
    using xs(1) that assms(3) by (auto simp: list_all_iff handler_op_creates) (cases x, auto)
  have "\<exists>c. challenges (store s) cid = Some c
     \<and> c' = c\<lparr>ch_attempts := ch_attempts c + failures cid xs\<rparr>
     \<and> (failures cid xs > 0 \<longrightarrow> ch_attempts c' < 3)"
  proof (rule run_ops_challenge)
    show "challenges (run_ops xs (store s)) cid = Some c'" using assms(4) xs(2) by simp
    show "0 \<le> ch_attempts c \<and> ch_attempts c < 2 ^ 62" if "challenges (store s) cid = Some c" for c
      using store_okD [OF assms(2) that] by simp
  qed (use op in simp_all)
  then show ?thesis by (auto simp: failures_def)
qed

lemma strikes_add_up:
  assumes "store_ok (store s)" and "list_all (\<lambda>(wd, k). never_issues cid wd) ks"
    and "challenges (store (serve_all ks s)) cid = Some c'"
  shows "\<exists>c. challenges (store s) cid = Some c \<and> ch_attempts c + int (strike_count cid ks s) \<le> ch_attempts c'"
  using assms
proof (induction ks arbitrary: s)
  case (Cons wk ks)
  obtain wd k where wk: "wk = (wd, k)" by (cases wk)
  let ?t = "fst (serve wd k s)"
  have ok: "store_ok (store ?t)" using Cons.prems(1) by (rule acts_store_ok [OF serve_acts])
  obtain c1 where c1: "challenges (store ?t) cid = Some c1"
      "ch_attempts c1 + int (strike_count cid ks ?t) \<le> ch_attempts c'"
    using Cons.IH [OF ok] Cons.prems(2,3) by (auto simp: wk)
  show ?case
  proof (cases "strikes cid k (snd (serve wd k s))")
    case True
    then show ?thesis using serve_strike [OF True Cons.prems(1) c1(1)] c1(2) by (auto simp: wk)
  next
    case False
    have "never_issues cid wd" using Cons.prems(2) by (simp add: wk)
    from acts_attempts [OF serve_acts Cons.prems(1) this c1(1)] c1(2) False show ?thesis
      by (auto simp: wk)
  qed
qed simp

subsection \<open>When a challenge request is answered\<close>

text \<open>Everything \<open>issueChallenge\<close> checks before it scores the request.\<close>

definition admissible ::
  "world \<Rightarrow> http_request \<Rightarrow> challenge_request decoded \<Rightarrow> server \<Rightarrow> challenge_request \<Rightarrow> site \<Rightarrow> bool" where
  "admissible wd r body s req site \<longleftrightarrow>
     body = GoodJson req True
     \<and> rt_sites (cfg s) (cr_site_key req) = Some site
     \<and> action_ok (cr_action req)
     \<and> allows_hostname (lower wd) site (cr_hostname req)
     \<and> cr_session_id req \<noteq> [] \<and> length (cr_session_id req) \<le> 128
     \<and> origin_allowed_for_hostname wd r site (normalize_hostname (lower wd) (cr_hostname req))"

definition rate_check :: "world \<Rightarrow> http_request \<Rightarrow> challenge_request \<Rightarrow> site \<Rightarrow> server \<Rightarrow> bool \<times> int" where
  "rate_check wd r req site s =
     fst (allow_rate (clock wd 0) (rate_key site (network_of s r) (cr_action req))
            (rate_limit_per_minute site) minute (store s))"

definition verdict :: "world \<Rightarrow> http_request \<Rightarrow> challenge_request \<Rightarrow> site \<Rightarrow> server \<Rightarrow> risk_decision" where
  "verdict wd r req site s =
     run_scorer wd (scorer s)
       (risk_input_of s wd r req (network_of s r) (snd (rate_check wd r req site s))) site"

definition rated_store :: "world \<Rightarrow> http_request \<Rightarrow> challenge_request \<Rightarrow> site \<Rightarrow> server \<Rightarrow> memory" where
  "rated_store wd r req site s =
     snd (allow_rate (clock wd 0) (rate_key site (network_of s r) (cr_action req))
            (rate_limit_per_minute site) minute (store s))"

lemma risk_input_of_simps [simp]:
  "risk_input_of (count f s) = risk_input_of s" "risk_input_of (s\<lparr>store := st\<rparr>) = risk_input_of s"
  by (intro ext, simp add: risk_input_of_def)+

lemma binding_of_simps [simp]:
  "binding_of (count f s) = binding_of s" "binding_of (s\<lparr>store := st\<rparr>) = binding_of s"
  by (intro ext, simp add: binding_of_def)+

lemma issue_challenge_admissible:
  assumes "admissible wd r body s req site"
  shows "issue_challenge wd r body s w =
    (let s1 = (count inc_requests s)\<lparr>store := rated_store wd r req site s\<rparr> in
     if \<not> fst (rate_check wd r req site s)
     then (count inc_rate_limited s1, write_error 429 ''rate-limited'' (set_cors r w))
     else answer_decision wd req (normalize_hostname (lower wd) (cr_hostname req)) site (network_of s r)
            (verdict wd r req site s) (count inc_challenges s1) (set_cors r w))"
  using assms
  by (simp add: admissible_def issue_challenge_def decode_json_def registry_get_def
      admit_challenge_def rate_check_def verdict_def rated_store_def split_beta Let_def)

text \<open>The refusals of a request that does not pass the checks.\<close>

definition refusals :: "(int \<times> string) list" where
  "refusals =
     [(400, ''invalid-json''), (400, ''multiple-json-values''), (400, ''invalid-site-key''),
      (400, ''invalid-action''), (400, ''hostname-not-allowed''), (400, ''invalid-session-id''),
      (403, ''origin-not-allowed'')]"

lemma issue_challenge_refused:
  assumes "\<nexists>req site. admissible wd r body s req site"
  shows "\<exists>(st, e)\<in>set refusals. issue_challenge wd r body s w = (count inc_requests s, write_error st e w)"
proof (cases "decode_json body w")
  case (Inl w')
  then have "w' = write_error 400 ''invalid-json'' w \<or> w' = write_error 400 ''multiple-json-values'' w"
    by (auto simp: decode_json_def split: decoded.splits if_splits)
  with Inl show ?thesis by (auto simp: issue_challenge_def refusals_def)
next
  case (Inr req)
  then have body: "body = GoodJson req True" by (simp add: decode_json_Inr)
  show ?thesis
  proof (cases "rt_sites (cfg s) (cr_site_key req)")
    case None
    then show ?thesis by (auto simp: issue_challenge_def Inr registry_get_def refusals_def)
  next
    case (Some site)
    then show ?thesis
      using assms body
      by (auto simp: issue_challenge_def decode_json_def registry_get_def admissible_def Let_def refusals_def)
  qed
qed

lemma redeem_challenge_id: "w_body (snd (redeem_challenge wd site c cid pf s w)) \<noteq> Some (ErrorBody ''invalid-challenge-id'')"
  by (simp add: redeem_challenge_def Let_def split: sum.split prod.split)

lemma decode_json_id: "decode_json b w = Inl w' \<Longrightarrow> w_body w' \<noteq> Some (ErrorBody ''invalid-challenge-id'')"
  by (auto simp: decode_json_def split: decoded.splits if_splits)

lemma verify_challenge_id:
  "path_id r \<noteq> [] \<Longrightarrow> length (path_id r) \<le> 96 \<Longrightarrow>
     w_body (snd (verify_challenge wd r b s w)) \<noteq> Some (ErrorBody ''invalid-challenge-id'')"
  by (simp add: verify_challenge_def Let_def redeem_challenge_id decode_json_id
      split: sum.split prod.split option.split)

end
