(* ===== verification/Answers.thy ===== *)
theory Answers
  imports Protocol
begin

text \<open>
  What \<open>issueChallenge\<close> answers to a request that passes its checks: a token, a challenge or a
  refusal, by the decision of the scorer.
\<close>

lemma sign_not_Nil: "sign s c = Inr tok \<Longrightarrow> tok \<noteq> []"
  by (auto simp: sign_def Let_def split: option.splits)

definition passive_claims :: "world \<Rightarrow> http_request \<Rightarrow> challenge_request \<Rightarrow> site \<Rightarrow> server \<Rightarrow> bytes \<Rightarrow> token_claims" where
  "passive_claims wd r req site s rnd =
     minted_claims rnd (clock wd 1) (site_key site) (cr_action req)
       (normalize_hostname (lower wd) (cr_hostname req)) (binding_of s site (network_of s r)) ''passive''
       (rd_score (verdict wd r req site s)) (ttl_of (token_ttl_seconds site))"

definition passive_answer :: "string \<Rightarrow> challenge_response" where
  "passive_answer tok = empty_challenge_response\<lparr>resp_decision := ''allow'', resp_token := tok\<rparr>"

definition scored_as :: "world \<Rightarrow> http_request \<Rightarrow> challenge_request decoded \<Rightarrow> server \<Rightarrow> challenge_request \<Rightarrow> site
    \<Rightarrow> string \<Rightarrow> bool" where
  "scored_as wd r body s req site d \<longleftrightarrow>
     admissible wd r body s req site \<and> fst (rate_check wd r req site s)
     \<and> rd_decision (verdict wd r req site s) = d"

lemma serve_issue_challenge:
  "serve wd (IssueChallenge r body) s = issue_challenge wd r body s (security ''/v1/challenge'' fresh_writer)"
  by (simp add: serve_def handle_call_def call_path_def)

lemma security_untouched [simp]:
  "w_body (security path w) = w_body w" "w_status (security path w) = w_status w"
  by (simp_all add: security_def Let_def)

lemma fresh_writer_fields [simp]:
  "w_body fresh_writer = None" "w_status fresh_writer = None" "w_header fresh_writer = Map.empty"
  by (simp_all add: fresh_writer_def)

lemma issue_body_cases:
  assumes "w_body (snd (issue_challenge wd r body s w)) = Some (ChallengeBody resp)" and "w_body w = None"
  shows "\<exists>req site d. scored_as wd r body s req site d \<and> d \<in> {''block'', ''allow'', ''pow'', ''interactive''}"
proof (cases "\<exists>req site. admissible wd r body s req site")
  case False
  then show ?thesis using issue_challenge_refused [of wd r body s w] assms(1) by auto
next
  case True
  then obtain req site where a: "admissible wd r body s req site" by blast
  have "fst (rate_check wd r req site s)"
    using assms(1) unfolding issue_challenge_admissible [OF a] by (auto simp: Let_def split: if_splits)
  moreover have "rd_decision (verdict wd r req site s) \<in> {''block'', ''allow'', ''pow'', ''interactive''}"
    using assms(1) unfolding issue_challenge_admissible [OF a]
    by (auto simp: Let_def answer_decision_def split: if_splits)
  ultimately show ?thesis using a unfolding scored_as_def by blast
qed

lemma issue_scored:
  assumes "scored_as wd r body s req site d"
  shows "issue_challenge wd r body s w =
    answer_decision wd req (normalize_hostname (lower wd) (cr_hostname req)) site (network_of s r)
      (verdict wd r req site s)
      (count inc_challenges ((count inc_requests s)\<lparr>store := rated_store wd r req site s\<rparr>)) (set_cors r w)"
  using assms issue_challenge_admissible [of wd r body s req site w] by (simp add: scored_as_def Let_def)

lemma scored_as_functional:
  "scored_as wd r body s req site d \<Longrightarrow> scored_as wd r body s req' site' d' \<Longrightarrow> req = req' \<and> site = site' \<and> d = d'"
  by (auto simp: scored_as_def admissible_def)

lemma issue_token:
  assumes "scored_as wd r body s req site ''allow''"
  shows "w_body (snd (issue_challenge wd r body s w)) = Some (ChallengeBody (passive_answer tok)) \<longleftrightarrow>
     (\<exists>rnd. read_random 18 (random wd 0) = Some rnd
        \<and> sign (signer s) (passive_claims wd r req site s rnd) = Inr tok)"
proof -
  have v: "rd_decision (verdict wd r req site s) = ''allow''" using assms by (simp add: scored_as_def)
  let ?m = "mint (random wd 0) (clock wd 1) (signer s) (site_key site) (cr_action req)
      (normalize_hostname (lower wd) (cr_hostname req)) (binding_of s site (network_of s r)) ''passive''
      (rd_score (verdict wd r req site s)) (ttl_of (token_ttl_seconds site))"
  have "w_body (snd (issue_challenge wd r body s w)) = Some (ChallengeBody (passive_answer tok)) \<longleftrightarrow>
      (\<exists>c. ?m = Inr (tok, c))"
    unfolding issue_scored [OF assms]
    by (auto simp: answer_decision_def v Let_def passive_answer_def empty_challenge_response_def split: sum.split)
  then show ?thesis unfolding mint_Inr passive_claims_def by blast
qed

text \<open>The challenge a scored request is given, if the random source delivers.\<close>

definition given_challenge :: "world \<Rightarrow> http_request \<Rightarrow> challenge_request \<Rightarrow> site \<Rightarrow> server \<Rightarrow> challenge_error + challenge" where
  "given_challenge wd r req site s =
     new_challenge (random wd 0) (random wd 1) (clock wd 1) (rd_decision (verdict wd r req site s))
       (site_key site) (cr_action req) (normalize_hostname (lower wd) (cr_hostname req)) (cr_session_id req)
       (binding_of s site (network_of s r)) (rd_score (verdict wd r req site s))
       (rd_tags (verdict wd r req site s)) (ttl_of (challenge_ttl_seconds site))"

definition challenge_answer :: "challenge \<Rightarrow> challenge_response" where
  "challenge_answer c =
     \<lparr>resp_decision = ch_kind c, resp_challenge_id = ch_id c, resp_kind = ch_kind c,
      resp_expires_at = ch_expires_at c, resp_params = ch_params c, resp_token = []\<rparr>"

lemma new_challenge_kind:
  "new_challenge r1 r2 t kind sk ac h sid b score tags ttl = Inr c \<Longrightarrow>
     ch_kind c = kind \<and> ch_id c \<noteq> [] \<and> (kind = ''pow'' \<or> kind = ''interactive'')"
  by (erule new_challenge_Inr) auto

lemma issue_given:
  assumes "scored_as wd r body s req site d" and "d = ''pow'' \<or> d = ''interactive''"
  shows "w_body (snd (issue_challenge wd r body s w)) =
      (case given_challenge wd r req site s of
         Inl _ \<Rightarrow> Some (ErrorBody ''internal-error'')
       | Inr c \<Rightarrow> Some (ChallengeBody (challenge_answer c)))"
    and "given_challenge wd r req site s = Inr c \<Longrightarrow>
      challenges (store (fst (issue_challenge wd r body s w))) (ch_id c) = Some c"
proof -
  have v: "rd_decision (verdict wd r req site s) = d" using assms(1) by (simp add: scored_as_def)
  have d: "d \<noteq> ''block''" "d \<noteq> ''allow''" using assms(2) by auto
  define g where "g = given_challenge wd r req site s"
  have g: "new_challenge (random wd 0) (random wd 1) (clock wd 1) d
       (site_key site) (cr_action req) (normalize_hostname (lower wd) (cr_hostname req)) (cr_session_id req)
       (binding_of s site (network_of s r)) (rd_score (verdict wd r req site s))
       (rd_tags (verdict wd r req site s)) (ttl_of (challenge_ttl_seconds site)) = g"
    by (simp only: g_def given_challenge_def v)
  have kind: "ch_kind c = d" if "g = Inr c" for c
    using new_challenge_kind [OF g [unfolded that]] by simp
  show "w_body (snd (issue_challenge wd r body s w)) =
      (case given_challenge wd r req site s of
         Inl _ \<Rightarrow> Some (ErrorBody ''internal-error'')
       | Inr c \<Rightarrow> Some (ChallengeBody (challenge_answer c)))"
    unfolding issue_scored [OF assms(1)] answer_decision_def v Let_def
    using d assms(2) kind g by (cases g) (simp_all add: challenge_answer_def flip: g_def)
  show "challenges (store (fst (issue_challenge wd r body s w))) (ch_id c) = Some c"
    if "given_challenge wd r req site s = Inr c"
    unfolding issue_scored [OF assms(1)] answer_decision_def v Let_def
    using d assms(2) g that by (simp add: put_challenge_def Let_def flip: g_def)
qed

lemma issue_blocked:
  assumes "scored_as wd r body s req site ''block''"
  shows "w_body (snd (issue_challenge wd r body s w))
     = Some (ChallengeBody (empty_challenge_response\<lparr>resp_decision := ''block''\<rparr>))"
  using assms unfolding issue_scored [OF assms] by (simp add: answer_decision_def scored_as_def)

lemma issue_allowed:
  assumes "scored_as wd r body s req site ''allow''"
    and "w_body (snd (issue_challenge wd r body s w)) = Some (ChallengeBody resp)"
  shows "\<exists>tok. resp = passive_answer tok"
  using assms(1,2) unfolding issue_scored [OF assms(1)]
  by (auto simp: answer_decision_def scored_as_def Let_def passive_answer_def split: sum.splits)

end
