(* ===== verification/Scorers.thy ===== *)
theory Scorers
  imports Answers
begin

text \<open>
  The two scorers behind one server: \<open>remote.go\<close> wraps the local scorer, and the only handler that asks a
  scorer is \<open>issueChallenge\<close>.
\<close>

definition engine_silent :: "world \<Rightarrow> bool" where
  "engine_silent wd \<longleftrightarrow> (\<forall>u p b out. risk_at wd u p = Answer 200 b \<longrightarrow> decode_decision b = Some out \<longrightarrow> rd_decision out = [])"

lemma remote_silent: "engine_silent wd \<Longrightarrow> remote_score (risk_at wd) url fallback = fallback"
  by (intro ext) (auto simp: remote_score_def engine_silent_def Let_def split: http_outcome.split option.split)

lemma scorer_silent:
  assumes "engine_silent wd"
  shows "run_scorer wd k = run_scorer wd LocalScorer"
  using remote_silent [OF assms] by (cases k) (simp_all add: run_scorer_def)

lemma issue_challenge_scorer:
  assumes "engine_silent wd"
  shows "issue_challenge wd r b (s\<lparr>scorer := k\<rparr>) w
    = (fst (issue_challenge wd r b s w)\<lparr>scorer := k\<rparr>, snd (issue_challenge wd r b s w))"
proof -
  have "run_scorer wd k = run_scorer wd (scorer s)" using scorer_silent [OF assms] by metis
  then show ?thesis
    by (simp add: issue_challenge_def admit_challenge_def answer_decision_def count_def network_of_def binding_of_def
        risk_input_of_def Let_def split: sum.split option.split prod.split)
qed

lemma scorer_update [simp]:
  "count f (s\<lparr>scorer := k\<rparr>) = (count f s)\<lparr>scorer := k\<rparr>"
  by (simp add: count_def)

lemma scorer_store [simp]: "s\<lparr>scorer := k, store := st\<rparr> = s\<lparr>store := st, scorer := k\<rparr>"
  by (cases s) simp

lemma site_verify_mismatch_scorer [simp]:
  "site_verify_mismatch wd (s\<lparr>scorer := k\<rparr>) site q c = site_verify_mismatch wd s site q c"
  by (simp add: site_verify_mismatch_def)

lemma redeem_challenge_scorer:
  "redeem_challenge wd site c cid pf (s\<lparr>scorer := k\<rparr>) w
    = (fst (redeem_challenge wd site c cid pf s w)\<lparr>scorer := k\<rparr>, snd (redeem_challenge wd site c cid pf s w))"
  by (simp add: redeem_challenge_def Let_def split: sum.split prod.split)

lemma verify_challenge_scorer:
  "verify_challenge wd r b (s\<lparr>scorer := k\<rparr>) w
    = (fst (verify_challenge wd r b s w)\<lparr>scorer := k\<rparr>, snd (verify_challenge wd r b s w))"
proof -
  obtain found st where g: "get_challenge (clock wd 0) (path_id r) (store s) = (found, st)" by fastforce
  show ?thesis
    by (simp add: verify_challenge_def Let_def g network_of_def redeem_challenge_scorer split: sum.split option.split)
qed

lemma site_verify_scorer:
  "site_verify wd r b (s\<lparr>scorer := k\<rparr>) w
    = (fst (site_verify wd r b s w)\<lparr>scorer := k\<rparr>, snd (site_verify wd r b s w))"
  by (simp add: site_verify_def refuse_site_verify_def Let_def split: sum.split option.split prod.split)

definition engine_request :: "world \<Rightarrow> http_request \<Rightarrow> challenge_request \<Rightarrow> site \<Rightarrow> server \<Rightarrow> risk_input \<times> remote_site" where
  "engine_request wd r req site s =
     (risk_input_of s wd r req (network_of s r) (snd (rate_check wd r req site s)),
      \<lparr>rs_rate_limit_per_minute = rate_limit_per_minute site, rs_thresholds = site_thresholds site\<rparr>)"

definition known_decision :: "string \<Rightarrow> bool" where
  "known_decision d \<longleftrightarrow> d \<in> {''allow'', ''pow'', ''interactive'', ''block''}"

lemma unknown_verdict_iff:
  "\<not> known_decision (rd_decision (verdict wd r req site s)) \<longleftrightarrow>
     (\<exists>url b out. scorer s = RemoteScorer url
        \<and> risk_at wd (url @ ''/v1/score'') (engine_request wd r req site s) = Answer 200 b \<and> decode_decision b = Some out
        \<and> rd_decision out \<noteq> [] \<and> \<not> known_decision (rd_decision out))"
proof (cases "scorer s")
  case LocalScorer
  then show ?thesis
    using local.decisions [of "lower wd"] by (simp add: verdict_def run_scorer_def known_decision_def)
next
  case (RemoteScorer url)
  let ?i = "risk_input_of s wd r req (network_of s r) (snd (rate_check wd r req site s))"
  have v: "verdict wd r req site s = remote_score (risk_at wd) url (local_score (lower wd)) ?i site"
    by (simp add: verdict_def run_scorer_def RemoteScorer)
  have "known_decision (rd_decision (local_score (lower wd) ?i site))"
    using local.decisions by (simp add: known_decision_def)
  then show ?thesis
    unfolding v remote_score_def Let_def engine_request_def
    by (auto simp: RemoteScorer known_decision_def split: http_outcome.split option.split)
qed

lemma answer_decision_unknown:
  "w_body (snd (answer_decision wd req h site ip d s w)) = Some (ErrorBody ''invalid-decision'')
     \<longleftrightarrow> \<not> known_decision (rd_decision d)"
  by (auto simp: answer_decision_def known_decision_def Let_def split: sum.split)

end
