(* ===== verification/Demo.thy ===== *)
theory Demo
  imports Scorers
begin

text \<open>
  A concrete deployment with one site, on which the witnesses of the properties run: its
  configuration, its clock and random source, and the requests of a client. The pending challenge asks for no work (difficulty 0), so that
  no witness has to evaluate a hash.
\<close>

definition demo_lower :: unicode where
  "demo_lower s = s"

definition demo_thresholds :: thresholds where
  "demo_thresholds = \<lparr>th_pow = 30, th_interactive = 62, th_block = 92\<rparr>"

definition demo_site :: site where
  "demo_site =
     \<lparr>site_key = ''shop'', site_secret = ''0123456789abcdef'', hostnames = [''shop.example''],
      token_ttl_seconds = 120, challenge_ttl_seconds = 180, rate_limit_per_minute = 60,
      bind_ip_prefix = False, site_thresholds = demo_thresholds\<rparr>"

definition demo_signing_secret :: string where
  "demo_signing_secret = ''0123456789abcdef0123456789abcdef''"

definition demo_runtime :: runtime where
  "demo_runtime =
     \<lparr>rt_addr = '':8080'', rt_environment = ''production'',
      rt_signing_secret = demo_signing_secret, rt_signing_key_id = ''k1'',
      rt_previous_keys = Map.empty, rt_binding_secret = demo_signing_secret,
      rt_sites = new_registry [demo_site],
      rt_reputation_url = [], rt_risk_engine_url = [], rt_trusted_proxies = [],
      rt_max_body_bytes = 65536\<rparr>"

definition demo_server :: server where
  "demo_server = new_server demo_runtime"

text \<open>10 September 2001, 00:00:00 UTC, and one second later.\<close>

definition demo_start :: instant where
  "demo_start = 1000080000 * 1000000000"

definition demo_random :: bytes where
  "demo_random = replicate 18 7"

definition demo_claims_of :: "string \<Rightarrow> token_claims" where
  "demo_claims_of kind =
     minted_claims demo_random demo_start ''shop'' ''login'' ''shop.example'' [] kind 0 (ttl_of 120)"

definition demo_claims :: token_claims where
  "demo_claims = demo_claims_of ''passive''"

definition demo_expiry :: instant where
  "demo_expiry = demo_start + 120 * 1000000000"

definition demo_token :: string where
  "demo_token = (case sign (signer demo_server) demo_claims of Inr t \<Rightarrow> t | Inl e \<Rightarrow> [])"

text \<open>A world whose clock reads \<open>t\<close> first and \<open>u\<close> afterwards.\<close>

definition demo_world :: "instant \<Rightarrow> instant \<Rightarrow> world" where
  "demo_world t u =
     \<lparr>lower = demo_lower, parse_url = (\<lambda>u. None), media_type = Some,
      clock = (\<lambda>n. if n = 0 then t else u), random = (\<lambda>n. Some (\<lambda>i. 7)),
      site_order = [''shop''],
      reputation_at = (\<lambda>u t. TransportFailed),
      risk_at = (\<lambda>u p. TransportFailed)\<rparr>"

definition demo_request :: http_request where
  "demo_request = \<lparr>remote_addr = ''192.0.2.7:4711'', header = (\<lambda>h. []), path_id = ''bsc_x''\<rparr>"

definition demo_body :: site_verify_body where
  "demo_body =
     \<lparr>sb_json = None,
      sb_form = Some (\<lambda>k. if k = ''secret'' then ''0123456789abcdef''
                          else if k = ''response'' then demo_token
                          else if k = ''expected_action'' then ''login''
                          else if k = ''expected_hostname'' then ''shop.example''
                          else [])\<rparr>"

definition demo_challenge :: "int \<Rightarrow> challenge" where
  "demo_challenge n =
     \<lparr>ch_id = ''bsc_x'', ch_site_key = ''shop'', ch_action = ''login'', ch_hostname = ''shop.example'',
      ch_session_id = ''s1'', ch_ip_bind = [], ch_risk_score = 0, ch_risk_tags = [], ch_kind = ''pow'',
      ch_params = [''seed'' \<mapsto> AString ''seed'', ''difficulty_bits'' \<mapsto> AInt 0, ''max_nonce'' \<mapsto> AInt 10],
      ch_created_at = demo_start, ch_expires_at = demo_start + 180 * 1000000000, ch_attempts = n\<rparr>"

definition demo_waiting :: "int \<Rightarrow> server" where
  "demo_waiting n = demo_server\<lparr>store := new_memory\<lparr>challenges := [''bsc_x'' \<mapsto> demo_challenge n]\<rparr>\<rparr>"

definition demo_solution :: "string \<Rightarrow> verify_challenge_request decoded" where
  "demo_solution session = GoodJson
     \<lparr>vc_session_id = session,
      vc_proof = \<lparr>pf_kind = ''pow'', pf_nonce = 0, pf_hold_ms = 0, pf_event_count = 0,
                  pf_pointer_variance = 0\<rparr>\<rparr> True"

abbreviation demo_now :: world where
  "demo_now \<equiv> demo_world demo_start demo_start"

lemma ttl_of_small [simp]: "ttl_of 120 = 120000000000"
  by (simp add: ttl_of_def second_def)

lemma demo_server_fields [simp]:
  "cfg demo_server = demo_runtime"
  "signer demo_server = new_signer_with_keys demo_signing_secret ''k1'' Map.empty"
  "store demo_server = new_memory"
  by (simp_all add: demo_server_def new_server_def demo_runtime_def)

lemma demo_claims_kind [simp]: "tc_challenge_kind (demo_claims_of k) = k"
  by (simp add: demo_claims_of_def minted_claims_def)

lemma demo_kid: "utf8_valid (signer_kid (signer demo_server))"
  by (simp add: ascii_simps)

lemma demo_encodable: "utf8_valid k \<Longrightarrow> encodable (demo_claims_of k)"
  unfolding demo_claims_of_def
  by (rule minted_claims_encodable)
    (simp_all add: ascii_simps int64_range_def unix_def demo_start_def)

lemma demo_claims_encodable: "encodable demo_claims"
  unfolding demo_claims_def by (rule demo_encodable) (simp add: ascii_simps)

lemma demo_token_authentic: "authentic (signer demo_server) demo_token demo_claims"
proof -
  obtain t where "sign (signer demo_server) demo_claims = Inr t"
      "authentic (signer demo_server) t demo_claims"
    using sign_authentic [OF demo_claims_encodable demo_kid, of "signer demo_server"]
    by (auto simp: new_signer_with_keys_def)
  then show ?thesis by (simp add: demo_token_def)
qed

lemma demo_sign: "sign (signer demo_server) demo_claims = Inr demo_token"
  using sign_authentic [OF demo_claims_encodable demo_kid, of "signer demo_server"]
  by (auto simp: demo_token_def new_signer_with_keys_def)

lemma demo_payload: "length (print_json (JObj (claims_members demo_claims))) = 230"
  by (simp add: claims_members_def demo_claims_def demo_claims_of_def minted_claims_def quote_def quote_body_safe
      html_safe_def risk_bucket_def show_int_def show_nat.simps demo_start_def unix_def demo_random_def b64_html_safe length_b64_encode)

lemma demo_header: "length (print_json (JObj [(''alg'', JStr ''HS256''), (''kid'', JStr ''k1''), (''typ'', JStr ''BST'')])) = 38"
  by (simp add: quote_def quote_body_safe html_safe_def)

lemma length_demo_token: "0 < length demo_token \<and> length demo_token \<le> 8192"
  by (simp add: demo_token_def sign_def marshal_header_def marshal_claims_def sign_header_def mac_with_key_def Let_def
      length_b64_encode demo_payload demo_header del: print_json.simps)

lemma demo_claims_fields [simp]:
  "tc_site_key demo_claims = ''shop''" "tc_action demo_claims = ''login''"
  "tc_hostname demo_claims = ''shop.example''" "tc_ip_bind demo_claims = []"
  "tc_jti demo_claims = b64_encode demo_random"
  by (simp_all add: demo_claims_def demo_claims_of_def minted_claims_def)

lemma demo_expires [simp]: "time_unix (tc_expires_at demo_claims) = demo_expiry"
  by (simp add: demo_claims_def demo_claims_of_def minted_claims_def demo_expiry_def demo_start_def time_unix_def unix_def)

lemma demo_claims_current: "demo_start \<le> t \<Longrightarrow> t < demo_expiry \<Longrightarrow> claims_current t demo_claims"
  unfolding demo_claims_def demo_claims_of_def
  by (rule minted_claims_current)
    (simp_all add: demo_random_def demo_expiry_def demo_start_def time_unix_def unix_def)

lemma demo_parse: "parse_site_verify (demo_world t u) demo_request demo_body =
    Some \<lparr>sv_secret = ''0123456789abcdef'', sv_response = demo_token, sv_remote_ip = [],
          sv_expected_action = ''login'', sv_expected_hostname = ''shop.example''\<rparr>"
  using length_demo_token
  by (simp add: parse_site_verify_def demo_body_def demo_request_def demo_world_def demo_lower_def
      to_lower_def site_verify_fields_ok_def)

lemma demo_site_fields [simp]:
  "site_key demo_site = ''shop''" "site_secret demo_site = ''0123456789abcdef''"
  "hostnames demo_site = [''shop.example'']" "token_ttl_seconds demo_site = 120"
  "challenge_ttl_seconds demo_site = 180" "rate_limit_per_minute demo_site = 60"
  "bind_ip_prefix demo_site = False" "site_thresholds demo_site = demo_thresholds"
  by (simp_all add: demo_site_def)

lemma demo_registry: "new_registry [demo_site] = [''shop'' \<mapsto> demo_site]"
  by (simp add: new_registry_def)

lemma demo_sites [simp]: "rt_sites demo_runtime = [''shop'' \<mapsto> demo_site]"
  by (simp add: demo_runtime_def demo_registry)

lemma demo_secret:
  "registry_get_by_secret [''shop''] (rt_sites demo_runtime) ''0123456789abcdef'' = Some demo_site"
  by (simp add: registry_get_by_secret_def constant_time_string_equal_iff)

lemma demo_presents:
  assumes "same_setup demo_server s" and "demo_start \<le> t" and "t < demo_expiry"
  shows "presents (demo_world t u) demo_request demo_body s demo_claims"
proof -
  have s: "cfg s = demo_runtime" "signer s = signer demo_server"
    using assms(1) by (simp_all add: same_setup_def)
  have "verify_token (signer s) demo_token t = Inr demo_claims"
    unfolding s verify_token_iff
    using demo_token_authentic demo_claims_current assms(2,3) by blast
  then show ?thesis
    unfolding presents_def demo_parse
    by (simp add: demo_world_def s demo_secret site_verify_mismatch_def del: demo_sites)
qed

lemma demo_first_accepted:
  assumes "demo_start \<le> t" and "t < demo_expiry"
  shows "accepted (snd (serve (demo_world t u) (SiteVerify demo_request demo_body) demo_server))"
  unfolding serve_site_verify
    site_verify_accepted_presented [OF demo_presents [OF same_setup_refl assms]]
  by (simp add: consume_jti_iff new_memory_def)

lemma demo_setup: "same_setup demo_server (fst (serve wd k demo_server))"
  using serve_acts [of wd demo_server k] by (simp add: acts_def)


subsection \<open>The pending challenge\<close>

lemma demo_waiting_fields [simp]:
  "cfg (demo_waiting n) = demo_runtime" "signer (demo_waiting n) = signer demo_server"
  "challenges (store (demo_waiting n)) = [''bsc_x'' \<mapsto> demo_challenge n]"
  by (simp_all add: demo_waiting_def)

lemma demo_no_origin [simp]: "origin_of demo_request = []"
  by (simp add: origin_of_def demo_request_def)

lemma demo_redeemable: "redeemable demo_now demo_request (demo_solution ''s1'') (demo_waiting 0) (demo_challenge 0) demo_site"
  by (simp add: redeemable_def demo_solution_def demo_request_def demo_world_def demo_challenge_def
      origin_allowed_for_hostname_def origin_of_def binding_holds_def verify_challenge_proof_def
      string_from_any_def int_from_any_def uint64_of_int_def)

lemma demo_redeemed:
  "\<exists>tok. w_body (snd (serve demo_now (VerifyChallenge demo_request (demo_solution ''s1'')) (demo_waiting 0)))
     = Some (VerifyBody (redeemed tok))"
proof -
  obtain tok where tok: "sign (signer demo_server) (demo_claims_of ''pow'') = Inr tok"
    using sign_authentic [OF demo_encodable demo_kid, of "''pow''" "signer demo_server"] utf8_valid_ascii [of "''pow''"]
    by (auto simp: new_signer_with_keys_def is_ascii_def)
  have claims: "redeemed_claims demo_random demo_start (demo_challenge 0) demo_site = demo_claims_of ''pow''"
    by (simp add: redeemed_claims_def demo_claims_of_def demo_challenge_def)
  have "read_random 18 (random demo_now 0) = Some demo_random"
    by (simp add: read_random_def demo_world_def demo_random_def numeral_eq_Suc upt_rec)
  then have "mint (random demo_now 0) (clock demo_now 3) (signer (demo_waiting 0)) ''shop'' ''login''
      ''shop.example'' [] ''pow'' 0 (ttl_of 120) = Inr (tok, demo_claims_of ''pow'')"
    using tok by (simp add: mint_Inr demo_world_def demo_claims_of_def)
  then show ?thesis
    unfolding serve_verify_challenge verify_challenge_redeemable(2) [OF demo_redeemable]
    by (auto simp: demo_challenge_def)
qed

text \<open>A request with the wrong session.\<close>

lemma demo_strike:
  assumes "cfg s = demo_runtime" and "challenges (store s) ''bsc_x'' = Some (demo_challenge n)"
  shows "w_body (snd (serve demo_now (VerifyChallenge demo_request (demo_solution ''s2'')) s))
      = Some (ErrorBody ''session-binding-mismatch'')"
    and "cfg (fst (serve demo_now (VerifyChallenge demo_request (demo_solution ''s2'')) s)) = demo_runtime"
    and "0 \<le> n \<Longrightarrow> n < 2 \<Longrightarrow>
      challenges (store (fst (serve demo_now (VerifyChallenge demo_request (demo_solution ''s2'')) s))) ''bsc_x''
        = Some (demo_challenge (n + 1))"
proof -
  let ?g = "get_challenge demo_start ''bsc_x'' (store s)"
  obtain found st where g: "?g = (found, st)" by fastforce
  have found: "found = Some (demo_challenge n)" "challenges st ''bsc_x'' = Some (demo_challenge n)"
    using get_challenge_fields [of demo_start "''bsc_x''" "store s"] assms(2)
    by (auto simp: g demo_challenge_def)
  have eq: "serve demo_now (VerifyChallenge demo_request (demo_solution ''s2'')) s
      = ((count inc_requests s)\<lparr>store := fail_challenge ''bsc_x'' 3 st\<rparr>,
         write_error 400 ''session-binding-mismatch''
           (security (call_path (VerifyChallenge demo_request (demo_solution ''s2''))) fresh_writer))"
    using assms(1) found(1)
    by (simp add: serve_verify_challenge verify_challenge_def demo_request_def demo_world_def g
        registry_get_def origin_allowed_for_hostname_def origin_of_def decode_json_def demo_solution_def
        demo_challenge_def set_cors_def Let_def)
  show "w_body (snd (serve demo_now (VerifyChallenge demo_request (demo_solution ''s2'')) s))
      = Some (ErrorBody ''session-binding-mismatch'')"
    "cfg (fst (serve demo_now (VerifyChallenge demo_request (demo_solution ''s2'')) s)) = demo_runtime"
    using assms(1) by (simp_all add: eq)
  show "challenges (store (fst (serve demo_now (VerifyChallenge demo_request (demo_solution ''s2'')) s))) ''bsc_x''
      = Some (demo_challenge (n + 1))" if "0 \<le> n" "n < 2"
    using found(2) that by (simp add: eq fail_challenge_def Let_def demo_challenge_def)
qed

lemma demo_never_issues: "never_issues ''bsc_x'' demo_now"
proof -
  have "length (b64_encode b) = 24" if "length b = 18" for b using that by (simp add: length_b64_encode)
  then have "b64_encode b \<noteq> ''x''" if "length b = 18" for b using that by force
  then show ?thesis
    by (auto simp: never_issues_def new_id_def demo_world_def read_random_def)
qed

subsection \<open>A visitor\<close>

definition demo_visit :: http_request where
  "demo_visit =
     \<lparr>remote_addr = ''192.0.2.7:4711'', header = (\<lambda>h. if h = ''User-Agent'' then ''M'' else []),
      path_id = []\<rparr>"

definition demo_behavior :: behavior_signals where
  "demo_behavior =
     \<lparr>dwell_ms = 900, pointer_events = 12, pointer_distance = 0, pointer_variance = 0, key_events = 3,
      key_interval_mean_ms = 0, key_interval_std_ms = 0, focus_transitions = 1, visibility_changes = 0\<rparr>"

definition demo_client :: client_signals where
  "demo_client =
     \<lparr>sdk_version = ''1'', cs_user_agent = ''M'', cs_platform = [], languages = [''en''], timezone = ''UTC'',
      screen_width_bucket = 10, screen_height_bucket = 10, color_depth = 24, hardware_concurrency = 8,
      device_memory_gb = 0, max_touch_points = 0, webdriver = False, secure_context = True,
      cookie_enabled = True, local_storage_ok = True, session_storage_ok = True,
      webgl_vendor_hash = [], webgl_renderer_hash = [], wasm_available = True, wasm_mix = 0,
      webcrypto_available = True, performance_jitter = 0, behavior = demo_behavior\<rparr>"

definition demo_ask :: challenge_request where
  "demo_ask =
     \<lparr>cr_site_key = ''shop'', cr_action = ''login'', cr_hostname = ''shop.example'',
      cr_session_id = ''s1'', cr_telemetry = \<lparr>client = demo_client\<rparr>\<rparr>"

lemma demo_world_fields [simp]:
  "lower (demo_world t u) = demo_lower"
  "clock (demo_world t u) n = (if n = 0 then t else u)" "site_order (demo_world t u) = [''shop'']"
  by (simp_all add: demo_world_def)

lemma demo_ask_fields [simp]:
  "cr_site_key demo_ask = ''shop''" "cr_action demo_ask = ''login''"
  "cr_hostname demo_ask = ''shop.example''" "cr_session_id demo_ask = ''s1''"
  by (simp_all add: demo_ask_def)

lemma demo_hostname: "normalize_hostname demo_lower ''shop.example'' = ''shop.example''"
  by code_simp

lemma demo_allows: "allows_hostname demo_lower demo_site ''shop.example''"
  by code_simp

lemma demo_visit_origin [simp]: "origin_of demo_visit = []"
  by (simp add: origin_of_def demo_visit_def)

lemma demo_action: "action_ok ''login''"
  by code_simp

lemma demo_admissible: "admissible demo_now demo_visit (GoodJson demo_ask True) demo_server demo_ask demo_site"
  using demo_allows demo_action
  by (simp add: admissible_def demo_ask_def demo_world_def origin_allowed_for_hostname_def)

lemma demo_rate: "rate_check demo_now demo_visit demo_ask demo_site demo_server = (True, 1)"
  by (simp add: rate_check_def allow_rate_def new_memory_def)

lemma demo_reputation: "lookup_reputation service [] ip ua language = empty_reputation"
  by (simp add: lookup_reputation_def)

definition demo_input :: risk_input where
  "demo_input =
     \<lparr>ri_ip = ''192.0.2.7'', ri_user_agent = ''M'', ri_accept_language = [], ri_sec_ch_ua = [],
      ri_sec_ch_platform = [], ri_request_rate = 1, ri_telemetry = \<lparr>client = demo_client\<rparr>,
      ri_reputation = empty_reputation\<rparr>"

lemma fold_quiet_rules: "list_all (\<lambda>r. \<not> fst r) rs \<Longrightarrow> fold apply_rule rs (u, tags) = (u, tags)"
  by (induction rs) auto

lemma demo_quiet_client: "list_all (\<lambda>r. \<not> fst r) (client_rules demo_lower demo_input)"
  by code_simp

lemma demo_quiet_network: "list_all (\<lambda>r. \<not> fst r) (network_rules demo_input demo_site)"
  by code_simp

lemma demo_local_score:
  "local_score demo_lower demo_input demo_site = \<lparr>rd_score = 0, rd_decision = ''allow'', rd_tags = []\<rparr>"
proof -
  have "list_all (\<lambda>r. \<not> fst r) (score_rules demo_lower demo_input demo_site)"
    using demo_quiet_client demo_quiet_network
    by (simp add: score_rules_def demo_input_def empty_reputation_def)
  then show ?thesis
    by (simp add: local_score_def fold_quiet_rules clamp_round_def f64_unit_def unique_def decide_def demo_thresholds_def)
qed

lemma demo_network: "network_of demo_server demo_visit = ''192.0.2.7''"
  by code_simp

lemma demo_verdict: "verdict demo_now demo_visit demo_ask demo_site demo_server
    = \<lparr>rd_score = 0, rd_decision = ''allow'', rd_tags = []\<rparr>"
proof -
  have "risk_input_of demo_server demo_now demo_visit demo_ask ''192.0.2.7'' 1 = demo_input"
    by (simp add: risk_input_of_def demo_input_def demo_visit_def demo_ask_def demo_server_def new_server_def
        demo_runtime_def demo_reputation)
  moreover have "run_scorer demo_now (scorer demo_server) = local_score demo_lower"
    by (simp add: run_scorer_def demo_server_def new_server_def demo_runtime_def demo_world_def)
  ultimately show ?thesis
    unfolding verdict_def demo_rate demo_network snd_conv by (simp add: demo_local_score)
qed

lemma demo_scored: "scored_as demo_now demo_visit (GoodJson demo_ask True) demo_server demo_ask demo_site ''allow''"
  by (simp add: scored_as_def demo_admissible demo_rate demo_verdict)

lemma demo_random_read: "read_random 18 (random demo_now n) = Some demo_random"
  by (simp add: read_random_def demo_world_def demo_random_def numeral_eq_Suc upt_rec)

lemma demo_passive_claims: "passive_claims demo_now demo_visit demo_ask demo_site demo_server demo_random = demo_claims"
  using demo_hostname
  by (simp add: passive_claims_def demo_claims_def demo_claims_of_def demo_verdict binding_of_def)

lemma demo_mint: "mint (random demo_now 0) demo_start (signer demo_server) ''shop'' ''login'' ''shop.example'' [] ''passive'' 0
    (ttl_of 120) = Inr (demo_token, demo_claims)"
  using demo_sign demo_random_read by (simp add: mint_Inr demo_claims_def demo_claims_of_def)

definition demo_robot :: risk_input where
  "demo_robot = demo_input\<lparr>ri_telemetry := \<lparr>client = demo_client\<lparr>webdriver := True\<rparr>\<rparr>\<rparr>"

lemma demo_answer:
  "w_body (snd (serve demo_now (IssueChallenge demo_visit (GoodJson demo_ask True)) demo_server))
     = Some (ChallengeBody (passive_answer demo_token))"
  unfolding serve_issue_challenge issue_token [OF demo_scored]
  by (rule exI [of _ demo_random]) (use demo_sign in \<open>simp add: demo_random_read demo_passive_claims\<close>)

end
