(* ===== verification/Bodies.thy ===== *)
theory Bodies
  imports JsonData
begin

text \<open>
  Request bodies: how \<open>decodeJSON\<close> and \<open>parseSiteVerify\<close> of
  \<open>services/gateway/internal/api/server.go\<close> read them. The fields of the request structs, with the
  names their tags give them, are those of \<open>internal/model/types.go\<close>.
\<close>

subsection \<open>The fields of the requests\<close>

text \<open>A client record travels with the cells behind its slice of languages (see \<open>dec_strings\<close>).\<close>

type_synonym client_state = "client_signals \<times> string list"

definition dec_languages :: "client_state decoder" where
  "dec_languages v s =
     map_option (\<lambda>x. ((fst s)\<lparr>languages := fst x\<rparr>, snd x)) (dec_strings v (languages (fst s), snd s))"

definition behavior_fields :: "behavior_signals fields" where
  "behavior_fields =
     [(''dwell_ms'', field dwell_ms_update dwell_ms dec_int),
      (''pointer_events'', field pointer_events_update pointer_events dec_int),
      (''pointer_distance'', field pointer_distance_update pointer_distance dec_float),
      (''pointer_variance'', field pointer_variance_update pointer_variance dec_float),
      (''key_events'', field key_events_update key_events dec_int),
      (''key_interval_mean_ms'', field key_interval_mean_ms_update key_interval_mean_ms dec_float),
      (''key_interval_std_ms'', field key_interval_std_ms_update key_interval_std_ms dec_float),
      (''focus_transitions'', field focus_transitions_update focus_transitions dec_int),
      (''visibility_changes'', field visibility_changes_update visibility_changes dec_int)]"

definition client_fields :: "bool \<Rightarrow> client_state fields" where
  "client_fields strict =
     [(''sdk_version'', on_fst (field sdk_version_update sdk_version dec_string)),
      (''user_agent'', on_fst (field cs_user_agent_update cs_user_agent dec_string)),
      (''platform'', on_fst (field cs_platform_update cs_platform dec_string)),
      (''languages'', dec_languages),
      (''timezone'', on_fst (field timezone_update timezone dec_string)),
      (''screen_width_bucket'', on_fst (field screen_width_bucket_update screen_width_bucket dec_int)),
      (''screen_height_bucket'', on_fst (field screen_height_bucket_update screen_height_bucket dec_int)),
      (''color_depth'', on_fst (field color_depth_update color_depth dec_int)),
      (''hardware_concurrency'', on_fst (field hardware_concurrency_update hardware_concurrency dec_int)),
      (''device_memory_gb'', on_fst (field device_memory_gb_update device_memory_gb dec_float)),
      (''max_touch_points'', on_fst (field max_touch_points_update max_touch_points dec_int)),
      (''webdriver'', on_fst (field webdriver_update webdriver dec_bool)),
      (''secure_context'', on_fst (field secure_context_update secure_context dec_bool)),
      (''cookie_enabled'', on_fst (field cookie_enabled_update cookie_enabled dec_bool)),
      (''local_storage_ok'', on_fst (field local_storage_ok_update local_storage_ok dec_bool)),
      (''session_storage_ok'', on_fst (field session_storage_ok_update session_storage_ok dec_bool)),
      (''webgl_vendor_hash'', on_fst (field webgl_vendor_hash_update webgl_vendor_hash dec_string)),
      (''webgl_renderer_hash'', on_fst (field webgl_renderer_hash_update webgl_renderer_hash dec_string)),
      (''wasm_available'', on_fst (field wasm_available_update wasm_available dec_bool)),
      (''wasm_mix'', on_fst (field wasm_mix_update wasm_mix dec_uint32)),
      (''webcrypto_available'', on_fst (field webcrypto_available_update webcrypto_available dec_bool)),
      (''performance_jitter'', on_fst (field performance_jitter_update performance_jitter dec_float)),
      (''behavior'', on_fst (field behavior_update behavior (dec_struct strict behavior_fields)))]"

definition dec_client :: "bool \<Rightarrow> (telemetry \<times> string list) decoder" where
  "dec_client strict v s =
     map_option (\<lambda>x. (\<lparr>client = fst x\<rparr>, snd x)) (dec_struct strict (client_fields strict) v (client (fst s), snd s))"

definition telemetry_fields :: "bool \<Rightarrow> (telemetry \<times> string list) fields" where
  "telemetry_fields strict = [(''client'', dec_client strict)]"

definition dec_telemetry :: "bool \<Rightarrow> (challenge_request \<times> string list) decoder" where
  "dec_telemetry strict v s =
     map_option (\<lambda>x. ((fst s)\<lparr>cr_telemetry := fst x\<rparr>, snd x))
       (dec_struct strict (telemetry_fields strict) v (cr_telemetry (fst s), snd s))"

definition challenge_request_fields :: "bool \<Rightarrow> (challenge_request \<times> string list) fields" where
  "challenge_request_fields strict =
     [(''site_key'', on_fst (field cr_site_key_update cr_site_key dec_string)),
      (''action'', on_fst (field cr_action_update cr_action dec_string)),
      (''hostname'', on_fst (field cr_hostname_update cr_hostname dec_string)),
      (''session_id'', on_fst (field cr_session_id_update cr_session_id dec_string)),
      (''telemetry'', dec_telemetry strict)]"

definition proof_fields :: "challenge_proof fields" where
  "proof_fields =
     [(''kind'', field pf_kind_update pf_kind dec_string),
      (''nonce'', field pf_nonce_update pf_nonce dec_uint64),
      (''hold_ms'', field pf_hold_ms_update pf_hold_ms dec_int),
      (''event_count'', field pf_event_count_update pf_event_count dec_int),
      (''pointer_variance'', field pf_pointer_variance_update pf_pointer_variance dec_float)]"

definition verify_request_fields :: "bool \<Rightarrow> verify_challenge_request fields" where
  "verify_request_fields strict =
     [(''session_id'', field vc_session_id_update vc_session_id dec_string),
      (''proof'', field vc_proof_update vc_proof (dec_struct strict proof_fields))]"

definition site_verify_fields :: "site_verify_request fields" where
  "site_verify_fields =
     [(''secret'', field sv_secret_update sv_secret dec_string),
      (''response'', field sv_response_update sv_response dec_string),
      (''remoteip'', field sv_remote_ip_update sv_remote_ip dec_string),
      (''expected_action'', field sv_expected_action_update sv_expected_action dec_string),
      (''expected_hostname'', field sv_expected_hostname_update sv_expected_hostname dec_string)]"

subsection \<open>Zero values\<close>

definition zero_behavior :: behavior_signals where
  "zero_behavior =
     \<lparr>dwell_ms = 0, pointer_events = 0, pointer_distance = 0, pointer_variance = 0, key_events = 0,
      key_interval_mean_ms = 0, key_interval_std_ms = 0, focus_transitions = 0, visibility_changes = 0\<rparr>"

definition zero_client :: client_signals where
  "zero_client =
     \<lparr>sdk_version = [], cs_user_agent = [], cs_platform = [], languages = [], timezone = [],
      screen_width_bucket = 0, screen_height_bucket = 0, color_depth = 0, hardware_concurrency = 0,
      device_memory_gb = 0, max_touch_points = 0, webdriver = False, secure_context = False,
      cookie_enabled = False, local_storage_ok = False, session_storage_ok = False,
      webgl_vendor_hash = [], webgl_renderer_hash = [], wasm_available = False, wasm_mix = 0,
      webcrypto_available = False, performance_jitter = 0, behavior = zero_behavior\<rparr>"

definition zero_challenge_request :: challenge_request where
  "zero_challenge_request =
     \<lparr>cr_site_key = [], cr_action = [], cr_hostname = [], cr_session_id = [],
      cr_telemetry = \<lparr>client = zero_client\<rparr>\<rparr>"

definition zero_verify_request :: verify_challenge_request where
  "zero_verify_request =
     \<lparr>vc_session_id = [],
      vc_proof = \<lparr>pf_kind = [], pf_nonce = 0, pf_hold_ms = 0, pf_event_count = 0, pf_pointer_variance = 0\<rparr>\<rparr>"

subsection \<open>Reading a body\<close>

text \<open>\<open>http.MaxBytesReader\<close>: the bytes up to the limit, then an error if there are more.\<close>

definition max_bytes :: "int \<Rightarrow> stream \<Rightarrow> stream" where
  "max_bytes n b = (take (nat n) (fst b), snd b \<and> length (fst b) \<le> nat n)"

text \<open>The two calls of \<open>Decode\<close> in \<open>decodeJSON\<close>: the second one reports \<open>io.EOF\<close> where only white
  space is left.\<close>

definition read_body :: "'a decoder \<Rightarrow> 'a \<Rightarrow> int \<Rightarrow> stream \<Rightarrow> 'a decoded" where
  "read_body d zero limit b =
     (case next_value (max_bytes limit b) of
        None \<Rightarrow> BadJson
      | Some (v, rest) \<Rightarrow>
          (case d v zero of
             None \<Rightarrow> BadJson
           | Some x \<Rightarrow> GoodJson x (list_all is_space (fst rest) \<and> snd rest)))"

definition read_challenge_request :: "int \<Rightarrow> stream \<Rightarrow> challenge_request decoded" where
  "read_challenge_request limit b =
     map_decoded fst (read_body (dec_struct True (challenge_request_fields True)) (zero_challenge_request, []) limit b)"

definition read_verify_request :: "int \<Rightarrow> stream \<Rightarrow> verify_challenge_request decoded" where
  "read_verify_request = read_body (dec_struct True (verify_request_fields True)) zero_verify_request"

text \<open>The body of \<open>siteverify\<close> as JSON: one \<open>Decode\<close>, on the bytes up to the limit.\<close>

definition read_site_verify :: "int \<Rightarrow> stream \<Rightarrow> site_verify_request option" where
  "read_site_verify limit b =
     Option.bind (next_value (limit_reader limit (max_bytes limit b)))
       (\<lambda>x. dec_struct True site_verify_fields (fst x) empty_site_verify_request)"

subsection \<open>Forms\<close>

text \<open>\<open>url.QueryUnescape\<close> and \<open>url.PathUnescape\<close>: \<open>None\<close> where a \<open>%\<close> is not followed by two hexadecimal
  digits; only in a query a plus is a space.\<close>

fun url_unescape :: "bool \<Rightarrow> string \<Rightarrow> string option" where
  "url_unescape query [] = Some []"
| "url_unescape query (c # s) =
     (if c = CHR ''%''
      then (case s of
              x # y # t \<Rightarrow>
                (case (hex_val x, hex_val y) of
                   (Some m, Some n) \<Rightarrow> map_option ((#) (char_of (16 * m + n))) (url_unescape query t)
                 | _ \<Rightarrow> None)
            | _ \<Rightarrow> None)
      else map_option ((#) (if query \<and> c = CHR ''+'' then CHR '' '' else c)) (url_unescape query s))"

text \<open>\<open>strings.Cut(s, sep)\<close>\<close>

definition cut_at :: "char \<Rightarrow> string \<Rightarrow> string \<times> string" where
  "cut_at c s = (takeWhile (\<lambda>x. x \<noteq> c) s, tl (dropWhile (\<lambda>x. x \<noteq> c) s))"

text \<open>\<open>url.ParseQuery\<close>: the pairs in their order, \<open>None\<close> if any part is in error.\<close>

definition parse_pair :: "string \<Rightarrow> (string \<times> string) list option" where
  "parse_pair part =
     (if CHR '';'' \<in> set part then None
      else if part = [] then Some []
      else case (url_unescape True (fst (cut_at CHR ''='' part)), url_unescape True (snd (cut_at CHR ''='' part))) of
             (Some k, Some v) \<Rightarrow> Some [(k, v)]
           | _ \<Rightarrow> None)"

definition parse_query :: "string \<Rightarrow> (string \<times> string) list option" where
  "parse_query q = map_option concat (those (map parse_pair (split_on CHR ''&'' q)))"

text \<open>
  \<open>ParseForm\<close> of a POST request: the pairs of the body, if it is of the media type of a form, before
  those of the query of the URL. \<open>media\<close> is the type that \<open>mime.ParseMediaType\<close> reads in the
  header, \<open>None\<close> for an error.
\<close>

definition parse_form :: "string option \<Rightarrow> string \<Rightarrow> stream \<Rightarrow> (string \<times> string) list option" where
  "parse_form media query b =
     (case media of
        None \<Rightarrow> None
      | Some m \<Rightarrow>
          let post = (if m = ''application/x-www-form-urlencoded''
                      then if snd b then parse_query (fst b) else None
                      else Some [])
          in Option.bind post (\<lambda>xs. map_option ((@) xs) (parse_query query)))"

text \<open>\<open>Form.Get(k)\<close>: the first value of the key.\<close>

definition form_get :: "(string \<times> string) list \<Rightarrow> string \<Rightarrow> string" where
  "form_get form k = (case map_of form k of None \<Rightarrow> [] | Some v \<Rightarrow> v)"

end
