(* ===== verification/Requests.thy ===== *)
theory Requests
  imports Bodies Decoding
begin

text \<open>
  The requests that bodies decode to are well typed, whatever the bytes.
\<close>

subsection \<open>The names of the fields\<close>

lemma client_names: "distinct (map (\<lambda>f. fold_name (fst f)) (client_fields strict))"
  by (simp add: client_fields_def upper_byte_def)

lemma request_names: "distinct (map (\<lambda>f. fold_name (fst f)) (challenge_request_fields strict))"
  by (simp add: challenge_request_fields_def upper_byte_def)

lemma telemetry_names: "distinct (map (\<lambda>f. fold_name (fst f)) (telemetry_fields strict))"
  by (simp add: telemetry_fields_def)

lemma behavior_names: "distinct (map (\<lambda>f. fold_name (fst f)) behavior_fields)"
  by (simp add: behavior_fields_def upper_byte_def)

subsection \<open>Types\<close>

definition utf8_request :: "challenge_request \<Rightarrow> bool" where
  "utf8_request q \<longleftrightarrow> list_all utf8_valid [cr_site_key q, cr_action q, cr_hostname q, cr_session_id q]"

definition behavior_typed :: "behavior_signals \<Rightarrow> bool" where
  "behavior_typed b \<longleftrightarrow>
     list_all int64_range [dwell_ms b, pointer_events b, key_events b, focus_transitions b, visibility_changes b]
     \<and> list_all f64_finite [pointer_distance b, pointer_variance b, key_interval_mean_ms b, key_interval_std_ms b]"

definition client_typed :: "client_signals \<Rightarrow> bool" where
  "client_typed c \<longleftrightarrow>
     list_all utf8_valid [sdk_version c, cs_user_agent c, cs_platform c, timezone c, webgl_vendor_hash c, webgl_renderer_hash c]
     \<and> list_all utf8_valid (languages c)
     \<and> list_all int64_range [screen_width_bucket c, screen_height_bucket c, color_depth c, hardware_concurrency c, max_touch_points c]
     \<and> list_all f64_finite [device_memory_gb c, performance_jitter c] \<and> behavior_typed (behavior c)"

definition request_typed :: "challenge_request \<Rightarrow> bool" where
  "request_typed q \<longleftrightarrow> utf8_request q \<and> client_typed (client (cr_telemetry q))"

definition proof_typed :: "challenge_proof \<Rightarrow> bool" where
  "proof_typed p \<longleftrightarrow> utf8_valid (pf_kind p) \<and> int64_range (pf_hold_ms p) \<and> int64_range (pf_event_count p)
     \<and> f64_finite (pf_pointer_variance p)"

definition verify_request_typed :: "verify_challenge_request \<Rightarrow> bool" where
  "verify_request_typed q \<longleftrightarrow> utf8_valid (vc_session_id q) \<and> proof_typed (vc_proof q)"

lemma keeps_behavior: "keeps behavior_typed (dec_struct strict behavior_fields)"
proof (rule keeps_struct)
  show "\<forall>f\<in>set behavior_fields. keeps behavior_typed (snd f)"
    unfolding behavior_fields_def by (auto simp: keeps_def field_def behavior_typed_def dest: dec_typed)
qed

lemma keeps_client:
  "keeps (\<lambda>s. client_typed (fst s) \<and> list_all utf8_valid (snd s)) (dec_struct strict (client_fields strict))"
proof (rule keeps_struct)
  show "\<forall>f\<in>set (client_fields strict). keeps (\<lambda>s. client_typed (fst s) \<and> list_all utf8_valid (snd s)) (snd f)"
    unfolding client_fields_def
    by (auto simp: keeps_def decoder_defs dec_languages_def client_typed_def
        dest: dec_typed keepsD [OF keeps_behavior] dec_strings_clean)
qed

lemma keeps_telemetry:
  "keeps (\<lambda>s. client_typed (client (fst s)) \<and> list_all utf8_valid (snd s)) (dec_struct strict (telemetry_fields strict))"
  by (rule keeps_struct)
    (auto simp: telemetry_fields_def keeps_def dec_client_def dest: keeps_pairD [OF keeps_client])

lemma keeps_challenge_request:
  "keeps (\<lambda>s. request_typed (fst s) \<and> list_all utf8_valid (snd s)) (dec_struct True (challenge_request_fields True))"
proof (rule keeps_struct)
  show "\<forall>f\<in>set (challenge_request_fields True). keeps (\<lambda>s. request_typed (fst s) \<and> list_all utf8_valid (snd s)) (snd f)"
    unfolding challenge_request_fields_def
    by (auto simp: keeps_def decoder_defs dec_telemetry_def request_typed_def utf8_request_def
        dest: dec_typed keeps_pairD [OF keeps_telemetry])
qed

lemma keeps_proof: "keeps proof_typed (dec_struct strict proof_fields)"
  by (rule keeps_struct) (auto simp: proof_fields_def keeps_def field_def proof_typed_def dest: dec_typed)

lemma keeps_verify_request: "keeps verify_request_typed (dec_struct True (verify_request_fields True))"
  by (rule keeps_struct)
    (auto simp: verify_request_fields_def keeps_def field_def verify_request_typed_def dest: dec_typed keepsD [OF keeps_proof])

lemma zero_typed: "request_typed zero_challenge_request" "verify_request_typed zero_verify_request"
proof -
  have "f64_finite 0" by (simp add: f64_finite_iff f64_magnitude_def)
  then show "request_typed zero_challenge_request" "verify_request_typed zero_verify_request"
    by (simp_all add: request_typed_def utf8_request_def client_typed_def behavior_typed_def zero_challenge_request_def
        zero_client_def zero_behavior_def verify_request_typed_def proof_typed_def zero_verify_request_def int64_range_def)
qed

lemma read_body_keeps:
  assumes "keeps I d" and "I z" and "read_body d z limit b = GoodJson x e"
  shows "I x"
  using assms clean_next_value [of "max_bytes limit b"]
  by (auto simp: read_body_def split: option.splits dest: keepsD)

lemma read_challenge_request_typed: "read_challenge_request limit b = GoodJson q e \<Longrightarrow> request_typed q"
  using read_body_keeps [OF keeps_challenge_request, of "(zero_challenge_request, [])" limit b] zero_typed(1)
  by (cases "read_body (dec_struct True (challenge_request_fields True)) (zero_challenge_request, []) limit b")
    (auto simp: read_challenge_request_def)

lemma read_challenge_request_utf8: "read_challenge_request limit b = GoodJson q e \<Longrightarrow> utf8_request q"
  using read_challenge_request_typed by (auto simp: request_typed_def)

text \<open>Whatever the bytes of a body are, a request that is read from it is well typed: its strings are
  UTF-8, its integers within 64 bits, its floating-point numbers finite.\<close>

theorem decoded_requests_typed:
  "(read_challenge_request limit b = GoodJson q e \<longrightarrow> request_typed q)
   \<and> (read_verify_request limit b = GoodJson v e \<longrightarrow> verify_request_typed v)"
  using read_challenge_request_typed read_body_keeps [OF keeps_verify_request] zero_typed(2)
  unfolding read_verify_request_def by blast

end
