(* ===== verification/Http.thy ===== *)
theory Http
  imports Answers Requests
begin

text \<open>
  The HTTP surface of the gateway: \<open>Handler\<close>, \<open>security\<close> and \<open>recoverer\<close> of
  \<open>services/gateway/internal/api/server.go\<close>, with the matching of \<open>http.ServeMux\<close> (Go 1.23) on the seven
  patterns registered there. A request comes with its method, the escaped path and the query of
  its URL and the bytes of its body; what leaves is the response of a handler, or the multiplexer's
  own answer.
\<close>

record http_in =
  rq_method :: string
  rq_uri :: string
  rq_escaped_path :: string
  rq_query :: string
  rq_remote :: string
  rq_header :: "string \<Rightarrow> string"
  rq_body :: stream

subsection \<open>Paths\<close>

definition path_unescape :: "string \<Rightarrow> string" where
  "path_unescape s = (case url_unescape False s of Some t \<Rightarrow> t | None \<Rightarrow> s)"

text \<open>\<open>path.Clean\<close> of a rooted path: empty and \<open>.\<close> elements go, \<open>..\<close> takes the element before it.\<close>

definition clean_step :: "string \<Rightarrow> string list \<Rightarrow> string list" where
  "clean_step e out =
     (if e = [] \<or> e = ''.'' then out else if e = ''..'' then butlast out else out @ [e])"

definition clean_rooted :: "string \<Rightarrow> string" where
  "clean_rooted p =
     (let es = fold clean_step (split_on CHR ''/'' p) []
      in if es = [] then ''/'' else concat (map (\<lambda>e. CHR ''/'' # e) es))"

text \<open>\<open>cleanPath\<close> of \<open>net/http\<close>: as \<open>path.Clean\<close>, with the slash at the end kept.\<close>

definition clean_path :: "string \<Rightarrow> string" where
  "clean_path p0 =
     (let p = (if p0 = [] \<or> hd p0 \<noteq> CHR ''/'' then CHR ''/'' # p0 else p0);
          np = clean_rooted p
      in if last p = CHR ''/'' \<and> np \<noteq> ''/'' then np @ ''/'' else np)"

text \<open>The segments of a path as \<open>routing_tree.go\<close> takes them, unescaped where that is possible; a slash
  at the end is a segment of its own.\<close>

function segments :: "string \<Rightarrow> string list" where
  "segments p =
     (if p = [] then [] else if p = ''/'' then [''/'']
      else path_unescape (takeWhile (\<lambda>c. c \<noteq> CHR ''/'') (tl p))
           # segments (dropWhile (\<lambda>c. c \<noteq> CHR ''/'') (tl p)))"
  by pat_completeness auto
termination
  by (relation "measure length") (auto simp: neq_Nil_conv intro: le_less_trans [OF length_dropWhile_le])

declare segments.simps [simp del]

subsection \<open>Patterns\<close>

datatype pattern = Lit string | Wild

datatype endpoint =
    HealthPoint | MetricsPoint | ChallengePoint | ChallengeOptions | VerifyPoint | VerifyOptions | SiteVerifyPoint

definition routes :: "(string \<times> pattern list \<times> endpoint) list" where
  "routes =
     [(''GET'', [Lit ''healthz''], HealthPoint),
      (''GET'', [Lit ''metrics''], MetricsPoint),
      (''POST'', [Lit ''v1'', Lit ''challenge''], ChallengePoint),
      (''OPTIONS'', [Lit ''v1'', Lit ''challenge''], ChallengeOptions),
      (''POST'', [Lit ''v1'', Lit ''challenge'', Wild, Lit ''verify''], VerifyPoint),
      (''OPTIONS'', [Lit ''v1'', Lit ''challenge'', Wild, Lit ''verify''], VerifyOptions),
      (''POST'', [Lit ''v1'', Lit ''siteverify''], SiteVerifyPoint)]"

text \<open>What a pattern binds its wildcards to; a wildcard never stands for a slash at the end.\<close>

fun match_pattern :: "pattern list \<Rightarrow> string list \<Rightarrow> string list option" where
  "match_pattern [] [] = Some []"
| "match_pattern (Lit t # ps) (x # xs) = (if x = t then match_pattern ps xs else None)"
| "match_pattern (Wild # ps) (x # xs) = (if x = ''/'' then None else map_option ((#) x) (match_pattern ps xs))"
| "match_pattern _ _ = None"

text \<open>The route of a method and path. No two patterns match the same one, so their order is of no account.\<close>

definition find_route :: "string \<Rightarrow> string \<Rightarrow> (endpoint \<times> string list) option" where
  "find_route method path =
     (case find (\<lambda>(m, ps, e). m = method \<and> match_pattern ps (segments path) \<noteq> None) routes of
        None \<Rightarrow> None
      | Some (m, ps, e) \<Rightarrow> map_option (Pair e) (match_pattern ps (segments path)))"

text \<open>A pattern for GET also serves HEAD.\<close>

definition mux_match :: "string \<Rightarrow> string \<Rightarrow> (endpoint \<times> string list) option" where
  "mux_match method path =
     (case find_route method path of
        Some r \<Rightarrow> Some r
      | None \<Rightarrow> if method = ''HEAD'' then find_route ''GET'' path else None)"

definition path_methods :: "string \<Rightarrow> string list" where
  "path_methods path =
     filter (\<lambda>m. find_route (if m = ''HEAD'' then ''GET'' else m) path \<noteq> None) [''GET'', ''HEAD'', ''OPTIONS'', ''POST'']"

definition allowed_methods :: "string \<Rightarrow> string list" where
  "allowed_methods path =
     filter (\<lambda>m. m \<in> set (path_methods path) \<or> \<not> suffix ''/'' path \<and> m \<in> set (path_methods (path @ ''/'')))
       [''GET'', ''HEAD'', ''OPTIONS'', ''POST'']"

text \<open>
  What the multiplexer does with a request. A path that is not clean is redirected to the clean one
  whether or not a pattern matches that; a path without a match is not redirected to one with a slash at its end, since
  no pattern ends in one.
\<close>

datatype routed = To endpoint "string list" | BadUri | MovedPermanently string | NotAllowed "string list" | NotFound

definition route :: "http_in \<Rightarrow> routed" where
  "route q =
     (let raw = rq_escaped_path q;
          path = (if rq_method q = ''CONNECT'' then raw else clean_path raw)
      in if rq_uri q = ''*'' then BadUri
         else if path \<noteq> raw then MovedPermanently path
         else case mux_match (rq_method q) path of
                Some (e, ms) \<Rightarrow> To e ms
              | None \<Rightarrow> if allowed_methods path \<noteq> [] then NotAllowed (allowed_methods path) else NotFound)"

subsection \<open>From the request to the handler\<close>

definition request_of :: "http_in \<Rightarrow> string list \<Rightarrow> http_request" where
  "request_of q ms =
     \<lparr>remote_addr = rq_remote q, header = rq_header q, path_id = (case ms of [] \<Rightarrow> [] | x # _ \<Rightarrow> x)\<rparr>"

definition site_verify_body_of :: "world \<Rightarrow> int \<Rightarrow> http_in \<Rightarrow> site_verify_body" where
  "site_verify_body_of wd limit q =
     (let ct = rq_header q ''Content-Type'';
          media = (if ct = [] then Some ''application/octet-stream'' else media_type wd ct)
      in \<lparr>sb_json = read_site_verify limit (rq_body q),
          sb_form = map_option form_get (parse_form media (rq_query q) (max_bytes limit (rq_body q)))\<rparr>)"

definition call_of :: "world \<Rightarrow> int \<Rightarrow> http_in \<Rightarrow> endpoint \<Rightarrow> string list \<Rightarrow> call" where
  "call_of wd limit q e ms =
     (let r = request_of q ms in
      case e of
        HealthPoint \<Rightarrow> Health
      | MetricsPoint \<Rightarrow> MetricsReport
      | ChallengePoint \<Rightarrow> IssueChallenge r (read_challenge_request limit (rq_body q))
      | ChallengeOptions \<Rightarrow> Preflight r
      | VerifyPoint \<Rightarrow> VerifyChallenge r (read_verify_request limit (rq_body q))
      | VerifyOptions \<Rightarrow> Preflight r
      | SiteVerifyPoint \<Rightarrow> SiteVerify r (site_verify_body_of wd limit q))"

text \<open>\<open>http.Error\<close>\<close>

definition http_error :: "string \<Rightarrow> int \<Rightarrow> writer \<Rightarrow> writer" where
  "http_error text st w =
     (write_status st (set_header ''X-Content-Type-Options'' ''nosniff''
        (set_header ''Content-Type'' ''text/plain; charset=utf-8'' w)))\<lparr>w_body := Some (TextBody (text @ [CHR 0x0A]))\<rparr>"

definition join_comma :: "string list \<Rightarrow> string" where
  "join_comma ms = (case ms of [] \<Rightarrow> [] | m # rest \<Rightarrow> m @ concat (map (\<lambda>x. '', '' @ x) rest))"

definition mux :: "world \<Rightarrow> http_in \<Rightarrow> server \<Rightarrow> writer \<Rightarrow> server \<times> writer" where
  "mux wd q s w =
     (case route q of
        To e ms \<Rightarrow> handle_call wd (call_of wd (rt_max_body_bytes (cfg s)) q e ms) s w
      | BadUri \<Rightarrow> (s, write_status 400 (set_header ''Connection'' ''close'' w))
      | MovedPermanently path \<Rightarrow> (s, write_status 301 w)
      | NotAllowed ms \<Rightarrow> (s, http_error ''Method Not Allowed'' 405 (set_header ''Allow'' (join_comma ms) w))
      | NotFound \<Rightarrow> (s, http_error ''404 page not found'' 404 w))"

text \<open>A handler returns or panics; a panic is answered like an internal error.\<close>

datatype outcome = Returned "server \<times> writer" | Panicked "server \<times> writer"

fun recoverer :: "outcome \<Rightarrow> server \<times> writer" where
  "recoverer (Returned r) = r"
| "recoverer (Panicked (s, w)) = (s, write_error 500 ''internal-error'' w)"

definition serve_http :: "world \<Rightarrow> http_in \<Rightarrow> server \<Rightarrow> server \<times> writer" where
  "serve_http wd q s =
     recoverer (Returned (mux wd q s (security (path_unescape (rq_escaped_path q)) fresh_writer)))"


subsection \<open>What is routed where\<close>

lemma match_Nil: "match_pattern [] xs = Some ms \<longleftrightarrow> xs = [] \<and> ms = []"
  by (cases xs) auto

lemma match_Lit: "match_pattern (Lit t # ps) xs = Some ms \<longleftrightarrow> (\<exists>ys. xs = t # ys \<and> match_pattern ps ys = Some ms)"
  by (cases xs) auto

lemma match_Wild: "match_pattern (Wild # ps) xs = Some ms \<longleftrightarrow>
    (\<exists>x ys ns. xs = x # ys \<and> x \<noteq> ''/'' \<and> ms = x # ns \<and> match_pattern ps ys = Some ns)"
  by (cases xs) auto

lemmas match_iffs = match_Nil match_Lit match_Wild

lemma routes_unambiguous:
  "(m, ps, e) \<in> set routes \<Longrightarrow> (m, ps', e') \<in> set routes \<Longrightarrow> match_pattern ps xs = Some ms \<Longrightarrow>
     match_pattern ps' xs = Some ms' \<Longrightarrow> ps = ps' \<and> e = e'"
  by (auto simp: routes_def match_iffs)

lemma find_route_iff:
  "find_route m p = Some (e, ms) \<longleftrightarrow> (\<exists>ps. (m, ps, e) \<in> set routes \<and> match_pattern ps (segments p) = Some ms)"
proof
  assume "find_route m p = Some (e, ms)"
  then show "\<exists>ps. (m, ps, e) \<in> set routes \<and> match_pattern ps (segments p) = Some ms"
    by (auto simp: find_route_def find_Some_iff split: option.splits) (metis nth_mem)
next
  assume "\<exists>ps. (m, ps, e) \<in> set routes \<and> match_pattern ps (segments p) = Some ms"
  then obtain ps where ps: "(m, ps, e) \<in> set routes" "match_pattern ps (segments p) = Some ms" by blast
  let ?P = "\<lambda>(m', ps, e). m' = m \<and> match_pattern ps (segments p) \<noteq> None"
  obtain m' ps' e' where f: "find ?P routes = Some (m', ps', e')"
    using ps find_None_iff [of ?P routes] by (cases "find ?P routes") auto
  then have "(m, ps', e') \<in> set routes" "m' = m" "match_pattern ps' (segments p) \<noteq> None"
    by (auto simp: find_Some_iff) (metis nth_mem)
  with ps f show "find_route m p = Some (e, ms)"
    using routes_unambiguous [OF ps(1) _ ps(2)] by (fastforce simp: find_route_def)
qed

lemma find_route_None:
  "find_route m p = None \<longleftrightarrow> \<not> (\<exists>ps e ms. (m, ps, e) \<in> set routes \<and> match_pattern ps (segments p) = Some ms)"
proof -
  have "find_route m p = None \<longleftrightarrow> \<not> (\<exists>e ms. find_route m p = Some (e, ms))"
    by (metis option.exhaust option.distinct(1) surj_pair)
  then show ?thesis unfolding find_route_iff by blast
qed

lemma routed_methods: "(m, ps, e) \<in> set routes \<Longrightarrow> m \<in> {''GET'', ''POST'', ''OPTIONS''}"
  by (auto simp: routes_def)

lemma find_route_other: "m \<notin> {''GET'', ''POST'', ''OPTIONS''} \<Longrightarrow> find_route m p = None"
  using routed_methods unfolding find_route_None by blast

lemma mux_match_iff:
  "mux_match m p = Some (e, ms) \<longleftrightarrow>
     (\<exists>m' ps. (m', ps, e) \<in> set routes \<and> (m = m' \<or> m = ''HEAD'' \<and> m' = ''GET'')
        \<and> match_pattern ps (segments p) = Some ms)"
proof (cases "m = ''HEAD''")
  case True
  have "(''HEAD'', ps, e) \<notin> set routes" for ps using routed_methods [of "''HEAD''" ps e] by auto
  moreover have "mux_match m p = find_route ''GET'' p"
    using find_route_other [of m p] by (simp add: mux_match_def True)
  ultimately show ?thesis by (auto simp: find_route_iff True)
next
  case False
  then have "mux_match m p = find_route m p" by (simp add: mux_match_def split: option.split)
  with False show ?thesis by (simp add: find_route_iff)
qed

lemma route_To_iff:
  "route q = To e ms \<longleftrightarrow>
     rq_uri q \<noteq> ''*'' \<and> clean_path (rq_escaped_path q) = rq_escaped_path q
     \<and> (\<exists>m ps. (m, ps, e) \<in> set routes \<and> (rq_method q = m \<or> rq_method q = ''HEAD'' \<and> m = ''GET'')
          \<and> match_pattern ps (segments (rq_escaped_path q)) = Some ms)"
proof (cases "rq_method q = ''CONNECT''")
  case True
  then have "mux_match (rq_method q) p = None" for p by (simp add: mux_match_def find_route_other)
  moreover have "\<not> (\<exists>m ps. (m, ps, e) \<in> set routes \<and> (rq_method q = m \<or> rq_method q = ''HEAD'' \<and> m = ''GET''))"
    using routed_methods [of "rq_method q"] True by auto
  ultimately show ?thesis by (auto simp: route_def Let_def)
next
  case False
  have "route q = To e ms \<longleftrightarrow> rq_uri q \<noteq> ''*'' \<and> clean_path (rq_escaped_path q) = rq_escaped_path q
      \<and> mux_match (rq_method q) (rq_escaped_path q) = Some (e, ms)"
    using False by (auto simp: route_def Let_def split: option.split)
  then show ?thesis unfolding mux_match_iff .
qed

text \<open>Where a request goes, by the segments of its path.\<close>

definition served_path :: "endpoint \<Rightarrow> string list \<Rightarrow> string list" where
  "served_path e ms =
     (case e of
        HealthPoint \<Rightarrow> [''healthz'']
      | MetricsPoint \<Rightarrow> [''metrics'']
      | SiteVerifyPoint \<Rightarrow> [''v1'', ''siteverify'']
      | ChallengePoint \<Rightarrow> [''v1'', ''challenge'']
      | ChallengeOptions \<Rightarrow> [''v1'', ''challenge'']
      | VerifyPoint \<Rightarrow> [''v1'', ''challenge''] @ ms @ [''verify'']
      | VerifyOptions \<Rightarrow> [''v1'', ''challenge''] @ ms @ [''verify''])"

definition served_methods :: "endpoint \<Rightarrow> string list" where
  "served_methods e =
     (if e \<in> {HealthPoint, MetricsPoint} then [''GET'', ''HEAD'']
      else if e \<in> {ChallengeOptions, VerifyOptions} then [''OPTIONS''] else [''POST''])"

definition bound_values :: "endpoint \<Rightarrow> nat" where
  "bound_values e = (if e \<in> {VerifyPoint, VerifyOptions} then 1 else 0)"

text \<open>C12. A request reaches a handler exactly when its path is clean, its method is one the handler is
  registered for (HEAD for GET, too) and the segments of the path, unescaped one by one, are those of
  the pattern; the challenge identifier in the path is one segment and not a slash at its end.\<close>

theorem request_routed_iff:
  "route q = To e ms \<longleftrightarrow>
     rq_uri q \<noteq> ''*'' \<and> clean_path (rq_escaped_path q) = rq_escaped_path q
     \<and> rq_method q \<in> set (served_methods e) \<and> segments (rq_escaped_path q) = served_path e ms
     \<and> length ms = bound_values e \<and> ''/'' \<notin> set ms"
  unfolding route_To_iff
  by (cases e) (auto simp: routes_def served_methods_def served_path_def bound_values_def match_iffs length_Suc_conv Cons_eq_append_conv)

subsection \<open>A routed request is a call\<close>

lemma url_unescape_slash: "url_unescape b s = Some t \<Longrightarrow> CHR ''/'' \<in> set s \<Longrightarrow> CHR ''/'' \<in> set t"
proof (induction b s arbitrary: t rule: url_unescape.induct)
  case (2 query c s)
  show ?case
  proof (cases "c = CHR ''%''")
    case True
    with "2.prems"(1) obtain x y u m n v where s: "s = x # y # u" "hex_val x = Some m" "hex_val y = Some n"
        "url_unescape query u = Some v" "t = char_of (16 * m + n) # v"
      by (auto split: list.splits option.splits)
    have "hex_val CHR ''/'' = None" by (simp add: hex_val_def)
    with s(2,3) "2.prems"(2) True have "CHR ''/'' \<in> set u" by (auto simp: s(1))
    with "2.IH"(1) [OF True s(1) refl refl s(2,3,4)] show ?thesis by (simp add: s(5))
  next
    case False
    with "2.IH"(2) "2.prems" show ?thesis by auto
  qed
qed simp

lemma path_unescape_Cons: "path_unescape (CHR ''/'' # s) = CHR ''/'' # path_unescape s"
  by (simp add: path_unescape_def split: option.split)

lemma path_unescape_slash: "CHR ''/'' \<in> set s \<Longrightarrow> CHR ''/'' \<in> set (path_unescape s)"
  using url_unescape_slash [of False s] by (auto simp: path_unescape_def split: option.split)

lemma clean_path_rooted: "clean_path p = p \<Longrightarrow> \<exists>s. p = CHR ''/'' # s"
proof -
  have "clean_rooted x \<noteq> [] \<and> hd (clean_rooted x) = CHR ''/''" for x
    by (auto simp: clean_rooted_def Let_def neq_Nil_conv)
  then have "clean_path p \<noteq> [] \<and> hd (clean_path p) = CHR ''/''" by (auto simp: clean_path_def Let_def)
  then show "clean_path p = p \<Longrightarrow> ?thesis" by (cases p) auto
qed

lemma segments_rooted:
  "segments (CHR ''/'' # s) = (if s = [] then [''/''] else
     path_unescape (takeWhile (\<lambda>c. c \<noteq> CHR ''/'') s) # segments (dropWhile (\<lambda>c. c \<noteq> CHR ''/'') s))"
  by (subst segments.simps) simp

text \<open>The path decides two things about a routed request: its endpoint, and whether \<open>security\<close> sets the last of its headers.\<close>

lemma routed_security:
  assumes "route q = To e ms"
  shows "security (path_unescape (rq_escaped_path q)) = security (call_path (call_of wd limit q e ms))"
proof -
  let ?plain = "\<lambda>p. p = ''/metrics'' \<or> p = ''/healthz''"
  obtain m ps where r: "(m, ps, e) \<in> set routes" "match_pattern ps (segments (rq_escaped_path q)) = Some ms"
    and c: "clean_path (rq_escaped_path q) = rq_escaped_path q"
    using assms unfolding route_To_iff by blast
  obtain s where s: "rq_escaped_path q = CHR ''/'' # s" using clean_path_rooted [OF c] by blast
  let ?a = "takeWhile (\<lambda>c. c \<noteq> CHR ''/'') s" and ?b = "dropWhile (\<lambda>c. c \<noteq> CHR ''/'') s"
  have seg: "segments (rq_escaped_path q) = path_unescape ?a # segments ?b" if "s \<noteq> []"
    using that by (simp add: s segments_rooted)
  have ne: "s \<noteq> []" using r by (auto simp: s segments_rooted routes_def match_iffs)
  have *: "path_unescape (rq_escaped_path q) = CHR ''/'' # path_unescape s" by (simp add: s path_unescape_Cons)
  have "?plain (path_unescape (rq_escaped_path q)) \<longleftrightarrow> ?plain (call_path (call_of wd limit q e ms))"
  proof (cases "?b = []")
    case True
    then have "?a = s" by (metis append_Nil2 takeWhile_dropWhile_id)
    with r(2) have m: "match_pattern ps [path_unescape s] = Some ms"
      unfolding seg [OF ne] True by (simp add: segments.simps [of "[]"])
    with r(1) consider "path_unescape s = ''healthz''" "e = HealthPoint" | "path_unescape s = ''metrics''" "e = MetricsPoint"
      by (auto simp: routes_def match_iffs split: if_splits)
    then show ?thesis unfolding * by cases (simp_all add: call_path_def call_of_def)
  next
    case False
    then have "CHR ''/'' \<in> set s" by (auto simp: dropWhile_eq_Nil_conv)
    then have "CHR ''/'' \<in> set (path_unescape s)" by (rule path_unescape_slash)
    moreover from False have "segments ?b \<noteq> []" by (subst segments.simps) simp
    then have "e \<noteq> HealthPoint" "e \<noteq> MetricsPoint"
      using r unfolding seg [OF ne] by (auto simp: routes_def match_iffs split: if_splits)
    ultimately show ?thesis unfolding *
      by (cases e) (auto simp: call_path_def call_of_def Let_def)
  qed
  then show ?thesis unfolding security_def by (intro ext) (simp add: Let_def, blast?)
qed

theorem routed_is_served:
  "route q = To e ms \<Longrightarrow> serve_http wd q s = serve wd (call_of wd (rt_max_body_bytes (cfg s)) q e ms) s"
  using routed_security [of q e ms wd "rt_max_body_bytes (cfg s)"]
  by (simp add: serve_http_def mux_def serve_def)

text \<open>A request that matches no pattern changes nothing and is answered by the multiplexer.\<close>

theorem unrouted_is_inert:
  assumes "\<And>e ms. route q \<noteq> To e ms"
  shows "fst (serve_http wd q s) = s \<and> w_status (snd (serve_http wd q s)) \<in> {Some 301, Some 400, Some 404, Some 405}"
  using assms
  by (cases "route q")
    (auto simp: serve_http_def mux_def http_error_def write_status_def set_header_def security_def fresh_writer_def Let_def)


subsection \<open>Plain paths\<close>

text \<open>A path of elements that need no cleaning and no escapes is routed by these elements.\<close>

definition plain_element :: "string \<Rightarrow> bool" where
  "plain_element e \<longleftrightarrow> e \<noteq> [] \<and> e \<noteq> ''.'' \<and> e \<noteq> ''..'' \<and> CHR ''/'' \<notin> set e \<and> CHR ''%'' \<notin> set e"

definition path_of :: "string list \<Rightarrow> string" where
  "path_of es = concat (map (\<lambda>e. CHR ''/'' # e) es)"

lemma path_of_Cons: "path_of (e # es) = CHR ''/'' # e @ path_of es"
  by (simp add: path_of_def)

lemma url_unescape_plain: "CHR ''%'' \<notin> set e \<Longrightarrow> url_unescape False e = Some e"
  by (induction e) auto

lemma path_unescape_plain: "plain_element e \<Longrightarrow> path_unescape e = e"
  by (simp add: plain_element_def path_unescape_def url_unescape_plain)

lemma path_rest: "es = [] \<or> (\<exists>u. path_of es = CHR ''/'' # u)"
  by (cases es) (auto simp: path_of_Cons)

lemma split_path: "list_all plain_element es \<Longrightarrow> plain_element e \<Longrightarrow> split_on CHR ''/'' (e @ path_of es) = e # es"
proof (induction es arbitrary: e)
  case Nil
  then show ?case by (simp add: path_of_def plain_element_def split_on_free)
next
  case (Cons x es)
  then show ?case by (simp add: path_of_Cons plain_element_def split_on_append)
qed

lemma clean_plain: "list_all plain_element es \<Longrightarrow> fold clean_step es out = out @ es"
  by (induction es arbitrary: out) (simp_all add: clean_step_def plain_element_def)

lemma last_path_of: "list_all plain_element es \<Longrightarrow> es \<noteq> [] \<Longrightarrow> last (path_of es) \<noteq> CHR ''/''"
proof (induction es)
  case (Cons e es)
  have "e \<noteq> []" "CHR ''/'' \<notin> set e" using Cons.prems(1) by (simp_all add: plain_element_def)
  then have "last e \<noteq> CHR ''/''" "e \<noteq> []" by (metis last_in_set)+
  with Cons show ?case by (cases "es = []") (simp_all add: path_of_Cons path_of_def)
qed simp

lemma clean_path_of: "list_all plain_element es \<Longrightarrow> es \<noteq> [] \<Longrightarrow> clean_path (path_of es) = path_of es"
proof -
  assume es: "list_all plain_element es" "es \<noteq> []"
  obtain e r where e: "es = e # r" using es(2) by (cases es) auto
  have "split_on CHR ''/'' (path_of es) = [] # es"
    using split_path [of r e] es(1) by (simp add: e path_of_Cons)
  then have "clean_rooted (path_of es) = path_of es"
    using clean_plain [OF es(1), of "[]"] es(2) by (simp add: clean_rooted_def clean_step_def path_of_def)
  moreover have "path_of es \<noteq> []" "hd (path_of es) = CHR ''/''" by (simp_all add: e path_of_Cons)
  ultimately show ?thesis using last_path_of [OF es] by (simp add: clean_path_def Let_def)
qed

lemma segments_path_of: "list_all plain_element es \<Longrightarrow> segments (path_of es) = es"
proof (induction es)
  case Nil
  then show ?case by (simp add: path_of_def segments.simps)
next
  case (Cons e es)
  have e: "\<forall>c\<in>set e. c \<noteq> CHR ''/''" "e \<noteq> []" "path_unescape e = e"
    using Cons.prems by (auto simp: plain_element_def path_unescape_plain)
  have "takeWhile (\<lambda>c. c \<noteq> CHR ''/'') (path_of es) = []" "dropWhile (\<lambda>c. c \<noteq> CHR ''/'') (path_of es) = path_of es"
    using path_rest [of es] by (auto simp: path_of_def)
  with e(1) have "takeWhile (\<lambda>c. c \<noteq> CHR ''/'') (e @ path_of es) = e"
      "dropWhile (\<lambda>c. c \<noteq> CHR ''/'') (e @ path_of es) = path_of es"
    by (simp_all add: takeWhile_append2 dropWhile_append2)
  with e(2,3) Cons show ?case by (simp add: path_of_Cons segments_rooted)
qed

lemma plain_not_slash: "plain_element e \<Longrightarrow> e \<noteq> ''/''"
  by (auto simp: plain_element_def)

lemma plain_literals: "list_all plain_element [''v1'', ''challenge'', ''verify'', ''siteverify'', ''healthz'', ''metrics'']"
  by (simp add: plain_element_def)

lemma route_plain:
  assumes "rq_uri q \<noteq> ''*''" and "rq_escaped_path q = path_of es" and "list_all plain_element es" and "es \<noteq> []"
    and "(rq_method q, ps, e) \<in> set routes" and "match_pattern ps es = Some ms"
  shows "route q = To e ms"
  unfolding route_To_iff using assms by (auto simp: clean_path_of segments_path_of)

text \<open>The path under which a challenge is redeemed.\<close>

lemma issued_id_plain:
  assumes "new_challenge r1 r2 t kind sk ac h sid b score tags ttl = Inr c"
  shows "plain_element (ch_id c)"
proof -
  obtain idb where idb: "read_random 18 r1 = Some idb" "ch_id c = ''bsc_'' @ b64_encode idb"
    using assms by (auto elim!: new_challenge_Inr)
  have "\<not> b64_alphabet CHR ''/''" "\<not> b64_alphabet CHR ''%''" by (simp_all add: b64_alphabet_def b64_val_def)
  then have "CHR ''/'' \<notin> set (b64_encode idb)" "CHR ''%'' \<notin> set (b64_encode idb)"
    using b64_encode_alphabet [of idb] by (auto simp: list_all_iff)
  then show ?thesis by (simp add: plain_element_def idb(2))
qed

theorem issued_path_routed:
  assumes "new_challenge r1 r2 t kind sk ac h sid b score tags ttl = Inr c"
    and "rq_method q = ''POST''" and "rq_uri q \<noteq> ''*''"
    and "rq_escaped_path q = ''/v1/challenge/'' @ ch_id c @ ''/verify''"
  shows "serve_http wd q s
    = serve wd (VerifyChallenge (request_of q [ch_id c]) (read_verify_request (rt_max_body_bytes (cfg s)) (rq_body q))) s"
proof -
  have "route q = To VerifyPoint [ch_id c]"
    using assms(2-4) issued_id_plain [OF assms(1)] plain_literals plain_not_slash [OF issued_id_plain [OF assms(1)]]
    by (intro route_plain [where es = "[''v1'', ''challenge'', ch_id c, ''verify'']"
          and ps = "[Lit ''v1'', Lit ''challenge'', Wild, Lit ''verify'']"])
      (simp_all add: path_of_def routes_def plain_element_def)
  from routed_is_served [OF this] show ?thesis by (simp add: call_of_def)
qed

subsection \<open>Bodies\<close>

lemma read_body_whole: "read_body d z limit b = GoodJson x True \<Longrightarrow> length (fst b) \<le> nat limit"
  by (auto simp: read_body_def max_bytes_def next_value_def split: option.splits scanned.splits if_splits)

lemma map_decoded_Good: "map_decoded f d = GoodJson y e \<longleftrightarrow> (\<exists>x. d = GoodJson x e \<and> y = f x)"
  by (cases d) auto

lemma oversized_unread:
  assumes "nat limit < length (fst b)"
  shows "read_challenge_request limit b \<noteq> GoodJson q True" and "read_verify_request limit b \<noteq> GoodJson v True"
  using assms by (auto simp: read_challenge_request_def read_verify_request_def map_decoded_Good dest: read_body_whole)

lemma unread_refused: "(\<And>x. body \<noteq> GoodJson x True) \<Longrightarrow> \<exists>code. \<forall>w. decode_json body w = Inl (write_error 400 code w)"
  by (cases body) (auto simp: decode_json_def)

text \<open>An answer with an error code and a status of 400 or 403.\<close>

definition refusal :: "writer \<Rightarrow> bool" where
  "refusal w \<longleftrightarrow> (\<exists>code. w_body w = Some (ErrorBody code)) \<and> w_status w \<in> {Some 400, Some 403}"

lemma refusal_write_error: "w_status w = None \<Longrightarrow> st = 400 \<or> st = 403 \<Longrightarrow> refusal (write_error st code w)"
  by (auto simp: refusal_def write_error_def w_status_write_json)

lemma unread_verify_challenge:
  assumes "\<And>x. body \<noteq> GoodJson x True" and "w_status w = None"
  shows "refusal (snd (verify_challenge wd r body s w))"
proof -
  obtain code where "\<And>w. decode_json body w = Inl (write_error 400 code w)"
    using unread_refused [of body, OF assms(1)] by blast
  moreover have "w_status (set_cors r w) = None" using assms(2) by (simp add: set_cors_def set_header_def Let_def)
  ultimately show ?thesis
    using assms(2) by (simp add: verify_challenge_def Let_def refusal_write_error split: option.split prod.split)
qed

definition site_verify_members :: "site_verify_request \<Rightarrow> (string \<times> json) list" where
  "site_verify_members v =
     [(''secret'', JStr (sv_secret v)), (''response'', JStr (sv_response v)), (''remoteip'', JStr (sv_remote_ip v)),
      (''expected_action'', JStr (sv_expected_action v)), (''expected_hostname'', JStr (sv_expected_hostname v))]"

definition site_verify_text :: "site_verify_request \<Rightarrow> string" where
  "site_verify_text v = print_json (JObj (site_verify_members v))"

lemma site_verify_names: "distinct (map (\<lambda>f. fold_name (fst f)) site_verify_fields)"
  by (simp add: site_verify_fields_def upper_byte_def)

lemma feed_print: "printable max_nesting v \<Longrightarrow> feed [] BeginValue (print_json v) = Scanned v [] (self_delimiting v)"
  using feed_print_json [of max_nesting v "[]" "[]"] by (simp add: ends_number_def)

lemma read_site_verify_text:
  assumes "list_all utf8_valid [sv_secret v, sv_response v, sv_remote_ip v, sv_expected_action v, sv_expected_hostname v]"
    and "length (site_verify_text v) \<le> nat limit"
  shows "read_site_verify limit (site_verify_text v @ junk, fin) = Some v"
proof -
  have names: "list_all utf8_valid [''secret'', ''response'', ''remoteip'', ''expected_action'', ''expected_hostname'']"
    unfolding list_all_iff by (intro ballI utf8_valid_ascii) (auto simp: list_all_iff is_ascii_def)
  have "feed [] BeginValue (site_verify_text v) = Scanned (JObj (site_verify_members v)) [] True"
    unfolding site_verify_text_def
    by (subst feed_print) (use assms(1) names in \<open>simp_all add: max_nesting_def site_verify_members_def\<close>)
  note feed_delimited [OF this]
  moreover have "dec_exact site_verify_fields (site_verify_members v) empty_site_verify_request = Some v"
    by (simp add: site_verify_fields_def site_verify_members_def field_def empty_site_verify_request_def)
  ultimately show ?thesis
    using assms(2) dec_members_exact [OF site_verify_names]
    by (simp add: read_site_verify_def next_value_def limit_reader_def max_bytes_def min_def)
qed

end
