(* ===== verification/Exchange.thy ===== *)
theory Exchange
  imports Http
begin

text \<open>
  The exchange of a token over HTTP: what a server made of a loaded configuration signs with, the claims of a token it
  gives for a passive request, and the POST with which a site's backend asks about a token.
\<close>

subsection \<open>A token given and presented\<close>

text \<open>A token given for a passive request is good: while it is current and unspent, a
  \<open>siteverify\<close> that names the site's secret, the action, the host name and an address of the same
  network is answered with success, whatever the server has done in between.\<close>

lemma passive_token_good:
  assumes "scored_as wd r body s req site ''allow''" and "read_random 18 (random wd 0) = Some rnd"
    and "w_body (snd (serve wd (IssueChallenge r body) s)) = Some (ChallengeBody (passive_answer tok))"
    and "same_setup s s'" and "encodable (passive_claims wd r req site s rnd)" and "utf8_valid (signer_kid (signer s))"
    and "signer_kid (signer s) \<noteq> []" and "verify_keys (signer s) (signer_kid (signer s)) = Some (active_secret (signer s))"
    and "site_key site \<noteq> []" and "normalize_hostname (lower wd) (cr_hostname req) \<noteq> []"
    and "clock wd 1 \<le> clock wd' 0" and "clock wd' 0 < time_unix (unix (clock wd 1 + ttl_of (token_ttl_seconds site)))"
    and "parse_site_verify wd' r' body' = Some q" and "sv_response q = tok"
    and "registry_get_by_secret (site_order wd') (rt_sites (cfg s)) (sv_secret q) = Some site"
    and "expected_by wd' s' site q (passive_claims wd r req site s rnd)"
    and "unspent (clock wd' 1) (b64_encode rnd) (store s')"
  shows "w_body (snd (serve wd' (SiteVerify r' body') s'))
     = Some (SiteVerifyBody (accepted_site_verify (passive_claims wd r req site s rnd)))"
proof -
  let ?c = "passive_claims wd r req site s rnd"
  have "\<exists>t. sign (signer s) ?c = Inr t \<and> authentic (signer s) t ?c"
    using assms(5-8) by (rule sign_authentic)
  moreover have "sign (signer s) ?c = Inr tok"
    using assms(3) issue_token [OF assms(1)] assms(2) by (simp add: serve_issue_challenge)
  ultimately have auth: "authentic (signer s') tok ?c"
    using assms(4) by (simp add: same_setup_def)
  have "cr_action req \<noteq> []" using assms(1) by (auto simp: scored_as_def admissible_def action_ok_def)
  then have "claims_current (clock wd' 0) ?c"
    unfolding passive_claims_def using assms(9-12) length_read_random [OF assms(2)]
    by (intro minted_claims_current) auto
  then have "presents wd' r' body' s' ?c"
    using assms(4,13-16) auth unfolding presents_def verify_token_iff site_verify_mismatch_iff
    by (auto simp: same_setup_def)
  moreover have "fst (consume_jti (clock wd' 1) (tc_jti ?c) (time_unix (tc_expires_at ?c)) (store s'))"
    using assms(17) by (simp add: passive_claims_def minted_claims_def unspent_iff [symmetric] del: One_nat_def)
  ultimately show ?thesis
    unfolding serve_site_verify by (rule site_verify_accepted)
qed

lemma sign_ascii: "sign s c = Inr tok \<Longrightarrow> list_all is_ascii tok"
  using b64_encode_ascii by (auto simp: sign_def Let_def is_ascii_def split: option.splits)

lemma allowed_scored:
  assumes "w_body (snd (issue_challenge wd r body s w)) = Some (ChallengeBody resp)" and "w_body w = None"
    and "resp_decision resp = ''allow''"
  shows "\<exists>req site. scored_as wd r body s req site ''allow''"
proof -
  obtain req site d where d: "scored_as wd r body s req site d" "d \<in> {''block'', ''allow'', ''pow'', ''interactive''}"
    using issue_body_cases [OF assms(1,2)] by blast
  have v: "rd_decision (verdict wd r req site s) = d" using d(1) by (simp add: scored_as_def)
  have "d = ''allow''"
    using assms(1,3) d(2) unfolding issue_scored [OF d(1)]
    by (auto simp: answer_decision_def v Let_def empty_challenge_response_def split: sum.splits)
  with d(1) show ?thesis by blast
qed

text \<open>A POST of a text of these fields to \<open>/v1/siteverify\<close>, within the limits of the code.\<close>

definition site_verify_post :: "world \<Rightarrow> http_in \<Rightarrow> site_verify_request \<Rightarrow> server \<Rightarrow> bool" where
  "site_verify_post wd q v s \<longleftrightarrow>
     rq_method q = ''POST'' \<and> rq_uri q \<noteq> ''*'' \<and> rq_escaped_path q = ''/v1/siteverify''
     \<and> sublist ''application/json'' (to_lower (lower wd) (rq_header q ''Content-Type''))
     \<and> rq_body q = (site_verify_text v, True)
     \<and> list_all utf8_valid [sv_secret v, sv_response v, sv_remote_ip v, sv_expected_action v, sv_expected_hostname v]
     \<and> site_verify_fields_ok v \<and> length (site_verify_text v) \<le> nat (rt_max_body_bytes (cfg s))"

lemma site_verify_post_routed: "site_verify_post wd q v s \<Longrightarrow> route q = To SiteVerifyPoint []"
  using plain_literals
  by (intro route_plain [where es = "[''v1'', ''siteverify'']" and ps = "[Lit ''v1'', Lit ''siteverify'']"])
    (simp_all add: site_verify_post_def path_of_def routes_def plain_element_def)

lemma serve_parsed:
  assumes "parse_site_verify wd r b = parse_site_verify wd r b'"
  shows "serve wd (SiteVerify r b) s = serve wd (SiteVerify r b') s"
  unfolding serve_site_verify site_verify_def assms ..

lemma serve_site_verify_post:
  assumes "site_verify_post wd q v s"
  shows "\<exists>b. serve_http wd q s = serve wd (SiteVerify (request_of q []) b) s
     \<and> parse_site_verify wd (request_of q []) b = Some v"
proof -
  note site_verify_post_routed [OF assms]
  from routed_is_served [OF this, of wd s]
  have "serve_http wd q s
      = serve wd (SiteVerify (request_of q []) (site_verify_body_of wd (rt_max_body_bytes (cfg s)) q)) s"
    by (simp add: call_of_def)
  moreover have "parse_site_verify wd (request_of q []) (site_verify_body_of wd (rt_max_body_bytes (cfg s)) q) = Some v"
    using assms read_site_verify_text [of v "rt_max_body_bytes (cfg s)" "[]"]
    by (simp add: site_verify_post_def parse_site_verify_def site_verify_body_of_def request_of_def Let_def)
  ultimately show ?thesis by blast
qed

text \<open>A server made of a configuration that loading accepts, whatever it has served since.\<close>

definition configured :: "unicode \<Rightarrow> bool \<Rightarrow> server \<Rightarrow> bool" where
  "configured uc production s \<longleftrightarrow>
     runtime_ok uc production (cfg s) \<and> same_setup (new_server (cfg s)) s"

lemma configured_signer:
  assumes "configured uc production s"
  shows "signer_kid (signer s) = rt_signing_key_id (cfg s)" "signer_kid (signer s) \<noteq> []"
    "verify_keys (signer s) (signer_kid (signer s)) = Some (active_secret (signer s))"
  using assms by (auto simp: configured_def same_setup_def new_server_def runtime_ok_def signer_own_key)

lemma passive_claims_encodable:
  assumes "utf8_valid (site_key site)" "utf8_valid (cr_action req)" "utf8_valid (normalize_hostname (lower wd) (cr_hostname req))"
    and "int64_range (rd_score (verdict wd r req site s))"
    and "int64_range (unix (clock wd 1))" "int64_range (unix (clock wd 1 + ttl_of (token_ttl_seconds site)))"
  shows "encodable (passive_claims wd r req site s rnd)"
  unfolding passive_claims_def
  using assms by (intro minted_claims_encodable)
    (simp_all add: binding_of_def bind_ip_ascii ascii_simps)

text \<open>Whoever scores, the score is a 64-bit integer.\<close>

lemma verdict_range: "int64_range (rd_score (verdict wd r req site s))"
proof -
  have local: "int64_range (rd_score (local_score uc i site))" for uc i
    using exact_score_bounds [of uc i site] by (simp add: float_score_exact int64_range_def)
  have "int64_range (rd_score (remote_score (risk_at wd) url (local_score uc) i site))" for url uc i
    using remote_score_cases [of "risk_at wd" url "local_score uc" i site] decode_decision_range local by metis
  with local show ?thesis by (cases "scorer s") (simp_all add: verdict_def run_scorer_def)
qed

subsection \<open>From the start of the process\<close>

fun serve_http_all :: "(world \<times> http_in) list \<Rightarrow> server \<Rightarrow> server" where
  "serve_http_all [] s = s"
| "serve_http_all ((wd, q) # qs) s = serve_http_all qs (fst (serve_http wd q s))"

lemma serve_http_setup: "same_setup s (fst (serve_http wd q s))"
proof (cases "\<exists>e ms. route q = To e ms")
  case True
  then obtain e ms where "route q = To e ms" by blast
  from routed_is_served [OF this] show ?thesis using serve_acts by (simp add: acts_def)
next
  case False
  with unrouted_is_inert [of q wd s] show ?thesis by (simp add: same_setup_def)
qed

lemma serve_http_all_setup: "same_setup s (serve_http_all qs s)"
proof (induction qs arbitrary: s)
  case (Cons x qs)
  then show ?case by (cases x) (auto intro: same_setup_trans [OF serve_http_setup])
qed simp

lemma configured_served: "configured uc p s \<Longrightarrow> configured uc p (serve_http_all qs s)"
  using serve_http_all_setup [of s qs] same_setup_trans
  by (auto simp: configured_def same_setup_def)

text \<open>C32. Whatever the environment and the files, a server that starts is well configured, and stays so whatever
  requests it serves: secrets of at least 32 bytes, retired keys that are long enough and not the
  active one, sites with valid fields, thresholds and lifetimes under their own keys, no two with one
  secret, and a signer that knows exactly the active key and the retired ones. If \<open>BERRYSHIELD_ENV\<close> is
  exactly \<open>production\<close>, the signing secret is the one of the environment and not the development secret.\<close>

theorem started_server_configured:
  assumes "start_server uc e = Inr s"
  shows "configured uc (env_is_production e) (serve_http_all qs s)
    \<and> signer (serve_http_all qs s) = new_signer_with_keys (rt_signing_secret (cfg s)) (rt_signing_key_id (cfg s)) (rt_previous_keys (cfg s))
    \<and> (getenv_raw e ''BERRYSHIELD_ENV'' = ''production'' \<longrightarrow>
         rt_signing_secret (cfg s) = getenv_raw e ''BERRYSHIELD_SIGNING_SECRET'')"
proof -
  obtain rt where rt: "load uc e = Inr rt" "s = new_server rt"
    using assms by (auto simp: start_server_def bind_err_Inr)
  then have "configured uc (env_is_production e) s"
    using load_ok [OF rt(1)] by (simp add: configured_def same_setup_def new_server_def)
  moreover have "signer s = new_signer_with_keys (rt_signing_secret (cfg s)) (rt_signing_key_id (cfg s)) (rt_previous_keys (cfg s))"
    by (simp add: rt(2) new_server_def)
  moreover have "getenv_raw e ''BERRYSHIELD_ENV'' = ''production'' \<Longrightarrow>
      rt_signing_secret (cfg s) = getenv_raw e ''BERRYSHIELD_SIGNING_SECRET''"
    using load_production_secret [OF rt(1)] by (simp add: rt(2) new_server_def)
  ultimately show ?thesis
    using configured_served serve_http_all_setup [of s qs] by (simp add: same_setup_def)
qed

lemma started_server_configured_witness:
  "\<exists>s. start_server (\<lambda>x. x) production_env = Inr s
     \<and> rt_signing_secret (cfg s) = ''0123456789abcdef0123456789abcdef''
     \<and> (\<forall>qs. configured (\<lambda>x. x) (env_is_production production_env) (serve_http_all qs s))"
proof -
  obtain rt where "load (\<lambda>x. x) production_env = Inr rt" using production_load by blast
  then have start: "start_server (\<lambda>x. x) production_env = Inr (new_server rt)" by (simp add: start_server_def bind_err_Inr)
  have "getenv_raw production_env ''BERRYSHIELD_ENV'' = ''production''"
    "getenv_raw production_env ''BERRYSHIELD_SIGNING_SECRET'' = ''0123456789abcdef0123456789abcdef''"
    by (simp_all add: production_lookup)
  with start started_server_configured [OF start] show ?thesis by auto
qed

end
