(* ===== verification/DemoHttp.thy ===== *)
theory DemoHttp
  imports Demo Exchange
begin

text \<open>
  The demonstration deployment over HTTP: the bytes of a visitor's POST and of the POST of the site's
  backend, and what the server makes of them.
\<close>

definition demo_members :: "(string \<times> json) list" where
  "demo_members =
     [(''site_key'', JStr ''shop''), (''action'', JStr ''login''), (''hostname'', JStr ''shop.example''),
      (''session_id'', JStr ''s1''),
      (''telemetry'', JObj [(''client'', JObj
         [(''user_agent'', JStr ''M''), (''secure_context'', JBool True), (''wasm_available'', JBool True),
          (''webcrypto_available'', JBool True)])])]"

definition demo_http_client :: client_signals where
  "demo_http_client =
     zero_client\<lparr>cs_user_agent := ''M'', secure_context := True, wasm_available := True, webcrypto_available := True\<rparr>"

definition demo_http_ask :: challenge_request where
  "demo_http_ask =
     \<lparr>cr_site_key = ''shop'', cr_action = ''login'', cr_hostname = ''shop.example'', cr_session_id = ''s1'',
      cr_telemetry = \<lparr>client = demo_http_client\<rparr>\<rparr>"

definition demo_http_visit :: http_in where
  "demo_http_visit =
     \<lparr>rq_method = ''POST'', rq_uri = ''/v1/challenge'', rq_escaped_path = ''/v1/challenge'', rq_query = [],
      rq_remote = ''192.0.2.7:4711'', rq_header = (\<lambda>h. if h = ''User-Agent'' then ''M'' else []),
      rq_body = (print_json (JObj demo_members), True)\<rparr>"

lemma demo_client_decodes:
  "dec_client True (JObj
     [(''user_agent'', JStr ''M''), (''secure_context'', JBool True), (''wasm_available'', JBool True),
      (''webcrypto_available'', JBool True)]) (\<lparr>client = zero_client\<rparr>, []) = Some (\<lparr>client = demo_http_client\<rparr>, [])"
proof -
  have "dec_exact (client_fields True)
     [(''user_agent'', JStr ''M''), (''secure_context'', JBool True), (''wasm_available'', JBool True),
      (''webcrypto_available'', JBool True)] (zero_client, []) = Some (demo_http_client, [])"
    by (simp add: client_fields_def decoder_defs demo_http_client_def)
  from dec_members_exact [OF client_names this] show ?thesis by (simp add: dec_client_def)
qed

lemma demo_http_decodes:
  "dec_struct True (challenge_request_fields True) (JObj demo_members) (zero_challenge_request, []) = Some (demo_http_ask, [])"
proof -
  have "dec_exact (telemetry_fields True) [(''client'', JObj
     [(''user_agent'', JStr ''M''), (''secure_context'', JBool True), (''wasm_available'', JBool True),
      (''webcrypto_available'', JBool True)])] (\<lparr>client = zero_client\<rparr>, []) = Some (\<lparr>client = demo_http_client\<rparr>, [])"
    by (simp add: telemetry_fields_def demo_client_decodes)
  note telemetry = dec_members_exact [OF telemetry_names this]
  have "dec_exact (challenge_request_fields True) demo_members (zero_challenge_request, []) = Some (demo_http_ask, [])"
    using telemetry
    by (simp add: challenge_request_fields_def demo_members_def decoder_defs dec_telemetry_def zero_challenge_request_def
        demo_http_ask_def del: dec_members.simps)
  from dec_members_exact [OF request_names this] show ?thesis by simp
qed

lemma demo_http_printable: "printable max_nesting (JObj demo_members)"
  by (simp add: demo_members_def max_nesting_def ascii_simps)

lemma demo_http_length: "length (print_json (JObj demo_members)) = 193"
  by (simp add: demo_members_def quote_def quote_body_safe html_safe_def)

lemma demo_http_read:
  "read_challenge_request (rt_max_body_bytes demo_runtime) (rq_body demo_http_visit) = GoodJson demo_http_ask True"
  unfolding read_challenge_request_def read_body_def next_value_def
  using demo_http_length demo_http_decodes feed_print [OF demo_http_printable]
  by (simp add: demo_http_visit_def max_bytes_def demo_runtime_def del: print_json.simps)

lemma demo_http_route: "route demo_http_visit = To ChallengePoint []"
  using plain_literals
  by (intro route_plain [where es = "[''v1'', ''challenge'']" and ps = "[Lit ''v1'', Lit ''challenge'']"])
    (simp_all add: demo_http_visit_def path_of_def routes_def)

definition demo_http_input :: risk_input where
  "demo_http_input = demo_input\<lparr>ri_telemetry := \<lparr>client = demo_http_client\<rparr>\<rparr>"

lemma demo_http_quiet:
  "list_all (\<lambda>r. \<not> fst r) (client_rules demo_lower demo_http_input)"
  "list_all (\<lambda>r. \<not> fst r) (network_rules demo_http_input demo_site)"
  by code_simp+

lemma demo_http_score:
  "local_score demo_lower demo_http_input demo_site = \<lparr>rd_score = 0, rd_decision = ''allow'', rd_tags = []\<rparr>"
proof -
  have "list_all (\<lambda>r. \<not> fst r) (score_rules demo_lower demo_http_input demo_site)"
    using demo_http_quiet by (simp add: score_rules_def demo_http_input_def demo_input_def empty_reputation_def)
  then show ?thesis
    by (simp add: local_score_def fold_quiet_rules clamp_round_def f64_unit_def unique_def decide_def demo_thresholds_def)
qed

lemma demo_http_request: "request_of demo_http_visit [] = demo_visit"
  by (simp add: request_of_def demo_http_visit_def demo_visit_def)

lemma demo_http_ask_fields [simp]:
  "cr_site_key demo_http_ask = ''shop''" "cr_action demo_http_ask = ''login''"
  "cr_hostname demo_http_ask = ''shop.example''" "cr_session_id demo_http_ask = ''s1''"
  by (simp_all add: demo_http_ask_def)

lemma demo_http_admissible: "admissible demo_now demo_visit (GoodJson demo_http_ask True) demo_server demo_http_ask demo_site"
  using demo_allows demo_action
  by (simp add: admissible_def demo_http_ask_def demo_world_def origin_allowed_for_hostname_def)

lemma demo_http_rate: "rate_check demo_now demo_visit demo_http_ask demo_site demo_server = (True, 1)"
  by (simp add: rate_check_def allow_rate_def new_memory_def)

lemma demo_http_verdict: "verdict demo_now demo_visit demo_http_ask demo_site demo_server
    = \<lparr>rd_score = 0, rd_decision = ''allow'', rd_tags = []\<rparr>"
proof -
  have "risk_input_of demo_server demo_now demo_visit demo_http_ask ''192.0.2.7'' 1 = demo_http_input"
    by (simp add: risk_input_of_def demo_input_def demo_http_input_def demo_visit_def demo_http_ask_def demo_server_def
        new_server_def demo_runtime_def demo_reputation)
  moreover have "run_scorer demo_now (scorer demo_server) = local_score demo_lower"
    by (simp add: run_scorer_def demo_server_def new_server_def demo_runtime_def demo_world_def)
  ultimately show ?thesis
    unfolding verdict_def demo_http_rate demo_network snd_conv by (simp add: demo_http_score)
qed

lemma demo_http_scored: "scored_as demo_now demo_visit (GoodJson demo_http_ask True) demo_server demo_http_ask demo_site ''allow''"
  by (simp add: scored_as_def demo_http_admissible demo_http_rate demo_http_verdict)

lemma demo_http_claims: "passive_claims demo_now demo_visit demo_http_ask demo_site demo_server demo_random = demo_claims"
  using demo_hostname
  by (simp add: passive_claims_def demo_claims_def demo_claims_of_def demo_http_verdict binding_of_def)

lemma demo_http_answer:
  "w_body (snd (serve_http demo_now demo_http_visit demo_server)) = Some (ChallengeBody (passive_answer demo_token))"
proof -
  have "serve_http demo_now demo_http_visit demo_server
      = serve demo_now (IssueChallenge demo_visit (GoodJson demo_http_ask True)) demo_server"
    unfolding routed_is_served [OF demo_http_route] by (simp add: call_of_def demo_http_request demo_http_read)
  then show ?thesis
    unfolding serve_issue_challenge
    by (simp add: issue_token [OF demo_http_scored])
      (use demo_sign in \<open>auto intro!: exI [of _ demo_random] simp: demo_random_read demo_http_claims\<close>)
qed

text \<open>The site's backend asks about the token.\<close>

definition demo_http_fields :: site_verify_request where
  "demo_http_fields =
     \<lparr>sv_secret = ''0123456789abcdef'', sv_response = demo_token, sv_remote_ip = [],
      sv_expected_action = ''login'', sv_expected_hostname = ''shop.example''\<rparr>"

definition demo_http_check :: http_in where
  "demo_http_check =
     \<lparr>rq_method = ''POST'', rq_uri = ''/v1/siteverify'', rq_escaped_path = ''/v1/siteverify'', rq_query = [],
      rq_remote = ''198.51.100.4:5000'', rq_header = (\<lambda>h. if h = ''Content-Type'' then ''application/json'' else []),
      rq_body = (site_verify_text demo_http_fields, True)\<rparr>"

lemma demo_token_ascii: "list_all html_safe demo_token" "utf8_valid demo_token"
proof -
  show "utf8_valid demo_token" by (rule utf8_valid_ascii [OF sign_ascii [OF demo_sign]])
  show "list_all html_safe demo_token"
    using b64_html_safe by (simp add: demo_token_def sign_def marshal_header_def marshal_claims_def Let_def html_safe_def)
qed

lemma demo_http_post: "same_setup demo_server s \<Longrightarrow> site_verify_post (demo_world t u) demo_http_check demo_http_fields s"
  using length_demo_token demo_token_ascii
  by (simp add: site_verify_post_def demo_http_check_def demo_http_fields_def site_verify_text_def site_verify_members_def
      quote_def quote_body_safe html_safe_def site_verify_fields_ok_def ascii_simps same_setup_def
      demo_runtime_def to_lower_def ascii_lower_def)


lemma demo_configured: "configured demo_lower True demo_server"
proof -
  have "length demo_signing_secret = 32" by (simp add: demo_signing_secret_def)
  moreover have "trim_space ''shop'' \<noteq> [] \<and> \<not> sublist ''change_me'' (to_lower demo_lower ''0123456789abcdef'')"
    by code_simp
  then have "registry_ok demo_lower True [''shop'' \<mapsto> demo_site]"
    by (simp add: registry_ok_def secrets_unique_def site_ok_def demo_thresholds_def thresholds_ok_def)
  ultimately show ?thesis
    by (simp add: configured_def runtime_ok_def previous_keys_ok_def demo_server_def new_server_def demo_runtime_def
        demo_registry same_setup_def)
qed

lemma passive_token_good_witness:
  "w_body (snd (serve demo_now (SiteVerify demo_request demo_body)
      (fst (serve demo_now (IssueChallenge demo_visit (GoodJson demo_ask True)) demo_server))))
   = Some (SiteVerifyBody (accepted_site_verify demo_claims))"
proof -
  let ?s' = "fst (serve demo_now (IssueChallenge demo_visit (GoodJson demo_ask True)) demo_server)"
  let ?q = "\<lparr>sv_secret = ''0123456789abcdef'', sv_response = demo_token, sv_remote_ip = [],
      sv_expected_action = ''login'', sv_expected_hostname = ''shop.example''\<rparr>"
  have "spent (store ?s') = Map.empty"
    unfolding serve_issue_challenge issue_scored [OF demo_scored]
    by (simp add: answer_decision_def demo_verdict Let_def rated_store_def allow_rate_def new_memory_def
        split: sum.split prod.split)
  then have unspent: "unspent (clock demo_now 1) (b64_encode demo_random) (store ?s')"
    by (simp add: unspent_def)
  have answer: "w_body (snd (serve demo_now (IssueChallenge demo_visit (GoodJson demo_ask True)) demo_server))
      = Some (ChallengeBody (passive_answer demo_token))"
    by (rule demo_answer)
  have codec: "encodable (passive_claims demo_now demo_visit demo_ask demo_site demo_server demo_random)"
    unfolding demo_passive_claims by (rule demo_claims_encodable)
  have key: "signer_kid (signer demo_server) \<noteq> []"
    "verify_keys (signer demo_server) (signer_kid (signer demo_server)) = Some (active_secret (signer demo_server))"
    by (simp_all add: new_signer_with_keys_def)
  have named: "site_key demo_site \<noteq> []" "normalize_hostname (lower demo_now) (cr_hostname demo_ask) \<noteq> []"
    using demo_hostname by simp_all
  have time: "clock demo_now 1 \<le> clock demo_now 0"
    "clock demo_now 0 < time_unix (unix (clock demo_now 1 + ttl_of (token_ttl_seconds demo_site)))"
    by (simp_all add: demo_start_def time_unix_def unix_def)
  have parse: "parse_site_verify demo_now demo_request demo_body = Some ?q" "sv_response ?q = demo_token"
    by (simp_all add: demo_parse)
  have site: "registry_get_by_secret (site_order demo_now) (rt_sites (cfg demo_server)) (sv_secret ?q) = Some demo_site"
    using demo_secret by simp
  have expected: "expected_by demo_now ?s' demo_site ?q
      (passive_claims demo_now demo_visit demo_ask demo_site demo_server demo_random)"
    by (simp add: demo_passive_claims expected_by_def network_expected_def)
  show ?thesis
    using passive_token_good [OF demo_scored demo_random_read answer demo_setup codec demo_kid key named time parse site
        expected unspent]
    unfolding demo_passive_claims .
qed

end
