(* ===== verification/TimeText.thy ===== *)
theory TimeText
  imports JsonData
begin

text \<open>
  Instants as text: \<open>time.RFC3339Nano\<close> of package \<open>time\<close> in UTC, as \<open>Format\<close> and \<open>MarshalJSON\<close> write it.
\<close>

subsection \<open>The calendar\<close>

definition is_leap :: "int \<Rightarrow> bool" where
  "is_leap y \<longleftrightarrow> y mod 4 = 0 \<and> (y mod 100 \<noteq> 0 \<or> y mod 400 = 0)"

text \<open>Days from 1 January of year 1 to 1 January of a year, and back: the year and the day in it.\<close>

definition days_before_year :: "int \<Rightarrow> int" where
  "days_before_year y = 365 * (y - 1) + (y - 1) div 4 - (y - 1) div 100 + (y - 1) div 400"

definition year_and_day :: "int \<Rightarrow> int \<times> int" where
  "year_and_day d =
     (let a = d div 146097; d1 = d mod 146097;
          b = min 3 (d1 div 36524); d2 = d1 - 36524 * b;
          c = d2 div 1461; d3 = d2 mod 1461;
          e = min 3 (d3 div 365)
      in (400 * a + 100 * b + 4 * c + e + 1, d3 - 365 * e))"

definition month_lengths :: "int \<Rightarrow> int list" where
  "month_lengths y = [31, if is_leap y then 29 else 28, 31, 30, 31, 30, 31, 31, 30, 31, 30, 31]"

fun month_and_day :: "int list \<Rightarrow> int \<Rightarrow> nat \<times> int" where
  "month_and_day [] d = (0, d)"
| "month_and_day (l # ls) d =
     (if d < l then (0, d) else (let (m, x) = month_and_day ls (d - l) in (m + 1, x)))"

lemma capped_div:
  fixes n q :: int
  assumes "0 < q" "0 \<le> n" "n \<le> 4 * q" and "e = min 3 (n div q)"
  shows "0 \<le> e" "e \<le> 3" "0 \<le> n - q * e" "n - q * e < q \<or> e = 3 \<and> n - q * e \<le> q"
proof -
  have n: "n = q * (n div q) + n mod q" "0 \<le> n mod q" "n mod q < q" "0 \<le> n div q"
    using assms(1,2) by (simp_all add: pos_imp_zdiv_nonneg_iff)
  have "0 \<le> n - q * e \<and> (n - q * e < q \<or> e = 3 \<and> n - q * e \<le> q)"
  proof (cases "n div q \<le> 3")
    case True
    then have "e = n div q" using assms(4) by simp
    then have "n - q * e = n mod q" by (simp add: minus_mult_div_eq_mod)
    with n(2,3) show ?thesis by simp
  next
    case False
    then have "q * 4 \<le> q * (n div q)" using assms(1) by (intro mult_left_mono) auto
    moreover have e: "e = 3" using False assms(4) by simp
    ultimately have "n - q * 3 = q" using n(1,2) assms(3) by linarith
    with e assms(1) show ?thesis by simp
  qed
  then show "0 \<le> n - q * e" "n - q * e < q \<or> e = 3 \<and> n - q * e \<le> q" by blast+
  show "0 \<le> e" "e \<le> 3" using n(4) assms(4) by auto
qed

lemma leap_year:
  fixes a b c :: int
  assumes "y = 400 * a + 100 * b + 4 * c + 4" and "0 \<le> c" "c \<le> 24" and c24: "c = 24 \<longrightarrow> b = 3"
  shows "is_leap y"
proof -
  have "y = 4 * (100 * a + 25 * b + c + 1)" using assms(1) by simp
  then have "y mod 4 = 0" by simp
  moreover have "y mod 100 = 0 \<longrightarrow> y mod 400 = 0"
  proof (cases "c = 24")
    case True
    then have "y = 400 * (a + 1)" using c24 assms(1) by simp
    then show ?thesis by simp
  next
    case False
    have "y = (4 * c + 4) + 100 * (4 * a + b)" using assms(1) by simp
    then have "y mod 100 = (4 * c + 4) mod 100" by (metis mod_mult_self2)
    also have "\<dots> = 4 * c + 4" using assms(2,3) False by (intro mod_pos_pos_trivial) auto
    finally show ?thesis using assms(2) by simp
  qed
  ultimately show ?thesis by (simp add: is_leap_def)
qed

lemma year_and_day_back:
  assumes "year_and_day d = (y, x)"
  shows "days_before_year y + x = d" and "0 \<le> x" and "x < sum_list (month_lengths y)"
proof -
  define a where "a = d div 146097"
  define d1 where "d1 = d mod 146097"
  define b where "b = min 3 (d1 div 36524)"
  define d2 where "d2 = d1 - 36524 * b"
  define c where "c = d2 div 1461"
  define d3 where "d3 = d2 mod 1461"
  define e where "e = min 3 (d3 div 365)"
  have yx: "y = 400 * a + 100 * b + 4 * c + e + 1" "x = d3 - 365 * e"
    using assms unfolding year_and_day_def Let_def a_def [symmetric] d1_def [symmetric] b_def [symmetric] d2_def [symmetric]
      c_def [symmetric] d3_def [symmetric] e_def [symmetric] by simp_all
  have d: "d = 146097 * a + d1" "0 \<le> d1" "d1 < 146097" by (simp_all add: a_def d1_def)
  have b: "0 \<le> b" "b \<le> 3" "0 \<le> d2" "d2 < 36525" "d2 < 36524 \<or> b = 3"
    using capped_div [OF _ d(2) _ b_def] d(3) unfolding d2_def by auto
  have c: "d2 = 1461 * c + d3" "0 \<le> d3" "d3 < 1461" "0 \<le> c" "c \<le> 24"
  proof -
    show "d2 = 1461 * c + d3" "0 \<le> d3" "d3 < 1461" by (simp_all add: c_def d3_def)
    with b(3,4) show "0 \<le> c" "c \<le> 24" by linarith+
  qed
  have e: "0 \<le> e" "e \<le> 3" "0 \<le> x" "x < 366" "x < 365 \<or> e = 3"
    using capped_div [OF _ c(2) _ e_def] c(3) unfolding yx(2) by auto
  have q: "(y - 1) div 4 = 100 * a + 25 * b + c"
    by (rule int_div_pos_eq [where r = e]) (use e(1,2) in \<open>simp_all add: yx(1)\<close>)
  have q100: "(y - 1) div 100 = 4 * a + b"
    by (rule int_div_pos_eq [where r = "4 * c + e"]) (use c(4,5) e(1,2) in \<open>simp_all add: yx(1)\<close>)
  have q400: "(y - 1) div 400 = a"
    by (rule int_div_pos_eq [where r = "100 * b + 4 * c + e"]) (use b(1,2) c(4,5) e(1,2) in \<open>simp_all add: yx(1)\<close>)
  show "days_before_year y + x = d"
    unfolding days_before_year_def q q100 q400 unfolding yx(1) using d(1) c(1) yx(2) by (simp add: d2_def)
  show "0 \<le> x" by (fact e(3))
  have leap: "is_leap y" if "x = 365"
  proof -
    have "e = 3" using e(5) that by simp
    moreover from this have "d3 = 1460" using yx(2) that by simp
    then have "c = 24 \<longrightarrow> b = 3" using c(1) b(5) by auto
    ultimately show ?thesis using c(4,5) by (intro leap_year [of y a b c]) (simp_all add: yx(1))
  qed
  show "x < sum_list (month_lengths y)" using e(4) leap by (cases "x = 365") (auto simp: month_lengths_def)
qed

lemma month_and_day_back:
  "month_and_day ls d = (m, x) \<Longrightarrow> 0 \<le> d \<Longrightarrow> d < sum_list ls \<Longrightarrow>
     m < length ls \<and> 0 \<le> x \<and> x < ls ! m \<and> sum_list (take m ls) + x = d"
proof (induction ls d arbitrary: m x rule: month_and_day.induct)
  case (2 l ls d)
  show ?case
  proof (cases "d < l")
    case False
    obtain m' x' where r: "month_and_day ls (d - l) = (m', x')" by fastforce
    from "2.IH" [OF False r] "2.prems" False show ?thesis by (auto simp: r)
  qed (use "2.prems" in auto)
qed simp

subsection \<open>Digits\<close>

definition pad :: "nat \<Rightarrow> int \<Rightarrow> string" where
  "pad n i = (let ds = show_nat (nat i) in replicate (n - length ds) CHR ''0'' @ ds)"

definition nine_digits :: "int \<Rightarrow> string" where
  "nine_digits ns = rev (dropWhile (\<lambda>c. c = CHR ''0'') (rev (pad 9 ns)))"

lemma read_nat_append: "read_nat (s @ t) = read_nat s * 10 ^ length t + read_nat t"
proof -
  define f where "f = (\<lambda>c acc. acc * 10 + ((of_char c :: nat) - 48))"
  have "fold f t n = n * 10 ^ length t + fold f t 0" for n
  proof (induction t arbitrary: n)
    case (Cons c t)
    have horner: "(n * 10 + v) * p + q = n * (10 * p) + (v * p + q)" for v p q :: nat
      by (simp add: add_mult_distrib)
    have fc: "f c n = n * 10 + f c 0" by (simp add: f_def)
    have "fold f (c # t) n = (n * 10 + f c 0) * 10 ^ length t + fold f t 0"
      using Cons.IH [of "f c n"] by (simp only: fold_simps fc)
    moreover have "fold f (c # t) 0 = f c 0 * 10 ^ length t + fold f t 0"
      using Cons.IH [of "f c 0"] by (simp only: fold_simps)
    ultimately show ?case by (simp only: length_Cons power_Suc horner)
  qed simp
  from this [of "fold f s 0"] show ?thesis by (simp only: read_nat_def f_def fold_append comp_def)
qed

lemma read_nat_zeros: "read_nat (replicate n CHR ''0'') = 0"
  by (induction n) (simp_all add: read_nat_def)

lemma length_show_nat: "n < 10 ^ k \<Longrightarrow> 0 < k \<Longrightarrow> length (show_nat n) \<le> k"
proof (induction n arbitrary: k rule: show_nat.induct)
  case (1 n)
  show ?case
  proof (cases "n < 10")
    case False
    obtain j where k: "k = Suc j" using "1.prems"(2) by (cases k) auto
    have "n div 10 < 10 ^ j" using "1.prems"(1) by (intro less_mult_imp_div_less) (simp add: k mult.commute)
    moreover have "0 < j" using "1.prems"(1) False by (cases j) (simp_all add: k)
    ultimately have "length (show_nat (n div 10)) \<le> j" by (rule "1.IH" [OF False])
    then show ?thesis using False by (subst show_nat.simps) (simp add: k)
  qed (use "1.prems" in \<open>subst show_nat.simps, simp\<close>)
qed

lemma zero_digit: "is_digit CHR ''0''"
  by (simp add: is_digit_def digit_val_def)

lemma pad_facts:
  assumes "0 \<le> i" "i < 10 ^ n" "0 < n"
  shows "length (pad n i) = n" "read_nat (pad n i) = nat i" "list_all is_digit (pad n i)"
proof -
  have "nat i < 10 ^ n" using assms(1,2) by (simp add: nat_less_iff)
  then have "length (show_nat (nat i)) \<le> n" using assms(3) by (rule length_show_nat)
  then show "length (pad n i) = n" by (simp add: pad_def Let_def)
  show "read_nat (pad n i) = nat i" by (simp add: pad_def Let_def read_nat_append read_nat_zeros)
  show "list_all is_digit (pad n i)"
    using show_nat_digits zero_digit by (auto simp: pad_def Let_def list_all_iff)
qed

text \<open>A fraction without its zeros at the end, filled up again.\<close>

lemma strip_zeros: "\<exists>k. s = rev (dropWhile (\<lambda>c. c = CHR ''0'') (rev s)) @ replicate k CHR ''0''"
proof -
  let ?P = "\<lambda>c. c = CHR ''0''"
  have "takeWhile ?P (rev s) = replicate (length (takeWhile ?P (rev s))) CHR ''0''"
    by (rule replicate_length_same [symmetric]) (auto dest: set_takeWhileD)
  then have "rev s = replicate (length (takeWhile ?P (rev s))) CHR ''0'' @ dropWhile ?P (rev s)"
    by (metis takeWhile_dropWhile_id)
  then have "s = rev (dropWhile ?P (rev s)) @ replicate (length (takeWhile ?P (rev s))) CHR ''0''"
    by (metis rev_append rev_replicate rev_rev_ident)
  then show ?thesis ..
qed

lemma nine_digits_facts:
  assumes "0 \<le> ns" "ns < 10 ^ 9"
  shows "length (nine_digits ns) \<le> 9" "int (read_nat (nine_digits ns)) * 10 ^ (9 - length (nine_digits ns)) = ns"
    "list_all is_digit (nine_digits ns)"
proof -
  obtain k where k: "pad 9 ns = nine_digits ns @ replicate k CHR ''0''"
    using strip_zeros [of "pad 9 ns"] unfolding nine_digits_def by blast
  note f = pad_facts [OF assms, simplified]
  have len: "length (nine_digits ns) + k = 9" using f(1) k by (metis length_append length_replicate)
  then show "length (nine_digits ns) \<le> 9" by simp
  have "read_nat (nine_digits ns) * 10 ^ k = nat ns"
    using f(2) unfolding k by (simp add: read_nat_append read_nat_zeros)
  moreover have "9 - length (nine_digits ns) = k" using len by simp
  ultimately show "int (read_nat (nine_digits ns)) * 10 ^ (9 - length (nine_digits ns)) = ns"
    using assms(1) by (metis int_nat_eq of_nat_mult of_nat_numeral of_nat_power)
  show "list_all is_digit (nine_digits ns)" using f(3) unfolding k by simp
qed

subsection \<open>The text of an instant\<close>

text \<open>A year before 0 has a sign, and one after 9999 more than four digits.\<close>

definition rfc3339_nano :: "instant \<Rightarrow> string" where
  "rfc3339_nano t =
     (let sec = unix t; days = sec div 86400; s = sec mod 86400; frac = nine_digits (t mod 1000000000);
          (y, yd) = year_and_day (days + 719162); (m, d) = month_and_day (month_lengths y) yd
      in (if y < 0 then CHR ''-'' # pad 4 (- y) else pad 4 y) @ ''-'' @ pad 2 (int m + 1) @ ''-'' @ pad 2 (d + 1)
         @ ''T'' @ pad 2 (s div 3600) @ '':'' @ pad 2 (s div 60 mod 60) @ '':'' @ pad 2 (s mod 60)
         @ (if frac = [] then [] else CHR ''.'' # frac) @ ''Z'')"

definition year_of :: "instant \<Rightarrow> int" where
  "year_of t = fst (year_and_day (unix t div 86400 + 719162))"

text \<open>\<open>MarshalJSON\<close> refuses years outside of 0 to 9999.\<close>

definition marshal_time :: "instant \<Rightarrow> string option" where
  "marshal_time t = (if 0 \<le> year_of t \<and> year_of t \<le> 9999 then Some (rfc3339_nano t) else None)"

text \<open>The instant that a text of this form stands for.\<close>

definition read_time :: "string \<Rightarrow> instant" where
  "read_time s =
     (let num = (\<lambda>i n. int (read_nat (take n (drop i s))));
          frac = takeWhile is_digit (drop 20 s);
          days = days_before_year (num 0 4)
            + sum_list (take (nat (num 5 2 - 1)) (month_lengths (num 0 4))) + num 8 2 - 1 - 719162
      in (days * 86400 + num 11 2 * 3600 + num 14 2 * 60 + num 17 2) * 1000000000
         + int (read_nat frac) * 10 ^ (9 - length frac))"

lemma month_lengths_small: "i < 12 \<Longrightarrow> month_lengths y ! i \<le> 31"
  by (auto simp: month_lengths_def nth_Cons' numeral_eq_Suc less_Suc_eq)

text \<open>An instant in the years 0 to 9999 can be read back from its text, to the nanosecond.\<close>

theorem read_rfc3339_nano:
  assumes "0 \<le> year_of t" and "year_of t \<le> 9999"
  shows "read_time (rfc3339_nano t) = t"
proof -
  define sec where "sec = unix t"
  define s where "s = sec mod 86400"
  define frac where "frac = nine_digits (t mod 1000000000)"
  obtain y yd where yd: "year_and_day (sec div 86400 + 719162) = (y, yd)" by fastforce
  obtain m d where md: "month_and_day (month_lengths y) yd = (m, d)" by fastforce
  have y: "0 \<le> y" "y < 10 ^ 4" using assms by (simp_all add: year_of_def yd flip: sec_def)
  note yb = year_and_day_back [OF yd]
  note mb = month_and_day_back [OF md yb(2,3)]
  have m: "m < 12" using mb by (simp add: month_lengths_def)
  then have d: "0 \<le> d" "d < 31" using mb month_lengths_small [OF m, of y] by auto
  have s: "0 \<le> s div 3600" "s div 3600 < 100" "0 \<le> s div 60 mod 60" "s div 60 mod 60 < 100"
    "0 \<le> s mod 60" "s mod 60 < 100" by (simp_all add: s_def)
  have "s div 3600 = s div 60 div 60" using zdiv_zmult2_eq [of 60 s 60] by simp
  then have sum: "s div 3600 * 3600 + s div 60 mod 60 * 60 + s mod 60 = s"
    using mult_div_mod_eq [of 60 s] mult_div_mod_eq [of 60 "s div 60"] by linarith
  have fr: "0 \<le> t mod 1000000000" "t mod 1000000000 < 10 ^ 9" by simp_all
  note frac = nine_digits_facts [OF fr, folded frac_def]
  have shape: "rfc3339_nano t = pad 4 y @ ''-'' @ pad 2 (int m + 1) @ ''-'' @ pad 2 (d + 1)
         @ ''T'' @ pad 2 (s div 3600) @ '':'' @ pad 2 (s div 60 mod 60) @ '':'' @ pad 2 (s mod 60)
         @ (if frac = [] then [] else CHR ''.'' # frac) @ ''Z''"
    using y(1) unfolding rfc3339_nano_def Let_def
    by (simp add: yd md flip: sec_def s_def frac_def)
  have lens: "length (pad 4 y) = 4" "length (pad 2 (int m + 1)) = 2" "length (pad 2 (d + 1)) = 2"
    "length (pad 2 (s div 3600)) = 2" "length (pad 2 (s div 60 mod 60)) = 2" "length (pad 2 (s mod 60)) = 2"
    using y m d s by (simp_all add: pad_facts)
  have vals: "read_nat (pad 4 y) = nat y" "read_nat (pad 2 (int m + 1)) = nat (int m + 1)"
    "read_nat (pad 2 (d + 1)) = nat (d + 1)" "read_nat (pad 2 (s div 3600)) = nat (s div 3600)"
    "read_nat (pad 2 (s div 60 mod 60)) = nat (s div 60 mod 60)" "read_nat (pad 2 (s mod 60)) = nat (s mod 60)"
    using y m d s by (simp_all add: pad_facts)
  have "\<not> is_digit CHR ''Z''" "\<not> is_digit CHR ''.''" by (simp_all add: is_digit_def digit_val_def)
  then have tail: "takeWhile is_digit (drop 20 (rfc3339_nano t)) = frac"
    using lens frac(3) unfolding shape by (auto simp: list_all_iff takeWhile_append2)
  have fields: "take 4 (drop 0 (rfc3339_nano t)) = pad 4 y" "take 2 (drop 5 (rfc3339_nano t)) = pad 2 (int m + 1)"
    "take 2 (drop 8 (rfc3339_nano t)) = pad 2 (d + 1)" "take 2 (drop 11 (rfc3339_nano t)) = pad 2 (s div 3600)"
    "take 2 (drop 14 (rfc3339_nano t)) = pad 2 (s div 60 mod 60)" "take 2 (drop 17 (rfc3339_nano t)) = pad 2 (s mod 60)"
    unfolding shape by (simp_all add: lens)
  have "days_before_year y + sum_list (take m (month_lengths y)) + d = sec div 86400 + 719162"
    using yb(1) mb by simp
  then have days: "days_before_year y + sum_list (take m (month_lengths y)) + d - 719162 = sec div 86400" by simp
  have "(sec div 86400 * 86400 + s) * 1000000000 + t mod 1000000000 = t"
    using div_mult_mod_eq [of sec 86400] div_mult_mod_eq [of t 1000000000] by (simp add: s_def) (simp add: sec_def unix_def)
  moreover have "read_time (rfc3339_nano t)
      = (sec div 86400 * 86400 + s div 3600 * 3600 + s div 60 mod 60 * 60 + s mod 60) * 1000000000 + t mod 1000000000"
    using y(1) d(1) s(1,3,5) days
    by (simp only: read_time_def Let_def tail frac(2) fields vals int_nat_eq nat_int_add if_True)
      simp
  ultimately show ?thesis using sum by (simp add: add.assoc)
qed

end
