(* ===== verification/ConfigFile.thy ===== *)
theory ConfigFile
  imports Config
begin

text \<open>
  What an operator writes is what the gateway uses: the JSON texts of the sites file and of the retired
  signing keys, and the configuration that loads from them.
\<close>

subsection \<open>The sites file\<close>

definition thresholds_json :: "thresholds \<Rightarrow> json" where
  "thresholds_json t =
     JObj [(''pow'', JNum (show_int (th_pow t))), (''interactive'', JNum (show_int (th_interactive t))),
           (''block'', JNum (show_int (th_block t)))]"

definition site_members :: "site \<Rightarrow> (string \<times> json) list" where
  "site_members s =
     [(''site_key'', JStr (site_key s)), (''secret'', JStr (site_secret s)), (''hostnames'', JArr (map JStr (hostnames s))),
      (''token_ttl_seconds'', JNum (show_int (token_ttl_seconds s))),
      (''challenge_ttl_seconds'', JNum (show_int (challenge_ttl_seconds s))),
      (''rate_limit_per_minute'', JNum (show_int (rate_limit_per_minute s))),
      (''bind_ip_prefix'', JBool (bind_ip_prefix s)), (''thresholds'', thresholds_json (site_thresholds s))]"

definition sites_text :: "site list \<Rightarrow> string" where
  "sites_text ss = print_json (JArr (map (\<lambda>s. JObj (site_members s)) ss))"

definition site_typed :: "site \<Rightarrow> bool" where
  "site_typed s \<longleftrightarrow>
     list_all utf8_valid (site_key s # site_secret s # hostnames s)
     \<and> list_all int64_range [token_ttl_seconds s, challenge_ttl_seconds s, rate_limit_per_minute s,
          th_pow (site_thresholds s), th_interactive (site_thresholds s), th_block (site_thresholds s)]"

lemma site_names: "distinct (map (\<lambda>f. fold_name (fst f)) site_fields)"
  by (simp add: site_fields_def upper_byte_def)

lemma thresholds_names: "distinct (map (\<lambda>f. fold_name (fst f)) thresholds_fields)"
  by (simp add: thresholds_fields_def upper_byte_def)

lemma printable_strings: "list_all (printable n) (map JStr xs) \<longleftrightarrow> list_all utf8_valid xs"
  by (induction xs) auto

lemma dec_cells_strings: "dec_cells (map JStr xs) cells = Some xs"
  by (induction xs arbitrary: cells) auto

lemma dec_thresholds:
  assumes "int64_range (th_pow t)" "int64_range (th_interactive t)" "int64_range (th_block t)"
  shows "dec_struct False thresholds_fields (thresholds_json t) u = Some t"
proof -
  have "dec_exact thresholds_fields
      [(''pow'', JNum (show_int (th_pow t))), (''interactive'', JNum (show_int (th_interactive t))),
       (''block'', JNum (show_int (th_block t)))] u = Some t"
    using assms by (simp add: thresholds_fields_def field_def)
  from dec_members_exact [OF thresholds_names this] show ?thesis by (simp add: thresholds_json_def)
qed

lemma dec_site:
  assumes "site_typed s"
  shows "map_option fst (dec_struct False site_fields (JObj (site_members s)) (zero_site, [])) = Some s"
proof -
  have "dec_exact site_fields (site_members s) (zero_site, []) = Some (s, hostnames s)"
    using assms
    by (cases "hostnames s = []")
      (simp_all add: site_fields_def site_members_def zero_site_def decoder_defs dec_hostnames_def
        dec_cells_strings dec_thresholds site_typed_def)
  from dec_members_exact [OF site_names this] show ?thesis by simp
qed

lemma decode_sites_text:
  assumes "list_all site_typed ss"
  shows "decode_sites (sites_text ss) = Some ss"
proof -
  have names: "list_all utf8_valid [''site_key'', ''secret'', ''hostnames'', ''token_ttl_seconds'', ''challenge_ttl_seconds'',
      ''rate_limit_per_minute'', ''bind_ip_prefix'', ''thresholds'', ''pow'', ''interactive'', ''block'']"
    unfolding list_all_iff by (intro ballI utf8_valid_ascii) (auto simp: list_all_iff is_ascii_def)
  have "printable (max_nesting - 1) (JObj (site_members s))" if "site_typed s" for s
    using that names
    by (simp add: site_members_def thresholds_json_def site_typed_def printable_strings max_nesting_def)
  then have "printable max_nesting (JArr (map (\<lambda>s. JObj (site_members s)) ss))"
    using assms by (auto simp: list_all_iff max_nesting_def)
  from parse_print_json [OF this]
  have "decode_sites (sites_text ss)
      = those (map (\<lambda>s. map_option fst (dec_struct False site_fields (JObj (site_members s)) (zero_site, []))) ss)"
    by (simp add: decode_sites_def sites_text_def comp_def del: print_json.simps dec_struct.simps)
  also have "\<dots> = those (map Some ss)"
    using assms by (intro arg_cong [where f = those] map_cong refl dec_site) (simp add: list_all_iff)
  also have "\<dots> = Some ss" by (induction ss) simp_all
  finally show ?thesis .
qed

text \<open>C33. A sites file that holds a list of sites as JSON is loaded exactly when the list is not empty and,
  with the defaults filled in, every site is valid and no two have the same key or secret; the
  sites loaded are then those of the file in their order.\<close>

theorem sites_file_loaded:
  assumes "getenv_raw e ''BERRYSHIELD_SITES_FILE'' \<noteq> []"
    and "read_file e (getenv_raw e ''BERRYSHIELD_SITES_FILE'') = Some (sites_text ss)"
    and "list_all site_typed ss"
  shows "load_sites uc e = Inr xs \<longleftrightarrow>
     ss \<noteq> [] \<and> xs = map apply_site_defaults ss \<and> list_all (site_ok uc (env_is_production e)) xs
     \<and> distinct (map site_key xs) \<and> distinct (map site_secret xs)"
  using assms(1,2) decode_sites_text [OF assms(3)]
  by (auto simp: load_sites_def Let_def validated_Inr validate_sites_Inr list_all_iff)

definition filed_site :: site where
  "filed_site = zero_site\<lparr>site_key := ''shop'', site_secret := ''0123456789abcdef'', hostnames := [''shop.example'']\<rparr>"

definition file_env :: os where
  "file_env =
     (shell [(''BERRYSHIELD_SITES_FILE'', ''sites.json'')])
       \<lparr>read_file := (\<lambda>p. if p = ''sites.json'' then Some (sites_text [filed_site]) else None)\<rparr>"

lemma filed_site_ok: "site_ok uc False (apply_site_defaults filed_site)"
proof -
  have "trim_space ''shop'' = ''shop''" by (rule trim_space_graphic) (simp add: graphic_def)
  then show ?thesis
    by (simp add: site_ok_def filed_site_def zero_site_def apply_site_defaults_def or_default_def thresholds_ok_def)
qed

lemma sites_file_loaded_witness: "load_sites (\<lambda>x. x) file_env = Inr [apply_site_defaults filed_site]"
proof (rule sites_file_loaded [where ss = "[filed_site]", THEN iffD2])
  show "getenv_raw file_env ''BERRYSHIELD_SITES_FILE'' \<noteq> []"
    "read_file file_env (getenv_raw file_env ''BERRYSHIELD_SITES_FILE'') = Some (sites_text [filed_site])"
    by (simp_all add: file_env_def shell_def del: print_json.simps)
  show "list_all site_typed [filed_site]"
    by (simp add: filed_site_def zero_site_def site_typed_def ascii_simps int64_range_def)
  have "\<not> env_is_production file_env"
    by (simp add: env_is_production_def file_env_def shell_def ascii_equal_fold_def)
  then show "[filed_site] \<noteq> [] \<and> [apply_site_defaults filed_site] = map apply_site_defaults [filed_site]
    \<and> list_all (site_ok (\<lambda>x. x) (env_is_production file_env)) [apply_site_defaults filed_site]
    \<and> distinct (map site_key [apply_site_defaults filed_site]) \<and> distinct (map site_secret [apply_site_defaults filed_site])"
    using filed_site_ok by simp
qed

subsection \<open>Retired signing keys\<close>

definition keys_text :: "(string \<times> string) list \<Rightarrow> string" where
  "keys_text kvs = print_json (JObj (map (\<lambda>kv. (fst kv, JStr (snd kv))) kvs))"

lemma update_new: "k \<notin> fst ` set m \<Longrightarrow> AList.update k x m = m @ [(k, x)]"
  by (induction m) auto

lemma dec_entries_strings:
  "distinct (map fst m @ map fst kvs) \<Longrightarrow> dec_entries (map (\<lambda>kv. (fst kv, JStr (snd kv))) kvs) m = Some (m @ kvs)"
proof (induction kvs arbitrary: m)
  case (Cons kv kvs)
  then show ?case by (cases kv) (simp add: update_new image_iff)
qed simp

lemma decode_keys_text:
  assumes "distinct (map fst kvs)" and "list_all (\<lambda>kv. utf8_valid (fst kv) \<and> utf8_valid (snd kv)) kvs"
  shows "decode_keys (keys_text kvs) = Some kvs"
proof -
  have "printable max_nesting (JObj (map (\<lambda>kv. (fst kv, JStr (snd kv))) kvs))"
    using assms(2) by (auto simp: list_all_iff max_nesting_def)
  from parse_print_json [OF this] show ?thesis
    using dec_entries_strings [of "[]" kvs] assms(1) by (simp add: decode_keys_def keys_text_def del: print_json.simps)
qed

lemma check_previous_keys_iff:
  "check_previous_keys active kvs = None \<longleftrightarrow>
     (\<forall>kv\<in>set kvs. fst kv \<noteq> active \<and> trim_space (fst kv) \<noteq> [] \<and> 32 \<le> length (snd kv))"
  by (induction active kvs rule: check_previous_keys.induct) auto

text \<open>Retired keys given as a JSON object are accepted exactly when none of them is blank, short or the
  active one, in whatever order the loop visits them, and each is then known under its identifier.\<close>

theorem retired_keys_loaded:
  assumes "distinct (map fst kvs)" and "list_all (\<lambda>kv. utf8_valid (fst kv) \<and> utf8_valid (snd kv)) kvs"
  shows "parse_previous_signing_keys e (keys_text kvs) active = Inr keys \<longleftrightarrow>
     keys = map_of kvs \<and> previous_keys_ok active keys"
proof -
  have "trim_space (keys_text kvs) = keys_text kvs"
    by (rule trim_space_graphic) (auto simp: keys_text_def graphic_def)
  then have "trim_space (keys_text kvs) \<noteq> []" by (simp add: keys_text_def)
  moreover have "previous_keys_ok active (map_of kvs) \<longleftrightarrow> check_previous_keys active (sort_key (\<lambda>kv. key_rank e (fst kv)) kvs) = None"
    using assms(1) by (fastforce simp: check_previous_keys_iff previous_keys_ok_def map_of_eq_Some_iff)
  ultimately show ?thesis
    using decode_keys_text [OF assms] by (auto simp: parse_previous_signing_keys_def split: option.split)
qed

lemma retired_keys_loaded_witness:
  "parse_previous_signing_keys mixed_case_env (keys_text [(''k0'', replicate 32 CHR ''x'')]) ''k1''
     = Inr [''k0'' \<mapsto> replicate 32 CHR ''x'']"
proof (rule retired_keys_loaded [THEN iffD2])
  have "trim_space ''k0'' = ''k0''" by (rule trim_space_graphic) (simp add: graphic_def)
  then show "[''k0'' \<mapsto> replicate 32 CHR ''x''] = map_of [(''k0'', replicate 32 CHR ''x'')]
    \<and> previous_keys_ok ''k1'' [''k0'' \<mapsto> replicate 32 CHR ''x'']"
    by (simp add: previous_keys_ok_def)
qed (simp_all add: ascii_simps list_all_iff)

end
