(* ===== verification/Replies.thy ===== *)
theory Replies
  imports TimeText Challenge ConfigFile "HOL-Library.List_Lexorder" "HOL-Library.Char_ord"
begin

text \<open>
  The bytes of a response: what \<open>writeJSON\<close> of \<open>services/gateway/internal/api/server.go\<close> makes of the
  response structs of \<open>internal/model/types.go\<close>, with the names and the omissions their tags ask for.
\<close>

subsection \<open>Values and members\<close>

text \<open>A value of type \<open>any\<close>; the code stores no floating-point number in one that it sends.\<close>

fun json_of_any :: "any \<Rightarrow> json option" where
  "json_of_any (AInt i) = Some (JNum (show_int i))"
| "json_of_any (AInt64 i) = Some (JNum (show_int i))"
| "json_of_any (AString s) = Some (JStr s)"
| "json_of_any (AFloat x) = None"

text \<open>The keys of a map are written in the order of their bytes.\<close>

definition params_json :: "params \<Rightarrow> json option" where
  "params_json p =
     map_option JObj (those (map (\<lambda>k. map_option (Pair k) (Option.bind (p k) json_of_any)) (sorted_list_of_set (dom p))))"

text \<open>A field whose tag says \<open>omitempty\<close>: left out when it is the empty string, zero or an empty map. A
  struct like \<open>time.Time\<close> is never empty.\<close>

definition omit_if :: "bool \<Rightarrow> string \<Rightarrow> json \<Rightarrow> (string \<times> json) list" where
  "omit_if out k v = (if out then [] else [(k, v)])"

definition omit_string :: "string \<Rightarrow> string \<Rightarrow> (string \<times> json) list" where
  "omit_string k s = omit_if (s = []) k (JStr s)"

definition challenge_reply :: "challenge_response \<Rightarrow> json option" where
  "challenge_reply r =
     (case (marshal_time (resp_expires_at r), params_json (resp_params r)) of
        (Some t, Some ps) \<Rightarrow>
          Some (JObj ([(''decision'', JStr (resp_decision r))] @ omit_string ''challenge_id'' (resp_challenge_id r)
            @ omit_string ''kind'' (resp_kind r) @ [(''expires_at'', JStr t)]
            @ omit_if (dom (resp_params r) = {}) ''params'' ps @ omit_string ''token'' (resp_token r)))
      | _ \<Rightarrow> None)"

definition verify_reply :: "verify_challenge_response \<Rightarrow> json" where
  "verify_reply r =
     JObj ([(''success'', JBool (vr_success r))] @ omit_string ''token'' (vr_token r) @ omit_string ''error'' (vr_error r))"

definition site_verify_reply_members :: "site_verify_response \<Rightarrow> (string \<times> json) list" where
  "site_verify_reply_members r =
     [(''success'', JBool (svr_success r))]
     @ (case svr_challenge_ts r of None \<Rightarrow> [] | Some t \<Rightarrow> [(''challenge_ts'', JStr (rfc3339_nano t))])
     @ omit_string ''hostname'' (svr_hostname r) @ omit_string ''action'' (svr_action r)
     @ omit_if (svr_risk_score r = 0) ''risk_score'' (JNum (show_int (svr_risk_score r)))
     @ omit_string ''risk_bucket'' (svr_risk_bucket r) @ omit_string ''challenge_kind'' (svr_challenge_kind r)
     @ [(''error-codes'', JArr (map JStr (svr_error_codes r)))]"

subsection \<open>The body of a response\<close>

fun reply_json :: "resp_body \<Rightarrow> json option" where
  "reply_json (ErrorBody code) = Some (JObj [(''error'', JStr code)])"
| "reply_json (ChallengeBody r) = challenge_reply r"
| "reply_json (VerifyBody r) = Some (verify_reply r)"
| "reply_json (SiteVerifyBody r) = Some (JObj (site_verify_reply_members r))"
| "reply_json HealthBody = Some (JObj [(''ok'', JBool True), (''service'', JStr ''berryshield-gateway'')])"
| "reply_json (TextBody t) = None"

text \<open>\<open>Encode\<close> ends the text with a newline; where it fails, nothing is written.\<close>

definition reply_text :: "resp_body \<Rightarrow> string" where
  "reply_text b =
     (case b of
        TextBody t \<Rightarrow> t
      | _ \<Rightarrow> (case reply_json b of None \<Rightarrow> [] | Some v \<Rightarrow> print_json v @ [CHR 0x0A]))"

definition response_text :: "writer \<Rightarrow> string" where
  "response_text w = (case w_body w of None \<Rightarrow> [] | Some b \<Rightarrow> reply_text b)"

lemma parse_json_line: "printable max_nesting v \<Longrightarrow> parse_json (print_json v @ [CHR 0x0A]) = Some v"
  using feed_print_json [of max_nesting v "[]" "[CHR 0x0A]"]
  by (simp add: parse_json_def ends_number_def is_space_def)

subsection \<open>Reading the answer of siteverify\<close>

text \<open>A client in Go that decodes the text into the same struct; the text of a time stands for the instant.\<close>

fun dec_instant :: "instant option decoder" where
  "dec_instant JNull x = Some x"
| "dec_instant (JStr s) x = Some (if s = [] then None else Some (read_time s))"
| "dec_instant v x = None"

definition dec_error_codes :: "(site_verify_response \<times> string list) decoder" where
  "dec_error_codes v s =
     map_option (\<lambda>x. ((fst s)\<lparr>svr_error_codes := fst x\<rparr>, snd x)) (dec_strings v (svr_error_codes (fst s), snd s))"

definition site_verify_reply_fields :: "(site_verify_response \<times> string list) fields" where
  "site_verify_reply_fields =
     [(''success'', on_fst (field svr_success_update svr_success dec_bool)),
      (''challenge_ts'', on_fst (field svr_challenge_ts_update svr_challenge_ts dec_instant)),
      (''hostname'', on_fst (field svr_hostname_update svr_hostname dec_string)),
      (''action'', on_fst (field svr_action_update svr_action dec_string)),
      (''risk_score'', on_fst (field svr_risk_score_update svr_risk_score dec_int)),
      (''risk_bucket'', on_fst (field svr_risk_bucket_update svr_risk_bucket dec_string)),
      (''challenge_kind'', on_fst (field svr_challenge_kind_update svr_challenge_kind dec_string)),
      (''error-codes'', dec_error_codes)]"

definition zero_reply :: site_verify_response where
  "zero_reply =
     \<lparr>svr_success = False, svr_challenge_ts = None, svr_hostname = [], svr_action = [], svr_risk_score = 0,
      svr_risk_bucket = [], svr_challenge_kind = [], svr_error_codes = []\<rparr>"

definition read_site_verify_reply :: "string \<Rightarrow> site_verify_response option" where
  "read_site_verify_reply text =
     Option.bind (parse_json text) (\<lambda>v. map_option fst (dec_struct False site_verify_reply_fields v (zero_reply, [])))"

definition reply_typed :: "site_verify_response \<Rightarrow> bool" where
  "reply_typed r \<longleftrightarrow>
     list_all utf8_valid ([svr_hostname r, svr_action r, svr_risk_bucket r, svr_challenge_kind r] @ svr_error_codes r)
     \<and> int64_range (svr_risk_score r)
     \<and> (\<forall>t. svr_challenge_ts r = Some t \<longrightarrow> 0 \<le> year_of t \<and> year_of t \<le> 9999)"

lemma reply_names: "distinct (map (\<lambda>f. fold_name (fst f)) site_verify_reply_fields)"
  by (simp add: site_verify_reply_fields_def upper_byte_def)

lemma pad_ascii: "0 \<le> i \<Longrightarrow> i < 10 ^ n \<Longrightarrow> 0 < n \<Longrightarrow> list_all is_ascii (pad n i)"
  using pad_facts(3) [of i n] by (auto simp: list_all_iff is_digit_def digit_val_def is_ascii_def split: if_splits)

lemma year_bounds:
  assumes "0 \<le> year_of t" and "year_of t \<le> 9999"
  shows "list_all is_ascii (rfc3339_nano t)" and "rfc3339_nano t \<noteq> []"
proof -
  obtain y yd where yd: "year_and_day (unix t div 86400 + 719162) = (y, yd)" by fastforce
  obtain m d where md: "month_and_day (month_lengths y) yd = (m, d)" by fastforce
  note yb = year_and_day_back [OF yd]
  note mb = month_and_day_back [OF md yb(2,3)]
  have m: "m < 12" using mb by (simp add: month_lengths_def)
  then have d: "0 \<le> d" "d < 31" using mb month_lengths_small [OF m, of y] by auto
  have y: "0 \<le> y" "y < 10 ^ 4" using assms by (simp_all add: year_of_def yd)
  have "is_ascii c" if "is_digit c" for c using that by (auto simp: is_digit_def digit_val_def is_ascii_def split: if_splits)
  then have "list_all is_ascii (nine_digits (t mod 1000000000))"
    using nine_digits_facts(3) [of "t mod 1000000000"] by (simp add: list_all_iff)
  moreover have "list_all is_ascii (pad 4 y)" "list_all is_ascii (pad 2 (int m + 1))" "list_all is_ascii (pad 2 (d + 1))"
    using y m d by (simp_all add: pad_ascii)
  moreover have "list_all is_ascii (pad 2 (unix t mod 86400 div 3600))" "list_all is_ascii (pad 2 (unix t mod 86400 div 60 mod 60))"
    "list_all is_ascii (pad 2 (unix t mod 86400 mod 60))"
    by (rule pad_ascii; simp)+
  ultimately show "list_all is_ascii (rfc3339_nano t)"
    using y(1) by (simp add: rfc3339_nano_def Let_def yd md is_ascii_def)
  show "rfc3339_nano t \<noteq> []" by (simp add: rfc3339_nano_def Let_def split: prod.split)
qed

lemma reads_string:
  "svr_hostname x = [] \<Longrightarrow> dec_exact site_verify_reply_fields (omit_string ''hostname'' s) (x, cs) = Some (x\<lparr>svr_hostname := s\<rparr>, cs)"
  "svr_action x = [] \<Longrightarrow> dec_exact site_verify_reply_fields (omit_string ''action'' s) (x, cs) = Some (x\<lparr>svr_action := s\<rparr>, cs)"
  "svr_risk_bucket x = [] \<Longrightarrow> dec_exact site_verify_reply_fields (omit_string ''risk_bucket'' s) (x, cs) = Some (x\<lparr>svr_risk_bucket := s\<rparr>, cs)"
  "svr_challenge_kind x = [] \<Longrightarrow>
     dec_exact site_verify_reply_fields (omit_string ''challenge_kind'' s) (x, cs) = Some (x\<lparr>svr_challenge_kind := s\<rparr>, cs)"
  by (cases x; simp add: omit_string_def omit_if_def site_verify_reply_fields_def decoder_defs)+

lemma reads_score:
  "svr_risk_score x = 0 \<Longrightarrow> int64_range i \<Longrightarrow>
     dec_exact site_verify_reply_fields (omit_if (i = 0) ''risk_score'' (JNum (show_int i))) (x, cs) = Some (x\<lparr>svr_risk_score := i\<rparr>, cs)"
  by (cases x; simp add: omit_if_def site_verify_reply_fields_def decoder_defs)

lemma reads_time:
  "svr_challenge_ts x = None \<Longrightarrow> (\<And>t. ts = Some t \<Longrightarrow> 0 \<le> year_of t \<and> year_of t \<le> 9999) \<Longrightarrow>
     dec_exact site_verify_reply_fields (case ts of None \<Rightarrow> [] | Some t \<Rightarrow> [(''challenge_ts'', JStr (rfc3339_nano t))]) (x, cs)
     = Some (x\<lparr>svr_challenge_ts := ts\<rparr>, cs)"
  using year_bounds(2) read_rfc3339_nano
  by (cases x; cases ts; simp add: site_verify_reply_fields_def decoder_defs)

lemma reads_codes:
  "svr_error_codes x = [] \<Longrightarrow> dec_exact site_verify_reply_fields [(''error-codes'', JArr (map JStr es))] (x, [])
     = Some (x\<lparr>svr_error_codes := es\<rparr>, es)"
  by (cases x; cases "es = []"; simp add: site_verify_reply_fields_def dec_error_codes_def dec_cells_strings)

lemma reads_success:
  "dec_exact site_verify_reply_fields [(''success'', JBool b)] (x, cs) = Some (x\<lparr>svr_success := b\<rparr>, cs)"
  by (simp add: site_verify_reply_fields_def decoder_defs)

text \<open>The answer of \<open>siteverify\<close> reads back: a client that decodes its bytes into the struct they were made
  from gets the same struct, with the instant of the token, whatever fields were left out as empty.\<close>

lemma site_verify_reply_reads_back:
  assumes "reply_typed r"
  shows "read_site_verify_reply (reply_text (SiteVerifyBody r)) = Some r"
proof -
  have names: "list_all utf8_valid [''success'', ''challenge_ts'', ''hostname'', ''action'', ''risk_score'', ''risk_bucket'',
      ''challenge_kind'', ''error-codes'']"
    unfolding list_all_iff by (intro ballI utf8_valid_ascii) (auto simp: list_all_iff is_ascii_def)
  have "utf8_valid (rfc3339_nano t)" if "svr_challenge_ts r = Some t" for t
    using assms that year_bounds(1) [of t] by (intro utf8_valid_ascii) (simp add: reply_typed_def)
  then have "printable max_nesting (JObj (site_verify_reply_members r))"
    using assms names
    by (simp add: reply_typed_def site_verify_reply_members_def omit_string_def omit_if_def printable_strings max_nesting_def
        split: option.split)
  note line = parse_json_line [OF this]
  have "dec_exact site_verify_reply_fields (site_verify_reply_members r) (zero_reply, []) = Some (r, svr_error_codes r)"
    unfolding site_verify_reply_members_def dec_exact_append reads_success bind.simps
    using assms by (simp add: reply_typed_def reads_time reads_string reads_score reads_codes zero_reply_def del: dec_exact.simps)
  from dec_members_exact [OF reply_names this]
  show ?thesis by (simp add: read_site_verify_reply_def reply_text_def line del: print_json.simps)
qed

end
