(* ===== verification/ReplyTexts.thy ===== *)
theory ReplyTexts
  imports Replies Answers
begin

text \<open>
  The bytes with which \<open>issueChallenge\<close> answers: the token of a passive request, and a challenge with its parameters.
\<close>

lemma sorted_keys: "sorted ks \<Longrightarrow> distinct ks \<Longrightarrow> dom p = set ks \<Longrightarrow>
    params_json p = map_option JObj (those (map (\<lambda>k. map_option (Pair k) (Option.bind (p k) json_of_any)) ks))"
  by (simp add: params_json_def sorted_list_of_set.idem_if_sorted_distinct)

lemma pow_params_json:
  "params_json (pow_params seed score) = Some (JObj
     [(''algorithm'', JStr ''sha256''), (''difficulty_bits'', JNum (show_int (if score \<ge> 50 then 17 else 16))),
      (''max_nonce'', JNum (show_int 20000000)), (''seed'', JStr seed)])"
proof -
  have "sorted [''algorithm'', ''difficulty_bits'', ''max_nonce'', ''seed'']" by code_simp
  moreover have "dom (pow_params seed score) = set [''algorithm'', ''difficulty_bits'', ''max_nonce'', ''seed'']"
    by (simp add: pow_params_def insert_commute)
  ultimately have "params_json (pow_params seed score) = map_option JObj (those (map
      (\<lambda>k. map_option (Pair k) (Option.bind (pow_params seed score k) json_of_any))
      [''algorithm'', ''difficulty_bits'', ''max_nonce'', ''seed'']))"
    by (intro sorted_keys) simp_all
  then show ?thesis by (simp add: pow_params_def)
qed

lemma interactive_params_json:
  "params_json (interactive_params seed) = Some (JObj
     [(''max_hold_ms'', JNum (show_int 7000)), (''min_events'', JNum (show_int 2)), (''min_hold_ms'', JNum (show_int 850)),
      (''mode'', JStr ''press_hold''), (''pow_bits'', JNum (show_int 14)), (''pow_max_nonce'', JNum (show_int 10000000)),
      (''pow_seed'', JStr seed)])"
proof -
  have "sorted [''max_hold_ms'', ''min_events'', ''min_hold_ms'', ''mode'', ''pow_bits'', ''pow_max_nonce'', ''pow_seed'']"
    by code_simp
  moreover have "dom (interactive_params seed) =
      set [''max_hold_ms'', ''min_events'', ''min_hold_ms'', ''mode'', ''pow_bits'', ''pow_max_nonce'', ''pow_seed'']"
    by (auto simp: interactive_params_def)
  ultimately have "params_json (interactive_params seed) = map_option JObj (those (map
      (\<lambda>k. map_option (Pair k) (Option.bind (interactive_params seed k) json_of_any))
      [''max_hold_ms'', ''min_events'', ''min_hold_ms'', ''mode'', ''pow_bits'', ''pow_max_nonce'', ''pow_seed'']))"
    by (intro sorted_keys) simp_all
  then show ?thesis by (simp add: interactive_params_def)
qed

lemma zero_time_text: "marshal_time zero_time = Some ''0001-01-01T00:00:00Z''"
  by code_simp

text \<open>The challenge as the client sees it, with the parameters in the order of their names.\<close>

definition sent_params :: "challenge \<Rightarrow> string \<Rightarrow> (string \<times> json) list" where
  "sent_params c seed =
     (if ch_kind c = ''pow''
      then [(''algorithm'', JStr ''sha256''), (''difficulty_bits'', JNum (show_int (if ch_risk_score c \<ge> 50 then 17 else 16))),
            (''max_nonce'', JNum (show_int 20000000)), (''seed'', JStr seed)]
      else [(''max_hold_ms'', JNum (show_int 7000)), (''min_events'', JNum (show_int 2)), (''min_hold_ms'', JNum (show_int 850)),
            (''mode'', JStr ''press_hold''), (''pow_bits'', JNum (show_int 14)), (''pow_max_nonce'', JNum (show_int 10000000)),
            (''pow_seed'', JStr seed)])"

lemma ascii_literals:
  "list_all utf8_valid [''decision'', ''challenge_id'', ''kind'', ''expires_at'', ''params'', ''token'', ''allow'', ''pow'',
     ''interactive'', ''0001-01-01T00:00:00Z'']"
  "list_all utf8_valid [''algorithm'', ''sha256'', ''difficulty_bits'', ''max_nonce'', ''seed'', ''max_hold_ms'', ''min_events'',
     ''min_hold_ms'', ''mode'', ''press_hold'', ''pow_bits'', ''pow_max_nonce'', ''pow_seed'']"
  unfolding list_all_iff by (intro ballI utf8_valid_ascii; auto simp: list_all_iff is_ascii_def)+

text \<open>C39. What a browser reads in the answer to its challenge request: with leave to go on, the token and, since a
  struct is never left out as empty, an expiry in year 1; with a challenge, its identifier, kind, expiry
  and parameters, among them the seed of the work to do.\<close>

theorem challenge_reply_read:
  assumes "utf8_valid tok" and "tok \<noteq> []"
    and "new_challenge r1 r2 t kind sk ac h sid b score tags ttl = Inr c" and "read_random 24 r2 = Some seedb"
    and "0 \<le> year_of (t + ttl)" and "year_of (t + ttl) \<le> 9999"
  shows "parse_json (reply_text (ChallengeBody (passive_answer tok))) = Some (JObj
      [(''decision'', JStr ''allow''), (''expires_at'', JStr ''0001-01-01T00:00:00Z''), (''token'', JStr tok)])
    \<and> parse_json (reply_text (ChallengeBody (challenge_answer c))) = Some (JObj
      [(''decision'', JStr kind), (''challenge_id'', JStr (ch_id c)), (''kind'', JStr kind),
       (''expires_at'', JStr (rfc3339_nano (t + ttl))), (''params'', JObj (sent_params c (b64_encode seedb)))])"
proof
  let ?v = "JObj [(''decision'', JStr ''allow''), (''expires_at'', JStr ''0001-01-01T00:00:00Z''), (''token'', JStr tok)]"
  have "challenge_reply (passive_answer tok) = Some ?v"
    using assms(2) by (simp add: challenge_reply_def passive_answer_def empty_challenge_response_def zero_time_text params_json_def
        omit_string_def omit_if_def)
  moreover have "printable max_nesting ?v" using assms(1) ascii_literals by (simp add: max_nesting_def)
  ultimately show "parse_json (reply_text (ChallengeBody (passive_answer tok))) = Some ?v"
    by (simp add: reply_text_def parse_json_line del: print_json.simps)
next
  obtain idb where c: "ch_id c = ''bsc_'' @ b64_encode idb" "ch_kind c = kind" "kind = ''pow'' \<or> kind = ''interactive''"
      "ch_expires_at c = t + ttl" "ch_risk_score c = score"
      "ch_params c = (if kind = ''pow'' then pow_params (b64_encode seedb) score else interactive_params (b64_encode seedb))"
    using assms(3,4) by (auto elim!: new_challenge_Inr)
  let ?v = "JObj [(''decision'', JStr kind), (''challenge_id'', JStr (ch_id c)), (''kind'', JStr kind),
       (''expires_at'', JStr (rfc3339_nano (t + ttl))), (''params'', JObj (sent_params c (b64_encode seedb)))]"
  have "params_json (ch_params c) = Some (JObj (sent_params c (b64_encode seedb)))"
    using c(3) by (auto simp: c(2,5,6) sent_params_def pow_params_json interactive_params_json)
  moreover have "dom (ch_params c) \<noteq> {}" using c(3) by (auto simp: c(6) pow_params_def interactive_params_def)
  moreover have "marshal_time (t + ttl) = Some (rfc3339_nano (t + ttl))" using assms(5,6) by (simp add: marshal_time_def)
  ultimately have "challenge_reply (challenge_answer c) = Some ?v"
    using c(3) by (auto simp: challenge_reply_def challenge_answer_def c(1,2,4) omit_string_def omit_if_def)
  moreover have "utf8_valid (b64_encode x)" for x by (rule utf8_valid_ascii [OF b64_encode_ascii])
  moreover have "utf8_valid (ch_id c)"
    unfolding c(1) by (rule utf8_valid_ascii) (simp add: b64_encode_ascii is_ascii_def)
  ultimately have reply: "challenge_reply (challenge_answer c) = Some ?v" and "printable max_nesting ?v"
    using year_bounds(1) [OF assms(5,6)] ascii_literals c(3)
    by (auto simp: max_nesting_def sent_params_def c(2) utf8_valid_ascii)
  then show "parse_json (reply_text (ChallengeBody (challenge_answer c))) = Some ?v"
    by (simp add: reply_text_def parse_json_line del: print_json.simps)
qed

lemma challenge_reply_read_witness:
  "parse_json (reply_text (ChallengeBody (passive_answer ''x.y.z''))) = Some (JObj
     [(''decision'', JStr ''allow''), (''expires_at'', JStr ''0001-01-01T00:00:00Z''), (''token'', JStr ''x.y.z'')])"
proof -
  have u: "utf8_valid ''x.y.z''" by (simp add: ascii_simps)
  obtain c where c: "new_challenge (Some (\<lambda>i. 7)) (Some (\<lambda>i. 9)) 0 ''pow'' ''shop'' ''login'' ''shop.example'' ''s1'' [] 50 [] minute = Inr c"
    by (simp add: new_challenge_def new_id_def new_seed_def read_random_def Let_def)
  have r: "read_random 24 (Some (\<lambda>i. 9)) = Some (map (\<lambda>i. 9) [0..<24])" by (simp add: read_random_def)
  have y: "0 \<le> year_of (0 + minute)" "year_of (0 + minute) \<le> 9999" by code_simp+
  show ?thesis by (rule challenge_reply_read [OF u _ c r y, THEN conjunct1]) simp
qed

end
