(* ===== verification/Observation.thy ===== *)
theory Observation
  imports Answers
begin

text \<open>
  What can be seen from outside along a run of requests: the counters of \<open>metrics.go\<close> against the
  answers given, and the response headers.
\<close>

subsection \<open>Metrics\<close>

fun is_post :: "call \<Rightarrow> writer \<Rightarrow> bool" where
  "is_post (IssueChallenge r b) w = True"
| "is_post (VerifyChallenge r b) w = True"
| "is_post (SiteVerify r b) w = True"
| "is_post _ w = False"

fun refused_site_verify :: "call \<Rightarrow> writer \<Rightarrow> bool" where
  "refused_site_verify (SiteVerify r b) w = (\<not> accepted w)"
| "refused_site_verify _ w = False"

definition over_limit :: "call \<Rightarrow> writer \<Rightarrow> bool" where
  "over_limit k w \<longleftrightarrow> w_body w = Some (ErrorBody ''rate-limited'')"

definition told_blocked :: "call \<Rightarrow> writer \<Rightarrow> bool" where
  "told_blocked k w \<longleftrightarrow>
     w_body w = Some (ChallengeBody (empty_challenge_response\<lparr>resp_decision := ''block''\<rparr>))"

text \<open>The number of requests of a run whose answer has a property.\<close>

fun tally :: "(call \<Rightarrow> writer \<Rightarrow> bool) \<Rightarrow> (world \<times> call) list \<Rightarrow> server \<Rightarrow> nat" where
  "tally P [] s = 0"
| "tally P ((wd, k) # ks) s =
     (if P k (snd (serve wd k s)) then 1 else 0) + tally P ks (fst (serve wd k s))"

definition observed :: "(world \<times> call) list \<Rightarrow> server \<Rightarrow> 64 word list" where
  "observed ks s =
     [of_nat (tally is_post ks s), of_nat (tally (\<lambda>k. accepted) ks s),
      of_nat (tally refused_site_verify ks s), of_nat (tally over_limit ks s),
      of_nat (tally told_blocked ks s)]"

definition reported :: "metrics \<Rightarrow> 64 word list" where
  "reported m = [m_requests m, m_verify_success m, m_verify_failure m, m_rate_limited m, m_blocked m]"

definition flags :: "call \<Rightarrow> writer \<Rightarrow> 64 word list" where
  "flags k w = map of_bool [is_post k w, accepted w, refused_site_verify k w, over_limit k w, told_blocked k w]"

lemma reported_incs [simp]:
  "reported (inc_requests m) = map2 (+) (reported m) [1, 0, 0, 0, 0]"
  "reported (inc_success m) = map2 (+) (reported m) [0, 1, 0, 0, 0]"
  "reported (inc_failure m) = map2 (+) (reported m) [0, 0, 1, 0, 0]"
  "reported (inc_rate_limited m) = map2 (+) (reported m) [0, 0, 0, 1, 0]"
  "reported (inc_blocked m) = map2 (+) (reported m) [0, 0, 0, 0, 1]"
  "reported (inc_challenges m) = reported m" "reported (inc_allowed m) = reported m"
  "reported (inc_pow m) = reported m" "reported (inc_interactive m) = reported m"
  "reported (inc_replays m) = reported m"
  by (simp_all add: reported_def inc_defs)

lemma stats_store_update [simp]: "stats (s\<lparr>store := st\<rparr>) = stats s"
  by simp

lemma site_verify_reported:
  "reported (stats (fst (site_verify wd r b s w)))
     = map2 (+) (reported (stats s)) [1, of_bool (accepted (snd (site_verify wd r b s w))),
         of_bool (\<not> accepted (snd (site_verify wd r b s w))), 0, 0]"
proof (cases "\<exists>c. presents wd r b s c")
  case True
  then obtain c where c: "presents wd r b s c" ..
  show ?thesis
    unfolding site_verify_presented [OF c] Let_def
    by (simp split: prod.split) (simp add: refuse_site_verify_def accepted_def failed_site_verify_def reported_def inc_defs)
next
  case False
  then obtain st code where "site_verify wd r b s w = refuse_site_verify st code (count inc_requests s) w"
    using site_verify_not_presented [of wd r b s w] by blast
  then show ?thesis by (simp add: refuse_site_verify_def accepted_def failed_site_verify_def reported_def inc_defs)
qed

lemma redeem_challenge_stats: "stats (fst (redeem_challenge wd site c cid pf s w)) = stats s"
  by (simp add: redeem_challenge_def Let_def split: sum.split prod.split)

lemma verify_challenge_stats: "stats (fst (verify_challenge wd r b s w)) = inc_requests (stats s)"
  by (simp add: verify_challenge_def Let_def redeem_challenge_stats split: sum.split prod.split option.split)

definition plain_answer :: "resp_body option \<Rightarrow> bool" where
  "plain_answer b \<longleftrightarrow> (case b of
      Some (ErrorBody e) \<Rightarrow> e \<noteq> ''rate-limited''
    | Some (VerifyBody v) \<Rightarrow> True
    | _ \<Rightarrow> False)"

lemma plain_answer_simps [simp]:
  "plain_answer (Some (ErrorBody e)) \<longleftrightarrow> e \<noteq> ''rate-limited''" "plain_answer (Some (VerifyBody v))"
  by (simp_all add: plain_answer_def)

lemma decode_json_plain: "decode_json b w = Inl w' \<Longrightarrow> plain_answer (w_body w')"
  by (auto simp: decode_json_def split: decoded.splits if_splits)

lemma redeem_challenge_plain: "plain_answer (w_body (snd (redeem_challenge wd site c cid pf s w)))"
  by (simp add: redeem_challenge_def Let_def split: sum.split prod.split)

lemma verify_challenge_plain: "plain_answer (w_body (snd (verify_challenge wd r b s w)))"
  by (simp add: verify_challenge_def Let_def redeem_challenge_plain decode_json_plain
      split: sum.split prod.split option.split)

lemma issue_challenge_refused_plain:
  assumes "\<nexists>req site. admissible wd r b s req site"
  shows "fst (issue_challenge wd r b s w) = count inc_requests s \<and> plain_answer (w_body (snd (issue_challenge wd r b s w)))"
  using issue_challenge_refused [OF assms, of w] by (auto simp: refusals_def)

lemma answer_decision_reported:
  "reported (stats (fst (answer_decision wd req h site ip d s w)))
     = map2 (+) (reported (stats s)) [0, 0, 0, 0, of_bool (told_blocked k (snd (answer_decision wd req h site ip d s w)))]
   \<and> \<not> accepted (snd (answer_decision wd req h site ip d s w))
   \<and> \<not> over_limit k (snd (answer_decision wd req h site ip d s w))"
proof (cases "rd_decision d = ''block''")
  case True
  then show ?thesis
    by (simp add: answer_decision_def told_blocked_def accepted_def over_limit_def reported_def inc_defs)
next
  case False
  then show ?thesis
    by (auto simp: answer_decision_def Let_def told_blocked_def accepted_def over_limit_def
        empty_challenge_response_def split: sum.split dest!: new_challenge_kind)
      (simp_all add: reported_def inc_defs)
qed

lemma plain_answer_flags:
  "plain_answer (w_body w) \<Longrightarrow> \<not> accepted w \<and> \<not> over_limit k w \<and> \<not> told_blocked k w"
  by (auto simp: plain_answer_def accepted_def over_limit_def told_blocked_def split: option.splits resp_body.splits)

lemma issue_challenge_reported:
  "reported (stats (fst (issue_challenge wd r b s w)))
     = map2 (+) (reported (stats s))
         [1, 0, 0, of_bool (over_limit k (snd (issue_challenge wd r b s w))),
          of_bool (told_blocked k (snd (issue_challenge wd r b s w)))]
   \<and> \<not> accepted (snd (issue_challenge wd r b s w))"
proof (cases "\<exists>req site. admissible wd r b s req site")
  case False
  from issue_challenge_refused_plain [OF this, of w] show ?thesis
    by (auto dest!: plain_answer_flags [where k = k])
next
  case True
  then obtain req site where a: "admissible wd r b s req site" by blast
  let ?s = "count inc_challenges ((count inc_requests s)\<lparr>store := rated_store wd r req site s\<rparr>)"
  show ?thesis
  proof (cases "fst (rate_check wd r req site s)")
    case True
    show ?thesis
      unfolding issue_challenge_admissible [OF a] Let_def
      using answer_decision_reported [of wd req "normalize_hostname (lower wd) (cr_hostname req)" site
          "network_of s r" "verdict wd r req site s" ?s "set_cors r w" k] True
      by (simp add: reported_def inc_defs)
  next
    case False
    then show ?thesis
      unfolding issue_challenge_admissible [OF a] Let_def
      by (simp add: over_limit_def told_blocked_def accepted_def reported_def inc_defs)
  qed
qed

lemma serve_reported:
  "reported (stats (fst (serve wd k s))) = map2 (+) (reported (stats s)) (flags k (snd (serve wd k s)))"
proof (cases k)
  case (IssueChallenge r b)
  show ?thesis
    unfolding IssueChallenge serve_issue_challenge
    using issue_challenge_reported [of wd r b s "security ''/v1/challenge'' fresh_writer" "IssueChallenge r b"]
    by (simp add: flags_def)
next
  case (VerifyChallenge r b)
  show ?thesis
    unfolding VerifyChallenge serve_verify_challenge
    using plain_answer_flags [OF verify_challenge_plain] by (simp add: flags_def verify_challenge_stats)
next
  case (SiteVerify r b)
  let ?w = "security ''/v1/siteverify'' fresh_writer"
  have "\<not> over_limit k (snd (site_verify wd r b s ?w))" "\<not> told_blocked k (snd (site_verify wd r b s ?w))"
    by (simp_all add: over_limit_def told_blocked_def site_verify_def refuse_site_verify_def Let_def
        split: option.split sum.split prod.split)
  then show ?thesis
    using site_verify_reported [of wd r b s ?w]
    unfolding SiteVerify serve_site_verify by (simp add: flags_def)
qed (simp_all add: serve_def handle_call_def flags_def accepted_def over_limit_def told_blocked_def health_def
      metrics_handler_def options_def set_cors_def write_status_def reported_def)

lemma map2_plus_assoc:
  "map2 (+) (map2 (+) xs ys) zs = map2 (+) xs (map2 (+) ys (zs :: 'a :: semigroup_add list))"
  by (induction xs ys arbitrary: zs rule: list_induct2') (auto simp: zip_Cons1 add.assoc split: list.split)

subsection \<open>Response headers\<close>

definition acao :: string where
  "acao = ''Access-Control-Allow-Origin''"

lemma header_set [simp]: "w_header (set_header k v w) = (w_header w)(k \<mapsto> v)"
  by (simp add: set_header_def)

lemma header_write_status [simp]: "w_header (write_status st w) = w_header w"
  by (simp add: write_status_def)

lemma header_write_json [simp]:
  "w_header (write_json st b w) = (w_header w)(''Content-Type'' \<mapsto> ''application/json; charset=utf-8'')"
  by (simp add: write_json_def write_status_def)

lemma header_write_error [simp]:
  "w_header (write_error st e w) = (w_header w)(''Content-Type'' \<mapsto> ''application/json; charset=utf-8'')"
  by (simp add: write_error_def)

lemma header_security [simp]: "w_header (security path fresh_writer) acao = None"
  by (simp add: security_def Let_def acao_def)

lemma acao_content_type [simp]: "acao \<noteq> ''Content-Type''"
  by (simp add: acao_def)

lemma header_cors: "w_header (set_cors r w) acao = (if origin_of r = [] then w_header w acao else Some (origin_of r))"
  by (simp add: set_cors_def acao_def)

lemma answer_decision_header [simp]: "w_header (snd (answer_decision wd req h site ip d s w)) acao = w_header w acao"
  by (simp add: answer_decision_def Let_def split: sum.split prod.split)

lemma decode_json_header: "decode_json b w = Inl w' \<Longrightarrow> w_header w' acao = w_header w acao"
  by (auto simp: decode_json_def split: decoded.splits if_splits)

lemma issue_challenge_header:
  "w_header (snd (issue_challenge wd r b s w)) acao =
     (if \<exists>req site. admissible wd r b s req site then w_header (set_cors r w) acao else w_header w acao)"
proof (cases "\<exists>req site. admissible wd r b s req site")
  case True
  then obtain req site where "admissible wd r b s req site" by blast
  from issue_challenge_admissible [OF this, of w] True show ?thesis by (simp add: Let_def)
next
  case False
  with issue_challenge_refused [OF False, of w] show ?thesis by auto
qed

lemma site_verify_header: "w_header (snd (site_verify wd r b s w)) acao = w_header w acao"
  by (simp add: site_verify_def refuse_site_verify_def Let_def split: option.split sum.split prod.split)

definition reachable_by_origin :: "world \<Rightarrow> http_request \<Rightarrow> server \<Rightarrow> challenge \<Rightarrow> site \<Rightarrow> bool" where
  "reachable_by_origin wd r s c site \<longleftrightarrow>
     path_id r \<noteq> [] \<and> length (path_id r) \<le> 96
     \<and> challenges (store s) (path_id r) = Some c \<and> clock wd 0 \<le> ch_expires_at c
     \<and> rt_sites (cfg s) (ch_site_key c) = Some site
     \<and> origin_allowed_for_hostname wd r site (ch_hostname c)"

lemma redeem_challenge_header: "w_header (snd (redeem_challenge wd site c cid pf s w)) acao = w_header w acao"
  by (simp add: redeem_challenge_def Let_def split: sum.split prod.split)

lemma verify_challenge_header:
  "w_header (snd (verify_challenge wd r b s w)) acao =
     (if \<exists>c site. reachable_by_origin wd r s c site then w_header (set_cors r w) acao else w_header w acao)"
proof -
  obtain found st where g: "get_challenge (clock wd 0) (path_id r) (store s) = (found, st)" by fastforce
  have found: "found = Some c \<longleftrightarrow> challenges (store s) (path_id r) = Some c \<and> clock wd 0 \<le> ch_expires_at c" for c
    using get_challenge_fields(1) [of "clock wd 0" "path_id r" "store s" c] by (simp add: g)
  show ?thesis
  proof (cases "\<exists>c site. reachable_by_origin wd r s c site")
    case True
    then obtain c site where c: "reachable_by_origin wd r s c site" by blast
    then have "found = Some c" by (simp add: found reachable_by_origin_def)
    with c True show ?thesis
      by (simp add: reachable_by_origin_def verify_challenge_def g registry_get_def Let_def
          redeem_challenge_header decode_json_header split: sum.split)
  next
    case False
    have "w_header (snd (verify_challenge wd r b s w)) acao = w_header w acao"
    proof (cases "path_id r = [] \<or> length (path_id r) > 96")
      case True
      then show ?thesis by (auto simp: verify_challenge_def Let_def)
    next
      case cid: False
      show ?thesis
      proof (cases found)
        case None
        with cid show ?thesis by (simp add: verify_challenge_def g Let_def)
      next
        case (Some c)
        then have c: "challenges (store s) (path_id r) = Some c" "clock wd 0 \<le> ch_expires_at c"
          by (simp_all add: found)
        have "\<not> origin_allowed_for_hostname wd r site (ch_hostname c)" if "rt_sites (cfg s) (ch_site_key c) = Some site" for site
          using False cid c that by (auto simp: reachable_by_origin_def)
        with cid Some show ?thesis by (simp add: verify_challenge_def g Let_def registry_get_def split: option.split)
      qed
    qed
    with False show ?thesis by simp
  qed
qed

end
