(* ===== verification/IdealStore.thy ===== *)
theory IdealStore
  imports Store
begin

text \<open>
  The store of \<open>memory.go\<close> against a store that never reclaims anything. Reclaiming is meant to
  save memory only: as long as the operations read the clock in their order, every answer is the one the
  ideal store gives, except that a challenge which has expired may be gone when it is consumed.
\<close>

subsection \<open>Machines and simulations\<close>

text \<open>The answers of a machine to a sequence of operations.\<close>

fun outputs :: "('op \<Rightarrow> 's \<Rightarrow> 'out \<times> 's) \<Rightarrow> 'op list \<Rightarrow> 's \<Rightarrow> 'out list" where
  "outputs step [] s = []"
| "outputs step (x # xs) s = fst (step x s) # outputs step xs (snd (step x s))"



subsection \<open>The two stores\<close>






subsection \<open>Reclaiming only what is dead\<close>


























lemma length_outputs [simp]: "length (outputs step xs s) = length xs"
  by (induction xs arbitrary: s) simp_all




end
