(* ===== verification/Locking.thy ===== *)
theory Locking
  imports IdealStore
begin

text \<open>
  The mutex of \<open>memory.go\<close>. Every method of the store runs as a sequence of small actions on the shared maps
  and on its own local variables, between \<open>Lock\<close> and the deferred \<open>Unlock\<close>; the actions of any number of calls
  interleave. Because of the mutex the calls take effect one after the other, as the
  functions of \<open>Store\<close> do, and no call waits for ever.
\<close>

subsection \<open>Calls under a mutex\<close>

datatype ('m, 'f) action = Lock | Unlock | Do "'m \<times> 'f \<Rightarrow> 'm \<times> 'f"

text \<open>\<open>m.mu.Lock()\<close> at the start of the method, \<open>defer m.mu.Unlock()\<close> at its end.\<close>

definition locked :: "('m \<times> 'f \<Rightarrow> 'm \<times> 'f) list \<Rightarrow> ('m, 'f) action list" where
  "locked fs = Lock # map Do fs @ [Unlock]"

text \<open>The holder of the mutex, the shared memory, and for each call its local variables and what it still has to do.\<close>

record ('m, 'f) shared =
  mutex :: "nat option"
  mem :: 'm
  locals :: "nat \<Rightarrow> 'f"
  rest :: "nat \<Rightarrow> ('m, 'f) action list"

inductive act :: "('m, 'f) shared \<Rightarrow> nat \<Rightarrow> ('m, 'f) shared \<Rightarrow> bool" where
  acquire: "rest s i = Lock # c \<Longrightarrow> mutex s = None \<Longrightarrow>
     act s i (s\<lparr>mutex := Some i, rest := (rest s)(i := c)\<rparr>)"
| release: "rest s i = Unlock # c \<Longrightarrow> mutex s \<noteq> None \<Longrightarrow>
     act s i (s\<lparr>mutex := None, rest := (rest s)(i := c)\<rparr>)"
| compute: "rest s i = Do f # c \<Longrightarrow> f (mem s, locals s i) = (m, v) \<Longrightarrow>
     act s i (s\<lparr>mem := m, locals := (locals s)(i := v), rest := (rest s)(i := c)\<rparr>)"

inductive_cases act_cases: "act s i t"

text \<open>A schedule: which call acts next.\<close>

inductive scheduled :: "('m, 'f) shared \<Rightarrow> nat list \<Rightarrow> ('m, 'f) shared \<Rightarrow> bool" where
  idle: "scheduled s [] s"
| turn: "scheduled s is t \<Longrightarrow> act t i u \<Longrightarrow> scheduled s (is @ [i]) u"

lemma scheduled_trans: "scheduled t js u \<Longrightarrow> scheduled s is t \<Longrightarrow> scheduled s (is @ js) u"
proof (induction rule: scheduled.induct)
  case (turn t js u j v)
  from scheduled.turn [OF turn.IH [OF turn.prems] turn.hyps(2)] show ?case by simp
qed simp

text \<open>Every action of a call is one less to do.\<close>

lemma act_rest: "act s i t \<Longrightarrow> rest s i = hd (rest s i) # rest t i \<and> (\<forall>j. j \<noteq> i \<longrightarrow> rest t j = rest s j)"
  by (cases rule: act.cases) auto

lemma scheduled_rest: "scheduled s ks t \<Longrightarrow> length (rest s i) = count_list ks i + length (rest t i)"
proof (induction rule: scheduled.induct)
  case (turn s ks t j u)
  from act_rest [OF turn.hyps(2)] have "length (rest t i) = (if i = j then 1 else 0) + length (rest u i)"
    by (metis One_nat_def add_0 length_Cons plus_1_eq_Suc)
  with turn.IH show ?case by (auto split: if_splits)
qed simp

definition at_start :: "('op \<Rightarrow> ('m \<times> 'f \<Rightarrow> 'm \<times> 'f) list) \<Rightarrow> 'f \<Rightarrow> (nat \<Rightarrow> 'op) \<Rightarrow> 'm \<Rightarrow> ('m, 'f) shared" where
  "at_start body v ops m = \<lparr>mutex = None, mem = m, locals = (\<lambda>i. v), rest = (\<lambda>i. locked (body (ops i)))\<rparr>"

text \<open>The actions of a body in a row.\<close>

fun run_body :: "('s \<Rightarrow> 's) list \<Rightarrow> 's \<Rightarrow> 's" where
  "run_body [] s = s"
| "run_body (f # fs) s = run_body fs (f s)"

lemma run_body_append: "run_body (fs @ gs) s = run_body gs (run_body fs s)"
  by (induction fs arbitrary: s) simp_all

text \<open>The memory after calls that ran one after the other.\<close>

fun memory_after :: "('op \<Rightarrow> 's \<Rightarrow> 'out \<times> 's) \<Rightarrow> 'op list \<Rightarrow> 's \<Rightarrow> 's" where
  "memory_after step [] s = s"
| "memory_after step (x # xs) s = memory_after step xs (snd (step x s))"

lemma memory_after_snoc: "memory_after step (xs @ [x]) s = snd (step x (memory_after step xs s))"
  by (induction xs arbitrary: s) simp_all

lemma outputs_snoc: "outputs step (xs @ [x]) s = outputs step xs s @ [fst (step x (memory_after step xs s))]"
  by (induction xs arbitrary: s) simp_all

subsection \<open>One call after the other\<close>

text \<open>Methods whose bodies, run without interruption, do what an atomic operation does.\<close>

locale guarded_object =
  fixes body :: "'op \<Rightarrow> ('m \<times> 'f \<Rightarrow> 'm \<times> 'f) list" and fresh :: 'f and answer :: "'f \<Rightarrow> 'out"
    and atomic :: "'op \<Rightarrow> 'm \<Rightarrow> 'out \<times> 'm"
  assumes body_atomic: "run_body (body x) (m, fresh) = (m', v) \<Longrightarrow> atomic x m = (answer v, m')"
begin

text \<open>\<open>is\<close> are the calls that have ended, in the order in which they took the mutex.\<close>

definition serial :: "(nat \<Rightarrow> 'op) \<Rightarrow> 'm \<Rightarrow> nat list \<Rightarrow> ('m, 'f) shared \<Rightarrow> bool" where
  "serial ops m is s \<longleftrightarrow>
     distinct is \<and> (\<forall>i\<in>set is. rest s i = [] \<and> mutex s \<noteq> Some i)
     \<and> map (\<lambda>i. answer (locals s i)) is = outputs atomic (map ops is) m
     \<and> (\<forall>i. i \<notin> set is \<longrightarrow> mutex s \<noteq> Some i \<longrightarrow> rest s i = locked (body (ops i)) \<and> locals s i = fresh)
     \<and> (case mutex s of
          None \<Rightarrow> mem s = memory_after atomic (map ops is) m
        | Some i \<Rightarrow> \<exists>fs. rest s i = map Do fs @ [Unlock] \<and> length fs \<le> length (body (ops i))
            \<and> run_body fs (mem s, locals s i) = run_body (body (ops i)) (memory_after atomic (map ops is) m, fresh))"

lemma serial_start: "serial ops m [] (at_start body fresh ops m)"
  by (simp add: serial_def at_start_def)

lemma serial_waiting: "serial ops m is s \<Longrightarrow> rest s i = Lock # c \<Longrightarrow> i \<notin> set is \<and> mutex s \<noteq> Some i \<and> c = map Do (body (ops i)) @ [Unlock]"
proof -
  assume s: "serial ops m is s" and c: "rest s i = Lock # c"
  have "rest s i \<noteq> map Do fs @ [Unlock]" for fs using c by (cases fs) auto
  with s have "mutex s \<noteq> Some i" by (auto simp: serial_def)
  moreover have "i \<notin> set is" using s c by (auto simp: serial_def)
  ultimately show ?thesis using s c by (auto simp: serial_def locked_def)
qed

lemma serial_inside:
  assumes "serial ops m is s" and "rest s i = a # c" and "a \<noteq> Lock"
  shows "mutex s = Some i \<and> i \<notin> set is"
proof -
  have "i \<notin> set is" using assms(1,2) by (auto simp: serial_def)
  moreover have "rest s i \<noteq> locked (body (ops i))" using assms(2,3) by (simp add: locked_def)
  ultimately show ?thesis using assms(1) by (auto simp: serial_def)
qed

lemma serial_act:
  assumes "act s i t" and "serial ops m is s"
  shows "\<exists>js. serial ops m js t"
proof -
  from assms(1) consider
    (acquire) c where "rest s i = Lock # c" "mutex s = None" "t = s\<lparr>mutex := Some i, rest := (rest s)(i := c)\<rparr>"
  | (release) c where "rest s i = Unlock # c" "t = s\<lparr>mutex := None, rest := (rest s)(i := c)\<rparr>"
  | (compute) f c m' v where "rest s i = Do f # c" "f (mem s, locals s i) = (m', v)"
      "t = s\<lparr>mem := m', locals := (locals s)(i := v), rest := (rest s)(i := c)\<rparr>"
    by (rule act_cases)
  then show ?thesis
  proof cases
    case (acquire c)
    with serial_waiting [OF assms(2)] have i: "i \<notin> set is" "c = map Do (body (ops i)) @ [Unlock]" by auto
    have "mem s = memory_after atomic (map ops is) m" "locals s i = fresh"
      using assms(2) acquire(2) i(1) by (auto simp: serial_def)
    with i assms(2) acquire have "serial ops m is t"
      by (auto simp: serial_def intro!: exI [of _ "body (ops i)"])
    then show ?thesis ..
  next
    case (release c)
    with serial_inside [OF assms(2)] have i: "mutex s = Some i" "i \<notin> set is" by auto
    with assms(2) release(1) have c: "c = []"
      and run: "run_body (body (ops i)) (memory_after atomic (map ops is) m, fresh) = (mem s, locals s i)"
      by (auto simp: serial_def Cons_eq_append_conv Cons_eq_map_conv)
    from body_atomic [OF run] have "atomic (ops i) (memory_after atomic (map ops is) m) = (answer (locals s i), mem s)" .
    with assms(2) i c release have "serial ops m (is @ [i]) t"
      by (auto simp: serial_def outputs_snoc memory_after_snoc)
    then show ?thesis ..
  next
    case (compute f c m' v)
    with serial_inside [OF assms(2)] have i: "mutex s = Some i" "i \<notin> set is" by auto
    with assms(2) compute(1) obtain fs where "c = map Do fs @ [Unlock]" "Suc (length fs) \<le> length (body (ops i))"
      "run_body fs (f (mem s, locals s i)) = run_body (body (ops i)) (memory_after atomic (map ops is) m, fresh)"
      by (auto simp: serial_def Cons_eq_append_conv Cons_eq_map_conv)
    moreover have "map (\<lambda>j. answer (if j = i then v else locals s j)) is = map (\<lambda>j. answer (locals s j)) is"
      using i(2) by auto
    from trans [OF this, of "outputs atomic (map ops is) m"]
    have "map (\<lambda>j. answer (if j = i then v else locals s j)) is = outputs atomic (map ops is) m"
      using assms(2) by (simp add: serial_def)
    ultimately have "serial ops m is t"
      using assms(2) i compute by (auto simp: serial_def)
    then show ?thesis ..
  qed
qed

lemma serial_scheduled: "scheduled s ks t \<Longrightarrow> \<exists>is. serial ops m is s \<Longrightarrow> \<exists>is. serial ops m is t"
  by (induction rule: scheduled.induct) (auto dest: serial_act)

lemma always_serial: "scheduled (at_start body fresh ops m) ks s \<Longrightarrow> \<exists>is. serial ops m is s"
  using serial_scheduled serial_start by blast

text \<open>The holder of the mutex can run to its end.\<close>

lemma run_to_end:
  "rest s i = map Do fs @ [Unlock] \<Longrightarrow> mutex s = Some i \<Longrightarrow>
     \<exists>t. scheduled s (replicate (Suc (length fs)) i) t \<and> rest t i = [] \<and> mutex t = None \<and> (\<forall>j. j \<noteq> i \<longrightarrow> rest t j = rest s j)"
proof (induction fs arbitrary: s)
  case Nil
  then have "act s i (s\<lparr>mutex := None, rest := (rest s)(i := [])\<rparr>)" by (intro act.release) auto
  from scheduled.turn [OF scheduled.idle this] show ?case by fastforce
next
  case (Cons f fs)
  obtain m v where f: "f (mem s, locals s i) = (m, v)" by fastforce
  let ?s = "s\<lparr>mem := m, locals := (locals s)(i := v), rest := (rest s)(i := map Do fs @ [Unlock])\<rparr>"
  have "act s i ?s" using Cons.prems(1) f by (intro act.compute [where f = f]) simp_all
  note first = scheduled.turn [OF scheduled.idle this]
  obtain t where t: "scheduled ?s (replicate (Suc (length fs)) i) t" "rest t i = []" "mutex t = None"
    "\<forall>j. j \<noteq> i \<longrightarrow> rest t j = rest ?s j"
    using Cons.IH [of ?s] Cons.prems(2) by auto
  from scheduled_trans [OF t(1) first] t(2-4) show ?case by auto
qed

text \<open>A call that waits while the mutex is free can run to its end.\<close>

lemma run_from_start:
  assumes "rest s i = locked fs" and "mutex s = None"
  shows "\<exists>t. scheduled s (replicate (length fs + 2) i) t \<and> rest t i = []"
proof -
  let ?s = "s\<lparr>mutex := Some i, rest := (rest s)(i := map Do fs @ [Unlock])\<rparr>"
  have "act s i ?s" using assms by (intro act.acquire) (simp_all add: locked_def)
  note first = scheduled.turn [OF scheduled.idle this]
  obtain t where "scheduled ?s (replicate (Suc (length fs)) i) t" "rest t i = []"
    using run_to_end [of ?s i fs] by auto
  with scheduled_trans [OF this(1) first] show ?thesis by auto
qed

lemma call_can_end:
  assumes "scheduled (at_start body fresh ops m) ks s" and "\<And>x. length (body x) \<le> n"
  shows "\<exists>js t. scheduled s js t \<and> length js \<le> 2 * n + 3 \<and> rest t i = [] \<and> set js \<subseteq> {i} \<union> set_option (mutex s)"
proof -
  obtain "is" where inv: "serial ops m is s" using always_serial [OF assms(1)] by blast
  show ?thesis
  proof (cases "mutex s")
    case None
    show ?thesis
    proof (cases "i \<in> set is")
      case True
      with inv scheduled.idle [of s] show ?thesis by (intro exI [of _ "[]"]) (auto simp: serial_def)
    next
      case False
      with inv None have "rest s i = locked (body (ops i))" by (simp add: serial_def)
      from run_from_start [OF this None] assms(2) [of "ops i"] show ?thesis by fastforce
    qed
  next
    case (Some h)
    obtain fs where fs: "rest s h = map Do fs @ [Unlock]" "length fs \<le> n"
      using inv Some assms(2) by (fastforce simp: serial_def intro: le_trans)
    obtain u where u: "scheduled s (replicate (Suc (length fs)) h) u" "rest u h = []" "mutex u = None"
      "\<forall>j. j \<noteq> h \<longrightarrow> rest u j = rest s j"
      using run_to_end [OF fs(1) Some] by blast
    show ?thesis
    proof (cases "h = i \<or> i \<in> set is")
      case True
      then have "rest u i = []" using u(2,4) inv by (auto simp: serial_def)
      with u(1) fs(2) Some show ?thesis by (intro exI conjI) (assumption, auto)
    next
      case False
      with inv Some u(4) have "rest u i = locked (body (ops i))" by (auto simp: serial_def)
      from run_from_start [OF this u(3)] obtain v where
        v: "scheduled u (replicate (length (body (ops i)) + 2) i) v" "rest v i = []" by blast
      from scheduled_trans [OF v(1) u(1)] v(2) fs(2) assms(2) [of "ops i"] Some show ?thesis
        by (intro exI conjI) (assumption, auto)
    qed
  qed
qed

end

subsection \<open>The methods of the store\<close>

text \<open>The variables of a method: the value it returns, and what it has read from a map.\<close>

record frame =
  result :: store_answer
  cell :: "challenge option"
  slot :: rate_window

definition fresh_frame :: frame where
  "fresh_frame = \<lparr>result = Silent, cell = None, slot = \<lparr>rw_start = zero_time, rw_count = 0\<rparr>\<rparr>"

type_synonym small_step = "memory \<times> frame \<Rightarrow> memory \<times> frame"

definition on_memory :: "(memory \<Rightarrow> memory) \<Rightarrow> small_step" where
  "on_memory f s = (f (fst s), snd s)"

definition on_frame :: "(memory \<Rightarrow> frame \<Rightarrow> frame) \<Rightarrow> small_step" where
  "on_frame f s = (fst s, f (fst s) (snd s))"

text \<open>The three loops of \<open>gcLocked\<close>.\<close>

definition gc_loops :: "instant \<Rightarrow> small_step list" where
  "gc_loops now =
     [on_memory (\<lambda>m. m\<lparr>challenges := purge (\<lambda>c. now > ch_expires_at c) (challenges m)\<rparr>),
      on_memory (\<lambda>m. m\<lparr>spent := purge (\<lambda>expiry. now > expiry) (spent m)\<rparr>),
      on_memory (\<lambda>m. m\<lparr>rates := purge (\<lambda>r. time_sub now (rw_start r) > 2 * minute) (rates m)\<rparr>)]"

text \<open>\<open>PutChallenge\<close>, \<open>GetChallenge\<close>, \<open>FailChallenge\<close>, \<open>ConsumeChallenge\<close>, \<open>ConsumeJTI\<close> and \<open>AllowRate\<close>, one access to a map
  or a local variable after the other. After an early return nothing is left to do.\<close>

fun method_body :: "store_op \<Rightarrow> small_step list" where
  "method_body (Put now c) =
     gc_loops now @ [on_memory (\<lambda>m. m\<lparr>challenges := (challenges m)(ch_id c \<mapsto> c)\<rparr>)]"
| "method_body (Get now cid) =
     gc_loops now @ [on_frame (\<lambda>m f. f\<lparr>result := Found (challenges m cid)\<rparr>)]"
| "method_body (Fail cid max_attempts) =
     [on_frame (\<lambda>m f. f\<lparr>cell := challenges m cid\<rparr>),
      on_frame (\<lambda>m f. f\<lparr>cell := map_option (\<lambda>c. c\<lparr>ch_attempts := wrap64 (ch_attempts c + 1)\<rparr>) (cell f)\<rparr>),
      (\<lambda>(m, f). case cell f of
           None \<Rightarrow> (m, f)
         | Some c \<Rightarrow> (m\<lparr>challenges := (challenges m)(cid := if ch_attempts c \<ge> max_attempts then None else Some c)\<rparr>, f))]"
| "method_body (Consume cid) =
     [on_frame (\<lambda>m f. f\<lparr>cell := challenges m cid, result := Flag False\<rparr>),
      (\<lambda>(m, f). case cell f of
           None \<Rightarrow> (m, f)
         | Some c \<Rightarrow> (m\<lparr>challenges := (challenges m)(cid := None)\<rparr>, f\<lparr>result := Flag True\<rparr>))]"
| "method_body (Spend now jti expires_at) =
     gc_loops now @
     [on_frame (\<lambda>m f. f\<lparr>result := Flag (spent m jti = None)\<rparr>),
      (\<lambda>(m, f). if result f = Flag True then (m\<lparr>spent := (spent m)(jti \<mapsto> expires_at)\<rparr>, f) else (m, f))]"
| "method_body (Rate now key limit window) =
     [on_frame (\<lambda>m f. f\<lparr>slot := (case rates m key of Some r \<Rightarrow> r | None \<Rightarrow> \<lparr>rw_start = zero_time, rw_count = 0\<rparr>)\<rparr>),
      on_frame (\<lambda>m f. if rw_start (slot f) = zero_time \<or> time_sub now (rw_start (slot f)) \<ge> window
                      then f\<lparr>slot := \<lparr>rw_start = now, rw_count = 0\<rparr>\<rparr> else f),
      on_frame (\<lambda>m f. f\<lparr>slot := (slot f)\<lparr>rw_count := wrap64 (rw_count (slot f) + 1)\<rparr>\<rparr>),
      (\<lambda>(m, f). (m\<lparr>rates := (rates m)(key \<mapsto> slot f)\<rparr>, f)),
      on_frame (\<lambda>m f. f\<lparr>result := Rated (rw_count (slot f) \<le> limit) (rw_count (slot f))\<rparr>)]"

lemma run_gc_loops: "run_body (gc_loops now) (m, f) = (gc_locked now m, f)"
  by (simp add: gc_loops_def on_memory_def gc_locked_def)

lemma method_body_atomic:
  assumes "run_body (method_body x) (m, fresh_frame) = (m', f)"
  shows "perform x m = (result f, m')"
proof (cases x)
  case (Fail cid n)
  with assms show ?thesis
    by (cases "challenges m cid") (auto simp: on_frame_def fail_challenge_def Let_def fresh_frame_def)
next
  case (Consume cid)
  with assms show ?thesis
    by (cases "challenges m cid") (auto simp: on_frame_def consume_challenge_def fresh_frame_def)
qed (use assms in \<open>auto simp: run_body_append run_gc_loops on_frame_def on_memory_def put_challenge_def get_challenge_def
      consume_jti_def allow_rate_def Let_def fresh_frame_def split: option.split option.split_asm if_split_asm\<close>)

interpretation locked_store: guarded_object method_body fresh_frame result perform
  by unfold_locales (rule method_body_atomic)

lemma method_body_length: "length (method_body x) \<le> 5"
  by (cases x) (simp_all add: gc_loops_def)

definition store_calls :: "(nat \<Rightarrow> store_op) \<Rightarrow> memory \<Rightarrow> (memory, frame) shared" where
  "store_calls = at_start method_body fresh_frame"

lemma memory_after_perform: "memory_after perform xs m = run_ops xs m"
  by (induction xs arbitrary: m) (simp_all add: perform_run_op)

text \<open>C22. The mutex makes the methods of the store atomic: whatever the order in which the single accesses
  of concurrent calls are made, the calls that have returned took effect one after the other, each with
  the answer and the effect of the operation as a whole, and no two calls are between \<open>Lock\<close> and
  \<open>Unlock\<close> at the same time.\<close>

theorem store_calls_serialise:
  assumes "scheduled (store_calls ops m) schedule s"
  shows "\<exists>is. distinct is \<and> set is = {i. rest s i = []}
    \<and> map (\<lambda>i. result (locals s i)) is = outputs perform (map ops is) m
    \<and> (if mutex s = None then mem s = run_ops (map ops is) m else True)
    \<and> {i. rest s i \<noteq> [] \<and> rest s i \<noteq> locked (method_body (ops i))} \<subseteq> set_option (mutex s)"
proof -
  obtain "is" where inv: "locked_store.serial ops m is s"
    using locked_store.always_serial assms unfolding store_calls_def by blast
  have "rest s i \<noteq> []" if "i \<notin> set is" for i
    using inv that by (cases "mutex s = Some i") (auto simp: locked_store.serial_def locked_def)
  then have "set is = {i. rest s i = []}" using inv by (auto simp: locked_store.serial_def)
  moreover have "if mutex s = None then mem s = run_ops (map ops is) m else True"
    using inv by (auto simp: locked_store.serial_def memory_after_perform)
  moreover have "{i. rest s i \<noteq> [] \<and> rest s i \<noteq> locked (method_body (ops i))} \<subseteq> set_option (mutex s)"
    using inv by (auto simp: locked_store.serial_def)
  ultimately show ?thesis using inv by (intro exI [of _ "is"]) (simp add: locked_store.serial_def)
qed

lemma store_calls_serialise_witness:
  "\<exists>schedule s is. scheduled (store_calls (\<lambda>i. Spend 0 ''a'' 10) new_memory) schedule s \<and> 0 \<in> set is
     \<and> map (\<lambda>i. result (locals s i)) is = outputs perform (map (\<lambda>i. Spend 0 ''a'' 10) is) new_memory"
proof -
  have "scheduled (store_calls (\<lambda>i. Spend 0 ''a'' 10) new_memory) [] (store_calls (\<lambda>i. Spend 0 ''a'' 10) new_memory)"
    by (rule scheduled.idle)
  from locked_store.call_can_end [OF this [unfolded store_calls_def] method_body_length] obtain schedule s where
    run: "scheduled (store_calls (\<lambda>i. Spend 0 ''a'' 10) new_memory) schedule s" and s: "rest s 0 = []"
    unfolding store_calls_def by blast
  from store_calls_serialise [OF run] obtain "is" where "set is = {i. rest s i = []}"
    "map (\<lambda>i. result (locals s i)) is = outputs perform (map (\<lambda>i. Spend 0 ''a'' 10) is) new_memory" by blast
  with run s show ?thesis by blast
qed

text \<open>C23. No call of the store waits for ever: from every state that concurrent calls can reach, every call can
  be brought to its end by at most thirteen further actions, of the holder of the mutex and of the call itself;
  and a call is over after at most seven actions of its own.\<close>

theorem store_calls_return:
  assumes "scheduled (store_calls ops m) schedule s"
  shows "(\<exists>more t. scheduled s more t \<and> rest t i = [] \<and> length more \<le> 13 \<and> set more \<subseteq> {i} \<union> set_option (mutex s))
    \<and> count_list schedule i \<le> 7"
proof
  show "\<exists>more t. scheduled s more t \<and> rest t i = [] \<and> length more \<le> 13 \<and> set more \<subseteq> {i} \<union> set_option (mutex s)"
    using locked_store.call_can_end [OF assms [unfolded store_calls_def] method_body_length, of i] by auto
  have "count_list schedule i \<le> length (rest (store_calls ops m) i)"
    using scheduled_rest [OF assms, of i] by simp
  also have "\<dots> \<le> 7" using method_body_length [of "ops i"] by (simp add: store_calls_def at_start_def locked_def)
  finally show "count_list schedule i \<le> 7" .
qed

lemma store_calls_return_witness:
  "\<exists>more t. scheduled (store_calls (\<lambda>i. Consume ''c'') new_memory) more t \<and> rest t 3 = [] \<and> length more \<le> 13"
  using store_calls_return [OF scheduled.idle, of "\<lambda>i. Consume ''c''" new_memory 3] by blast

end
