(* ===== verification/Responses.thy ===== *)
theory Responses
  imports Http Observation
begin

text \<open>
  What holds of every HTTP request, whatever its bytes: it is answered with the security headers, and it
  changes no more of the state than its endpoint is for.
\<close>

subsection \<open>Headers that no handler touches\<close>

definition handler_headers :: "string list" where
  "handler_headers =
     [''Content-Type'', ''Access-Control-Allow-Origin'', ''Vary'', ''Access-Control-Allow-Methods'',
      ''Access-Control-Allow-Headers'', ''Access-Control-Max-Age'']"

lemma content_type_is_handlers: "k \<notin> set handler_headers \<Longrightarrow> ''Content-Type'' \<noteq> k"
  by (auto simp: handler_headers_def)

lemma cors_header: "k \<notin> set handler_headers \<Longrightarrow> w_header (set_cors r w) k = w_header w k"
  by (auto simp: set_cors_def handler_headers_def)

lemma options_header: "k \<notin> set handler_headers \<Longrightarrow> w_header (options r w) k = w_header w k"
  using cors_header [of k r w] by (auto simp: options_def handler_headers_def)

lemma decode_header: "k \<notin> set handler_headers \<Longrightarrow> decode_json b w = Inl w' \<Longrightarrow> w_header w' k = w_header w k"
  using content_type_is_handlers [of k] by (auto simp: decode_json_def split: decoded.splits if_splits)

lemma answer_header: "k \<notin> set handler_headers \<Longrightarrow>
    w_header (snd (answer_decision wd req h site ip d s w)) k = w_header w k"
  using content_type_is_handlers [of k]
  by (simp add: answer_decision_def Let_def split: sum.split prod.split)

lemma admit_header: "k \<notin> set handler_headers \<Longrightarrow>
    w_header (snd (admit_challenge wd r req h site s w)) k = w_header w k"
  using content_type_is_handlers [of k] by (simp add: admit_challenge_def Let_def answer_header split: prod.split)

lemma issue_header: "k \<notin> set handler_headers \<Longrightarrow> w_header (snd (issue_challenge wd r b s w)) k = w_header w k"
  using content_type_is_handlers [of k]
  by (auto simp: issue_challenge_def Let_def decode_header admit_header cors_header split: sum.split option.split)

lemma redeem_header: "k \<notin> set handler_headers \<Longrightarrow>
    w_header (snd (redeem_challenge wd site c cid pf s w)) k = w_header w k"
  using content_type_is_handlers [of k] by (simp add: redeem_challenge_def Let_def split: sum.split prod.split)

lemma verify_header: "k \<notin> set handler_headers \<Longrightarrow> w_header (snd (verify_challenge wd r b s w)) k = w_header w k"
proof -
  assume k: "k \<notin> set handler_headers"
  then have "decode_json b (set_cors r w) = Inl w' \<Longrightarrow> w_header w' k = w_header w k" for w'
    using decode_header [OF k, of b "set_cors r w" w'] by (simp add: cors_header)
  with k content_type_is_handlers [OF k] show ?thesis
    by (simp add: verify_challenge_def Let_def redeem_header cors_header split: sum.split option.split prod.split)
qed

lemma site_header: "k \<notin> set handler_headers \<Longrightarrow> w_header (snd (site_verify wd r b s w)) k = w_header w k"
  using content_type_is_handlers [of k]
  by (simp add: site_verify_def refuse_site_verify_def Let_def split: option.split sum.split prod.split)

lemma metrics_header: "k \<notin> set handler_headers \<Longrightarrow> w_header (metrics_handler m w) k = w_header w k"
  using content_type_is_handlers [of k] by (simp add: metrics_handler_def)

lemma handled_header: "k \<notin> set handler_headers \<Longrightarrow> w_header (snd (handle_call wd c s w)) k = w_header w k"
  using content_type_is_handlers [of k]
  by (simp add: handle_call_def health_def issue_header verify_header site_header metrics_header options_header split: call.split)

lemma mux_header:
  assumes "k \<notin> set handler_headers" and "k \<noteq> ''Allow''" and "k \<noteq> ''Connection''"
    and "k = ''X-Content-Type-Options'' \<Longrightarrow> w_header w k = Some ''nosniff''"
  shows "w_header (snd (mux wd q s w)) k = w_header w k"
  using assms content_type_is_handlers [OF assms(1)]
  by (auto simp: mux_def handled_header http_error_def split: routed.split)

subsection \<open>Every request is answered\<close>

definition statuses :: "int set" where
  "statuses = {200, 204, 301, 400, 403, 404, 405, 429, 500}"

definition answered :: "writer \<Rightarrow> bool" where
  "answered w \<longleftrightarrow> w_status w \<in> Some ` statuses"

lemma answered_json [simp]: "w_status w = None \<Longrightarrow> st \<in> statuses \<Longrightarrow> answered (write_json st b w)"
  by (simp add: answered_def w_status_write_json)

lemma answered_error [simp]: "w_status w = None \<Longrightarrow> st \<in> statuses \<Longrightarrow> answered (write_error st code w)"
  by (simp add: write_error_def)

lemma statuses_used [simp]:
  "200 \<in> statuses" "204 \<in> statuses" "301 \<in> statuses" "400 \<in> statuses" "403 \<in> statuses" "404 \<in> statuses"
  "405 \<in> statuses" "429 \<in> statuses" "500 \<in> statuses"
  by (simp_all add: statuses_def)

lemma cors_status [simp]: "w_status (set_cors r w) = w_status w"
  by (simp add: set_cors_def)

lemma decode_answered: "w_status w = None \<Longrightarrow> decode_json b w = Inl w' \<Longrightarrow> answered w'"
  by (auto simp: decode_json_def split: decoded.splits if_splits)

lemma answer_answered: "w_status w = None \<Longrightarrow> answered (snd (answer_decision wd req h site ip d s w))"
  by (simp add: answer_decision_def Let_def split: sum.split prod.split)

lemma admit_answered: "w_status w = None \<Longrightarrow> answered (snd (admit_challenge wd r req h site s w))"
  by (simp add: admit_challenge_def Let_def answer_answered split: prod.split)

lemma issue_answered: "w_status w = None \<Longrightarrow> answered (snd (issue_challenge wd r b s w))"
  by (simp add: issue_challenge_def Let_def decode_answered admit_answered split: sum.split option.split)

lemma redeem_answered: "w_status w = None \<Longrightarrow> answered (snd (redeem_challenge wd site c cid pf s w))"
  by (simp add: redeem_challenge_def Let_def split: sum.split prod.split)

lemma verify_answered: "w_status w = None \<Longrightarrow> answered (snd (verify_challenge wd r b s w))"
  by (simp add: verify_challenge_def Let_def redeem_answered decode_answered [of "set_cors r w"]
      split: sum.split option.split prod.split)

lemma site_answered: "w_status w = None \<Longrightarrow> answered (snd (site_verify wd r b s w))"
  by (simp add: site_verify_def refuse_site_verify_def Let_def split: option.split sum.split prod.split)

lemma handled_answered: "w_status w = None \<Longrightarrow> answered (snd (handle_call wd c s w))"
proof -
  assume w: "w_status w = None"
  then have "answered (metrics_handler (stats s) w)" "answered (options r w)" "answered (health w)" for r
    by (simp_all add: metrics_handler_def options_def health_def write_json_def write_status_def answered_def)
  with w show ?thesis
    by (simp add: handle_call_def issue_answered verify_answered site_answered split: call.split)
qed

text \<open>C11. Every HTTP request is answered, with one of nine statuses, and every answer carries the security headers,
  those of the multiplexer and the error answers included; only \<open>/metrics\<close> and \<open>/healthz\<close> keep the resource policy
  of the browser.\<close>

theorem every_response_secured:
  "let w = snd (serve_http wd q s); path = path_unescape (rq_escaped_path q) in
     w_status w \<in> Some ` {200, 204, 301, 400, 403, 404, 405, 429, 500}
     \<and> w_header w ''X-Content-Type-Options'' = Some ''nosniff'' \<and> w_header w ''Referrer-Policy'' = Some ''no-referrer''
     \<and> w_header w ''Permissions-Policy'' = Some ''camera=(), microphone=(), geolocation=()''
     \<and> w_header w ''Cache-Control'' = Some ''no-store''
     \<and> w_header w ''Cross-Origin-Resource-Policy'' =
         (if path = ''/metrics'' \<or> path = ''/healthz'' then None else Some ''cross-origin'')"
proof -
  let ?path = "path_unescape (rq_escaped_path q)"
  let ?v = "security ?path fresh_writer"
  have serve: "snd (serve_http wd q s) = snd (mux wd q s ?v)" by (simp add: serve_http_def)
  have set: "w_header ?v ''X-Content-Type-Options'' = Some ''nosniff''" "w_header ?v ''Referrer-Policy'' = Some ''no-referrer''"
    "w_header ?v ''Permissions-Policy'' = Some ''camera=(), microphone=(), geolocation=()''"
    "w_header ?v ''Cache-Control'' = Some ''no-store''"
    "w_header ?v ''Cross-Origin-Resource-Policy'' =
       (if ?path = ''/metrics'' \<or> ?path = ''/healthz'' then None else Some ''cross-origin'')"
    by (simp_all add: security_def Let_def)
  have "answered (snd (mux wd q s ?v))"
    using handled_answered [of ?v]
    by (cases "route q") (simp_all add: mux_def http_error_def write_status_def answered_def)
  then have "w_status (snd (mux wd q s ?v)) \<in> Some ` {200, 204, 301, 400, 403, 404, 405, 429, 500}"
    by (simp add: answered_def statuses_def)
  moreover have "w_header (snd (mux wd q s ?v)) k = w_header ?v k"
    if "k \<in> {''X-Content-Type-Options'', ''Referrer-Policy'', ''Permissions-Policy'', ''Cache-Control'', ''Cross-Origin-Resource-Policy''}" for k
    using that set(1) by (intro mux_header) (auto simp: handler_headers_def)
  ultimately show ?thesis unfolding serve Let_def using set by simp
qed

subsection \<open>What an endpoint may change\<close>

lemma map_le_purge: "purge dead m \<subseteq>\<^sub>m m"
  by (auto simp: map_le_def purge_def split: option.splits if_splits)

lemma rate_frame [simp]:
  "spent (snd (allow_rate now key limit window m)) = spent m"
  "challenges (snd (allow_rate now key limit window m)) = challenges m"
  by (simp_all add: allow_rate_def Let_def)

lemma put_frame [simp]: "spent (put_challenge now c m) \<subseteq>\<^sub>m spent m"
  by (simp add: put_challenge_def Let_def map_le_purge)

lemma get_frame:
  "challenges (snd (get_challenge now cid m)) \<subseteq>\<^sub>m challenges m" "spent (snd (get_challenge now cid m)) \<subseteq>\<^sub>m spent m"
  "rates (snd (get_challenge now cid m)) \<subseteq>\<^sub>m rates m"
  by (simp_all add: get_challenge_def Let_def map_le_purge)

lemma fail_frame [simp]:
  "dom (challenges (fail_challenge cid n m)) \<subseteq> dom (challenges m)"
  "spent (fail_challenge cid n m) = spent m" "rates (fail_challenge cid n m) = rates m"
  by (auto simp: fail_challenge_def Let_def split: option.splits if_splits)

lemma consume_frame [simp]:
  "dom (challenges (snd (consume_challenge cid m))) \<subseteq> dom (challenges m)"
  "spent (snd (consume_challenge cid m)) = spent m" "rates (snd (consume_challenge cid m)) = rates m"
  by (auto simp: consume_challenge_def split: option.splits if_splits)

lemma spend_frame:
  "challenges (snd (consume_jti now jti e m)) \<subseteq>\<^sub>m challenges m" "rates (snd (consume_jti now jti e m)) \<subseteq>\<^sub>m rates m"
  by (simp_all add: consume_jti_def Let_def map_le_purge split: option.split)

lemma answer_marks: "spent (store (fst (answer_decision wd req h site ip d s w))) \<subseteq>\<^sub>m spent (store s)"
  by (simp add: answer_decision_def Let_def split: sum.split prod.split)

lemma admit_marks: "spent (store (fst (admit_challenge wd r req h site s w))) \<subseteq>\<^sub>m spent (store s)"
  using answer_marks [where s = "count inc_challenges (s\<lparr>store := snd (allow_rate (clock wd 0) (rate_key site (network_of s r) (cr_action req))
        (rate_limit_per_minute site) minute (store s))\<rparr>)"]
  by (simp add: admit_challenge_def Let_def split_beta)

lemma issue_marks: "spent (store (fst (issue_challenge wd r b s w))) \<subseteq>\<^sub>m spent (store s)"
  using admit_marks [where s = "count inc_requests s"]
  by (simp add: issue_challenge_def Let_def split: sum.split option.split)

definition shrinks :: "memory \<Rightarrow> memory \<Rightarrow> bool" where
  "shrinks m m' \<longleftrightarrow> dom (challenges m') \<subseteq> dom (challenges m) \<and> spent m' \<subseteq>\<^sub>m spent m \<and> rates m' \<subseteq>\<^sub>m rates m"

lemma shrinks_simps [simp]:
  "shrinks m m" "shrinks m (fail_challenge cid n m)" "shrinks m (snd (consume_challenge cid m))"
  "shrinks m (snd (get_challenge now cid m))"
  using map_le_implies_dom_le [OF get_frame(1)] by (simp_all add: shrinks_def get_frame)

lemma shrinks_trans: "shrinks m m' \<Longrightarrow> shrinks m' m'' \<Longrightarrow> shrinks m m''"
  unfolding shrinks_def by (blast intro: map_le_trans subset_trans)

lemma redeem_shrinks: "shrinks (store s) (store (fst (redeem_challenge wd site c cid pf s w)))"
  by (simp add: redeem_challenge_def Let_def split_beta split: sum.split)

lemma verify_shrinks: "shrinks (store s) (store (fst (verify_challenge wd r b s w)))"
proof -
  let ?g = "get_challenge (clock wd 0) (path_id r) (store s)"
  let ?s = "count inc_requests (s\<lparr>store := snd ?g\<rparr>)"
  have "shrinks (snd ?g) m \<Longrightarrow> shrinks (store s) m" for m by (rule shrinks_trans [of _ "snd ?g"]) simp_all
  moreover have "shrinks (snd ?g) (store (fst (redeem_challenge wd site c cid pf ?s w)))" for site c cid pf w
    using redeem_shrinks [of ?s] by simp
  ultimately show ?thesis
    by (simp add: verify_challenge_def Let_def split_beta split: sum.split option.split)
qed

lemma site_frame:
  "challenges (store (fst (site_verify wd r b s w))) \<subseteq>\<^sub>m challenges (store s)"
  "rates (store (fst (site_verify wd r b s w))) \<subseteq>\<^sub>m rates (store s)"
  by (simp_all add: site_verify_def refuse_site_verify_def Let_def split_beta spend_frame split: option.split sum.split)

text \<open>C35. Each endpoint changes its own part of the state only, whatever the request: the configuration, keys and
  services stay; only a challenge request files a challenge or counts for a rate limit, only a
  challenge or verification request changes a challenge, only \<open>siteverify\<close> marks a token as spent,
  and a request that reaches none of the three changes nothing. Apart from that, entries of the store may only go.\<close>

theorem endpoints_confined:
  "let t = fst (serve_http wd q s); m = store s; m' = store t in
     cfg t = cfg s \<and> signer t = signer s \<and> rep_url t = rep_url s \<and> scorer t = scorer s
     \<and> (dom (challenges m') \<subseteq> dom (challenges m) \<or> route q = To ChallengePoint [])
     \<and> (rates m' \<subseteq>\<^sub>m rates m \<or> route q = To ChallengePoint [])
     \<and> (challenges m' \<subseteq>\<^sub>m challenges m \<or> (\<exists>ms. route q = To ChallengePoint [] \<or> route q = To VerifyPoint ms))
     \<and> (spent m' \<subseteq>\<^sub>m spent m \<or> route q = To SiteVerifyPoint [])
     \<and> (t = s \<or> (\<exists>ms. route q = To ChallengePoint [] \<or> route q = To VerifyPoint ms \<or> route q = To SiteVerifyPoint []))"
proof (cases "\<exists>e ms. route q = To e ms")
  case False
  then have "fst (serve_http wd q s) = s" using unrouted_is_inert [of q wd s] by blast
  then show ?thesis by simp
next
  case True
  then obtain e ms where to: "route q = To e ms" by blast
  let ?c = "call_of wd (rt_max_body_bytes (cfg s)) q e ms"
  have same: "same_setup s (fst (serve wd ?c s))" using serve_acts [of wd s ?c] by (simp add: acts_def)
  have none: "ms = []" if "e = ChallengePoint \<or> e = SiteVerifyPoint"
    using to that unfolding route_To_iff by (auto simp: routes_def match_iffs)
  show ?thesis
    using same none verify_shrinks [of s wd] issue_marks [of wd _ _ s] site_frame [of wd _ _ s] map_le_implies_dom_le [OF site_frame(1) [of wd _ _ s]]
    unfolding routed_is_served [OF to] Let_def to
    by (cases e) (simp_all add: same_setup_def call_of_def serve_def handle_call_def shrinks_def)
qed

end
