(* ===== verification/RequestTexts.thy ===== *)
theory RequestTexts
  imports Http ConfigFile
begin

text \<open>
  The JSON text of a challenge request, member by member under the names that the tags of
  \<open>internal/model/types.go\<close> give, and what \<open>decodeJSON\<close> makes of it.
\<close>

subsection \<open>The text of a request\<close>

text \<open>Members that the structs do not have, at each of the four levels.\<close>

record extras =
  in_request :: "(string \<times> json) list"
  in_telemetry :: "(string \<times> json) list"
  in_client :: "(string \<times> json) list"
  in_behavior :: "(string \<times> json) list"

definition no_extras :: extras where
  "no_extras = \<lparr>in_request = [], in_telemetry = [], in_client = [], in_behavior = []\<rparr>"

text \<open>\<open>lit\<close> is how the client writes a floating-point number.\<close>

definition behavior_members :: "(f64 \<Rightarrow> string) \<Rightarrow> behavior_signals \<Rightarrow> (string \<times> json) list" where
  "behavior_members lit b =
     [(''dwell_ms'', JNum (show_int (dwell_ms b))), (''pointer_events'', JNum (show_int (pointer_events b))),
      (''pointer_distance'', JNum (lit (pointer_distance b))), (''pointer_variance'', JNum (lit (pointer_variance b))),
      (''key_events'', JNum (show_int (key_events b))),
      (''key_interval_mean_ms'', JNum (lit (key_interval_mean_ms b))),
      (''key_interval_std_ms'', JNum (lit (key_interval_std_ms b))),
      (''focus_transitions'', JNum (show_int (focus_transitions b))),
      (''visibility_changes'', JNum (show_int (visibility_changes b)))]"

definition client_members :: "(f64 \<Rightarrow> string) \<Rightarrow> client_signals \<Rightarrow> (string \<times> json) list \<Rightarrow> (string \<times> json) list" where
  "client_members lit c others =
     [(''sdk_version'', JStr (sdk_version c)), (''user_agent'', JStr (cs_user_agent c)), (''platform'', JStr (cs_platform c)),
      (''languages'', JArr (map JStr (languages c))), (''timezone'', JStr (timezone c)),
      (''screen_width_bucket'', JNum (show_int (screen_width_bucket c))),
      (''screen_height_bucket'', JNum (show_int (screen_height_bucket c))),
      (''color_depth'', JNum (show_int (color_depth c))),
      (''hardware_concurrency'', JNum (show_int (hardware_concurrency c))),
      (''device_memory_gb'', JNum (lit (device_memory_gb c))),
      (''max_touch_points'', JNum (show_int (max_touch_points c))),
      (''webdriver'', JBool (webdriver c)), (''secure_context'', JBool (secure_context c)),
      (''cookie_enabled'', JBool (cookie_enabled c)), (''local_storage_ok'', JBool (local_storage_ok c)),
      (''session_storage_ok'', JBool (session_storage_ok c)),
      (''webgl_vendor_hash'', JStr (webgl_vendor_hash c)), (''webgl_renderer_hash'', JStr (webgl_renderer_hash c)),
      (''wasm_available'', JBool (wasm_available c)), (''wasm_mix'', JNum (show_nat (unat (wasm_mix c)))),
      (''webcrypto_available'', JBool (webcrypto_available c)),
      (''performance_jitter'', JNum (lit (performance_jitter c))),
      (''behavior'', JObj (behavior_members lit (behavior c) @ others))]"

definition request_members :: "challenge_request \<Rightarrow> json \<Rightarrow> (string \<times> json) list" where
  "request_members q telemetry =
     [(''site_key'', JStr (cr_site_key q)), (''action'', JStr (cr_action q)), (''hostname'', JStr (cr_hostname q)),
      (''session_id'', JStr (cr_session_id q)), (''telemetry'', telemetry)]"

definition request_json :: "(f64 \<Rightarrow> string) \<Rightarrow> challenge_request \<Rightarrow> extras \<Rightarrow> json" where
  "request_json lit q e =
     JObj (request_members q
       (JObj ([(''client'', JObj (client_members lit (client (cr_telemetry q)) (in_behavior e) @ in_client e))] @ in_telemetry e))
       @ in_request e)"

text \<open>Members whose names, folded as the package folds them, are none of these, and which fit in at their level.\<close>

definition foreign :: "nat \<Rightarrow> string list \<Rightarrow> (string \<times> json) list \<Rightarrow> bool" where
  "foreign level names kvs \<longleftrightarrow>
     list_all (\<lambda>kv. fold_name (fst kv) \<notin> set (map fold_name names) \<and> utf8_valid (fst kv)
       \<and> printable (max_nesting - level) (snd kv)) kvs"

definition request_keys :: "string list" where
  "request_keys = [''site_key'', ''action'', ''hostname'', ''session_id'', ''telemetry'']"

definition client_keys :: "string list" where
  "client_keys =
     [''sdk_version'', ''user_agent'', ''platform'', ''languages'', ''timezone'', ''screen_width_bucket'',
      ''screen_height_bucket'', ''color_depth'', ''hardware_concurrency'', ''device_memory_gb'', ''max_touch_points'',
      ''webdriver'', ''secure_context'', ''cookie_enabled'', ''local_storage_ok'', ''session_storage_ok'',
      ''webgl_vendor_hash'', ''webgl_renderer_hash'', ''wasm_available'', ''wasm_mix'', ''webcrypto_available'',
      ''performance_jitter'', ''behavior'']"

definition behavior_keys :: "string list" where
  "behavior_keys =
     [''dwell_ms'', ''pointer_events'', ''pointer_distance'', ''pointer_variance'', ''key_events'',
      ''key_interval_mean_ms'', ''key_interval_std_ms'', ''focus_transitions'', ''visibility_changes'']"

definition foreign_extras :: "extras \<Rightarrow> bool" where
  "foreign_extras e \<longleftrightarrow>
     foreign 1 request_keys (in_request e) \<and> foreign 2 [''client''] (in_telemetry e)
     \<and> foreign 3 client_keys (in_client e) \<and> foreign 4 behavior_keys (in_behavior e)"

definition floats_of :: "challenge_request \<Rightarrow> f64 list" where
  "floats_of q =
     (let c = client (cr_telemetry q); b = behavior c in
      [device_memory_gb c, performance_jitter c, pointer_distance b, pointer_variance b, key_interval_mean_ms b,
       key_interval_std_ms b])"

text \<open>The client writes these numbers so that the nearest double is the number itself.\<close>

definition writes :: "(f64 \<Rightarrow> string) \<Rightarrow> f64 \<Rightarrow> bool" where
  "writes lit x \<longleftrightarrow> num_literal (lit x) \<and> parse_float64 (lit x) = Some x"

subsection \<open>Reading it\<close>

lemma field_keys:
  "map fst behavior_fields = behavior_keys" "map fst (client_fields strict) = client_keys"
  "map fst (telemetry_fields strict) = [''client'']" "map fst (challenge_request_fields strict) = request_keys"
  by (simp_all add: behavior_fields_def behavior_keys_def client_fields_def client_keys_def telemetry_fields_def
      challenge_request_fields_def request_keys_def)

lemma member_keys:
  "map fst (behavior_members lit b) = behavior_keys" "map fst (client_members lit c others) = client_keys"
  "map fst (request_members q t) = request_keys"
  by (simp_all add: behavior_members_def behavior_keys_def client_members_def client_keys_def request_members_def request_keys_def)

lemma distinct_fst: "distinct (map (\<lambda>f. fold_name (fst f)) fs) \<Longrightarrow> distinct (map fst fs)"
proof -
  assume "distinct (map (\<lambda>f. fold_name (fst f)) fs)"
  then have "distinct (map fold_name (map fst fs))" by (simp add: comp_def)
  then show ?thesis by (simp only: distinct_map)
qed

lemma foreign_unknown:
  assumes "foreign level names kvs" and "map fst fs = names"
  shows "dec_members True fs kvs s = (if kvs = [] then Some s else None)"
proof (rule dec_members_unknown)
  have "set (map (\<lambda>f. fold_name (fst f)) fs) = set (map fold_name names)" by (simp add: image_image flip: assms(2))
  with assms(1) show "list_all (\<lambda>kv. fold_name (fst kv) \<notin> set (map (\<lambda>f. fold_name (fst f)) fs)) kvs"
    by (simp add: foreign_def list_all_iff)
qed

text \<open>A struct whose members are all there in order, with further ones behind.\<close>

lemma struct_row:
  assumes "distinct (map (\<lambda>f. fold_name (fst f)) fs)" and "map fst fs = names" and "map fst kvs = names"
    and "foreign level names others"
  shows "dec_struct True fs (JObj (kvs @ others)) s
    = Option.bind (dec_row (map snd fs) (map snd kvs) s) (\<lambda>t. if others = [] then Some t else None)"
proof -
  have "fst ` set kvs \<subseteq> fst ` set fs" using assms(2,3) by (metis set_map subset_refl)
  then have "dec_members True fs kvs s = dec_row (map snd fs) (map snd kvs) s"
    using dec_members_known [OF assms(1)] dec_exact_row [OF distinct_fst [OF assms(1)]] assms(2,3) by simp
  moreover have "dec_members True fs others = (\<lambda>t. if others = [] then Some t else None)"
    using foreign_unknown [OF assms(4,2)] by (rule ext)
  ultimately show ?thesis by (simp only: dec_struct.simps dec_members_append)
qed

lemma dec_behavior:
  assumes "behavior_typed b" and "list_all (writes lit) [pointer_distance b, pointer_variance b, key_interval_mean_ms b, key_interval_std_ms b]"
    and "foreign 4 behavior_keys others"
  shows "dec_struct True behavior_fields (JObj (behavior_members lit b @ others)) z = (if others = [] then Some b else None)"
proof -
  have "dec_row (map snd behavior_fields) (map snd (behavior_members lit b)) z = Some b"
    using assms(1,2) by (simp add: behavior_fields_def behavior_members_def field_def behavior_typed_def writes_def)
  then show ?thesis by (simp only: struct_row [OF behavior_names field_keys(1) member_keys(1) assms(3)] bind.simps)
qed

lemma parse_show_uint: "n < 2 ^ 64 \<Longrightarrow> parse_uint64 (show_nat n) = Some n"
  using show_nat_digits [of n] show_nat_not_Nil [of n] by (simp add: parse_uint64_def)

lemma dec_mix: "dec_uint32 (JNum (show_nat (unat x))) y = Some x"
proof -
  have "unat x < 2 ^ 32" using unsigned_less [of x, where 'a = nat] by simp
  then show ?thesis using parse_show_uint [of "unat x"] by simp
qed

lemma dec_client_members:
  assumes "client_typed c" and "list_all (writes lit) [device_memory_gb c, performance_jitter c]"
    and "list_all (writes lit) [pointer_distance (behavior c), pointer_variance (behavior c),
       key_interval_mean_ms (behavior c), key_interval_std_ms (behavior c)]"
    and "foreign 4 behavior_keys inner" and "foreign 3 client_keys others"
  shows "dec_struct True (client_fields True) (JObj (client_members lit c inner @ others)) (zero_client, [])
     = (if inner = [] \<and> others = [] then Some (c, languages c) else None)"
proof -
  have b: "dec_struct True behavior_fields (JObj (behavior_members lit (behavior c) @ inner)) zero_behavior
      = (if inner = [] then Some (behavior c) else None)"
    using assms(1,3,4) by (intro dec_behavior) (simp_all add: client_typed_def)
  have "dec_row (map snd (client_fields True)) (map snd (client_members lit c inner)) (zero_client, [])
      = (if inner = [] then Some (c, languages c) else None)"
    using assms(1,2) b
    by (cases "languages c = []")
      (simp_all add: client_fields_def client_members_def decoder_defs dec_languages_def dec_cells_strings dec_mix client_typed_def
        writes_def zero_client_def del: dec_struct.simps dec_uint32.simps)
  then show ?thesis by (simp add: struct_row [OF client_names field_keys(2) member_keys(2) assms(5)] del: dec_struct.simps)
qed

lemma dec_telemetry_members:
  assumes "dec_struct True (client_fields True) (JObj ms) (zero_client, []) = (if ok then Some (c, cells) else None)"
    and "foreign 2 [''client''] others"
  shows "dec_struct True (telemetry_fields True) (JObj ([(''client'', JObj ms)] @ others)) (\<lparr>client = zero_client\<rparr>, [])
     = (if ok \<and> others = [] then Some (\<lparr>client = c\<rparr>, cells) else None)"
proof -
  have "dec_row (map snd (telemetry_fields True)) (map snd [(''client'', JObj ms)]) (\<lparr>client = zero_client\<rparr>, [])
      = (if ok then Some (\<lparr>client = c\<rparr>, cells) else None)"
    using assms(1) by (simp add: telemetry_fields_def dec_client_def del: dec_struct.simps)
  then show ?thesis
    by (simp add: struct_row [OF telemetry_names field_keys(3) _ assms(2)] del: dec_struct.simps append_Cons append_Nil)
qed

lemma dec_request_members:
  assumes "dec_struct True (telemetry_fields True) t (\<lparr>client = zero_client\<rparr>, []) = (if ok then Some (cr_telemetry q, cells) else None)"
    and "foreign 1 request_keys others"
  shows "dec_struct True (challenge_request_fields True) (JObj (request_members q t @ others)) (zero_challenge_request, [])
     = (if ok \<and> others = [] then Some (q, cells) else None)"
proof -
  have "dec_row (map snd (challenge_request_fields True)) (map snd (request_members q t)) (zero_challenge_request, [])
      = (if ok then Some (q, cells) else None)"
    using assms(1)
    by (simp add: challenge_request_fields_def request_members_def decoder_defs dec_telemetry_def zero_challenge_request_def del: dec_struct.simps)
  then show ?thesis
    by (simp add: struct_row [OF request_names field_keys(4) member_keys(3) assms(2)] del: dec_struct.simps)
qed

lemma dec_request_json:
  assumes "request_typed q" and "list_all (writes lit) (floats_of q)" and "foreign_extras e"
  shows "dec_struct True (challenge_request_fields True) (request_json lit q e) (zero_challenge_request, [])
    = (if e = no_extras then Some (q, languages (client (cr_telemetry q))) else None)"
proof -
  let ?c = "client (cr_telemetry q)"
  have f: "foreign 1 request_keys (in_request e)" "foreign 2 [''client''] (in_telemetry e)" "foreign 3 client_keys (in_client e)"
    "foreign 4 behavior_keys (in_behavior e)" using assms(3) by (simp_all add: foreign_extras_def)
  have w: "list_all (writes lit) [device_memory_gb ?c, performance_jitter ?c]"
    "list_all (writes lit) [pointer_distance (behavior ?c), pointer_variance (behavior ?c),
       key_interval_mean_ms (behavior ?c), key_interval_std_ms (behavior ?c)]"
    using assms(2) by (simp_all add: floats_of_def Let_def)
  have "client_typed ?c" using assms(1) by (simp add: request_typed_def)
  note dec_telemetry_members [OF dec_client_members [OF this w f(4,3)] f(2)]
  then have "dec_struct True (telemetry_fields True)
      (JObj ([(''client'', JObj (client_members lit ?c (in_behavior e) @ in_client e))] @ in_telemetry e)) (\<lparr>client = zero_client\<rparr>, [])
      = (if (in_behavior e = [] \<and> in_client e = []) \<and> in_telemetry e = [] then Some (cr_telemetry q, languages ?c) else None)"
    by simp
  from dec_request_members [OF this f(1)] show ?thesis
    unfolding request_json_def by (cases e) (auto simp: no_extras_def simp del: dec_struct.simps)
qed

lemma request_json_printable:
  assumes "request_typed q" and "list_all (writes lit) (floats_of q)" and "foreign_extras e"
  shows "printable max_nesting (request_json lit q e)"
proof -
  have keys: "list_all utf8_valid (behavior_keys @ client_keys @ request_keys @ [''client''])"
    unfolding list_all_iff by (intro ballI utf8_valid_ascii)
      (auto simp: list_all_iff is_ascii_def behavior_keys_def client_keys_def request_keys_def)
  have others: "list_all (\<lambda>kv. utf8_valid (fst kv) \<and> printable (max_nesting - Suc 0) (snd kv)) (in_request e)"
    "list_all (\<lambda>kv. utf8_valid (fst kv) \<and> printable (max_nesting - 2) (snd kv)) (in_telemetry e)"
    "list_all (\<lambda>kv. utf8_valid (fst kv) \<and> printable (max_nesting - 3) (snd kv)) (in_client e)"
    "list_all (\<lambda>kv. utf8_valid (fst kv) \<and> printable (max_nesting - 4) (snd kv)) (in_behavior e)"
    using assms(3) by (auto simp: foreign_extras_def foreign_def list_all_iff)
  have b: "printable (max_nesting - 3) (JObj (behavior_members lit (behavior (client (cr_telemetry q))) @ in_behavior e))"
    using keys assms(2) others(4)
    by (simp add: behavior_members_def behavior_keys_def floats_of_def Let_def writes_def max_nesting_def)
  have "printable (max_nesting - 2) (JObj (client_members lit (client (cr_telemetry q)) (in_behavior e) @ in_client e))"
    using keys assms(1,2) others(3) b
    by (simp add: client_members_def client_keys_def floats_of_def Let_def writes_def max_nesting_def request_typed_def client_typed_def
        printable_strings num_literal_show_nat)
  then show ?thesis
    using keys assms(1) others(1,2)
    by (simp add: request_json_def request_members_def request_keys_def request_typed_def utf8_request_def max_nesting_def)
qed

text \<open>C14. The bytes a browser sends and the request that is checked are the same: the JSON text of a request (of UTF-8
  strings, 64-bit integers and numbers written so that the nearest double is the number), with
  white space behind it and within the limit, decodes to exactly this request, every field under its name at its
  level; and with any further member of another name at any of the four levels it is refused as a whole.\<close>

theorem challenge_request_reads_back:
  assumes "request_typed q" and "list_all (writes lit) (floats_of q)" and "foreign_extras e"
    and "list_all is_space ws" and "length (print_json (request_json lit q e) @ ws) \<le> nat limit"
  shows "read_challenge_request limit (print_json (request_json lit q e) @ ws, True)
    = (if e = no_extras then GoodJson q True else BadJson)"
proof -
  let ?text = "print_json (request_json lit q e)"
  have "feed [] BeginValue ?text = Scanned (request_json lit q e) [] True"
    using feed_print [OF request_json_printable [OF assms(1-3)]] by (simp add: request_json_def)
  note feed_delimited [OF this]
  moreover have "max_bytes limit (?text @ ws, True) = (?text @ ws, True)"
    using assms(5) by (simp add: max_bytes_def)
  ultimately show ?thesis
    using assms(4) dec_request_json [OF assms(1-3)]
    by (simp add: read_challenge_request_def read_body_def next_value_def del: print_json.simps dec_struct.simps)
qed

definition sample_request :: challenge_request where
  "sample_request =
     \<lparr>cr_site_key = ''shop'', cr_action = ''login'', cr_hostname = ''shop.example'', cr_session_id = ''s1'',
      cr_telemetry = \<lparr>client = zero_client\<lparr>languages := [''en'', ''de''], hardware_concurrency := 8, wasm_mix := 7,
        performance_jitter := 0x3FF8000000000000\<rparr>\<rparr>\<rparr>"

definition sample_literal :: "f64 \<Rightarrow> string" where
  "sample_literal x = (if x = 0 then ''0'' else ''1.5'')"

lemma challenge_request_reads_back_witness:
  "\<exists>limit. read_challenge_request limit (print_json (request_json sample_literal sample_request no_extras) @ '' '', True)
       = GoodJson sample_request True
     \<and> read_challenge_request limit
         (print_json (request_json sample_literal sample_request (no_extras\<lparr>in_client := [(''mouse'', JNull)]\<rparr>)) @ '' '', True)
       = BadJson"
proof -
  let ?e = "no_extras\<lparr>in_client := [(''mouse'', JNull)]\<rparr>"
  let ?n = "\<lambda>e. length (print_json (request_json sample_literal sample_request e) @ '' '')"
  have typed: "request_typed sample_request"
    by (simp add: sample_request_def request_typed_def utf8_request_def client_typed_def behavior_typed_def zero_client_def
        zero_behavior_def ascii_simps int64_range_def f64_finite_iff f64_magnitude_def)
  have "writes sample_literal 0" "writes sample_literal 0x3FF8000000000000" by code_simp+
  then have floats: "list_all (writes sample_literal) (floats_of sample_request)"
    by (simp add: sample_request_def floats_of_def zero_client_def zero_behavior_def)
  have foreign: "foreign_extras no_extras" "foreign_extras ?e"
    by (simp_all add: foreign_extras_def no_extras_def foreign_def client_keys_def upper_byte_def ascii_simps)
  have ws: "list_all is_space '' ''" by (simp add: is_space_def)
  show ?thesis
    using challenge_request_reads_back [OF typed floats foreign(1) ws, of "int (max (?n no_extras) (?n ?e))"]
      challenge_request_reads_back [OF typed floats foreign(2) ws, of "int (max (?n no_extras) (?n ?e))"]
    by (intro exI [of _ "int (max (?n no_extras) (?n ?e))"] conjI) (simp_all add: no_extras_def del: print_json.simps)
qed

end
