(* ===== verification/AddrText.thy ===== *)
theory AddrText
  imports ClientAddr
begin

unbundle bit_operations_syntax

text \<open>
  The text of an address: \<open>ParseIP\<close> reads back what \<open>IP.String\<close> prints, for both families and with the
  double colon of IPv6. With it, two addresses have the same rate-limit prefix exactly when they lie in
  the same network.
\<close>

subsection \<open>Hexadecimal groups\<close>

lemma is_hex_digit: "d < 16 \<Longrightarrow> is_hex (hex_digit d)"
  by (simp add: is_hex_def hex_val_hex_digit)

lemma show_hex_digits: "list_all is_hex (show_hex n)"
proof (induction n rule: show_hex.induct)
  case (1 n)
  then show ?case by (subst show_hex.simps) (auto simp: is_hex_digit)
qed

lemma show_hex_not_Nil [simp]: "show_hex n \<noteq> []"
  by (subst show_hex.simps) simp

lemma read_show_hex: "read_hex (show_hex n) = n"
proof (induction n rule: show_hex.induct)
  case (1 n)
  then show ?case by (subst show_hex.simps) (auto simp: read_hex_def hex_val_hex_digit)
qed

lemma length_show_hex: "n < 16 ^ Suc k \<Longrightarrow> length (show_hex n) \<le> Suc k"
proof (induction k arbitrary: n)
  case 0
  then show ?case by (subst show_hex.simps) simp
next
  case (Suc k)
  then have "n div 16 < 16 ^ Suc k" by (simp add: div_less_iff_less_mult)
  from Suc.IH [OF this] show ?case by (subst show_hex.simps) simp
qed

lemma hex_not_sep: "is_hex c \<Longrightarrow> c \<noteq> CHR '':'' \<and> c \<noteq> CHR ''.'' \<and> c \<noteq> CHR ''%''"
  by (auto simp: is_hex_def hex_val_def Let_def)

definition word_of_group :: "nat \<Rightarrow> nat list" where
  "word_of_group g = [g div 256, g mod 256]"

definition group_bytes :: "nat list \<Rightarrow> nat list" where
  "group_bytes gs = concat (map word_of_group gs)"

lemma group_bytes_simps [simp]:
  "group_bytes [] = []" "group_bytes (g # gs) = word_of_group g @ group_bytes gs"
  "group_bytes (gs @ hs) = group_bytes gs @ group_bytes hs"
  "length (group_bytes gs) = 2 * length gs" "length (word_of_group g) = 2"
  by (simp_all add: group_bytes_def word_of_group_def length_concat comp_def sum_list_triv)

lemma group_bytes_zero: "group_bytes (replicate n 0) = replicate (2 * n) 0"
  by (induction n) (simp_all add: word_of_group_def)

lemma scan_group:
  assumes "rest = [] \<or> \<not> is_hex (hd rest)"
  shows "takeWhile is_hex (show_hex n @ rest) = show_hex n" "dropWhile is_hex (show_hex n @ rest) = rest"
proof -
  have all: "\<And>c. c \<in> set (show_hex n) \<Longrightarrow> is_hex c" using show_hex_digits by (simp add: list_all_iff)
  have "takeWhile is_hex rest = []" "dropWhile is_hex rest = rest" using assms by (cases rest; simp)+
  with all show "takeWhile is_hex (show_hex n @ rest) = show_hex n" "dropWhile is_hex (show_hex n @ rest) = rest"
    by (simp_all add: takeWhile_append2 dropWhile_append2)
qed

lemma colon_not_hex [simp]: "\<not> is_hex CHR '':''"
  by (simp add: is_hex_def hex_val_def)

lemma group_short: "n < 65536 \<Longrightarrow> length (show_hex n) \<le> 4"
  using length_show_hex [of n 3] by simp

text \<open>One turn of the loop on a printed group, by what follows it.\<close>

lemma v6_loop_last:
  "n < 65536 \<Longrightarrow> v6_loop (Suc k) acc ell (show_hex n) = Some (acc @ word_of_group n, ell, [])"
  using group_short [of n] scan_group [of "[]" n, unfolded append_Nil2]
  by (simp add: Let_def read_show_hex word_of_group_def scan_group [of "[]" n, unfolded append_Nil2])

lemma v6_loop_next:
  "n < 65536 \<Longrightarrow> c \<noteq> CHR '':'' \<Longrightarrow>
     v6_loop (Suc k) acc ell (show_hex n @ CHR '':'' # c # r) = v6_loop k (acc @ word_of_group n) ell (c # r)"
  using group_short [of n]
  by (simp add: Let_def read_show_hex word_of_group_def scan_group)

lemma v6_loop_gap_end:
  "n < 65536 \<Longrightarrow> v6_loop (Suc k) acc None (show_hex n @ ''::'')
     = Some (acc @ word_of_group n, Some (length acc + 2), [])"
  using group_short [of n]
  by (simp add: Let_def read_show_hex word_of_group_def scan_group)

lemma v6_loop_gap:
  "n < 65536 \<Longrightarrow> r \<noteq> [] \<Longrightarrow> v6_loop (Suc k) acc None (show_hex n @ ''::'' @ r)
     = v6_loop k (acc @ word_of_group n) (Some (length acc + 2)) r"
  using group_short [of n]
  by (simp add: Let_def read_show_hex word_of_group_def scan_group)

declare v6_loop.simps(2) [simp del]

subsection \<open>Groups with colons between them\<close>

definition tail_text :: "nat list \<Rightarrow> string" where
  "tail_text gs = concat (map (\<lambda>g. CHR '':'' # show_hex g) gs)"

fun groups_text :: "nat list \<Rightarrow> string" where
  "groups_text [] = []"
| "groups_text (g # gs) = show_hex g @ tail_text gs"

lemma tail_text_simps [simp]:
  "tail_text [] = []" "tail_text (g # gs) = CHR '':'' # groups_text (g # gs)"
  by (simp_all add: tail_text_def)

lemma groups_text_Nil_iff [simp]: "groups_text gs = [] \<longleftrightarrow> gs = []"
  by (cases gs) simp_all

lemma groups_text_hd: "\<exists>c r. groups_text (g # gs) = c # r \<and> c \<noteq> CHR '':''"
proof -
  obtain c r where "show_hex g = c # r" by (cases "show_hex g") auto
  moreover from this have "is_hex c" using show_hex_digits [of g] by simp
  ultimately show ?thesis using hex_not_sep by simp
qed

lemma v6_loop_groups:
  "gs \<noteq> [] \<Longrightarrow> length gs \<le> k \<Longrightarrow> \<forall>g\<in>set gs. g < 65536 \<Longrightarrow>
     v6_loop k acc ell (groups_text gs) = Some (acc @ group_bytes gs, ell, [])"
proof (induction gs arbitrary: k acc)
  case (Cons g gs)
  then obtain k' where k: "k = Suc k'" by (cases k) simp_all
  show ?case
  proof (cases gs)
    case Nil
    with Cons.prems k show ?thesis by (simp add: v6_loop_last)
  next
    case (Cons h hs)
    obtain c r where c: "groups_text gs = c # r" "c \<noteq> CHR '':''" using groups_text_hd [of h hs] Cons by auto
    have "v6_loop k acc ell (groups_text (g # gs)) = v6_loop k' (acc @ word_of_group g) ell (groups_text gs)"
      using Cons.prems c v6_loop_next [of g c k' acc ell r] by (simp add: k Cons)
    also have "\<dots> = Some ((acc @ word_of_group g) @ group_bytes gs, ell, [])"
      using Cons.prems k Cons by (intro Cons.IH) simp_all
    finally show ?thesis by simp
  qed
qed simp

lemma v6_loop_gap_groups:
  "gs \<noteq> [] \<Longrightarrow> length gs + length hs \<le> k \<Longrightarrow> \<forall>g\<in>set (gs @ hs). g < 65536 \<Longrightarrow>
     v6_loop k acc None (groups_text gs @ ''::'' @ groups_text hs)
       = Some (acc @ group_bytes gs @ group_bytes hs, Some (length acc + 2 * length gs), [])"
proof (induction gs arbitrary: k acc)
  case (Cons g gs)
  then obtain k' where k: "k = Suc k'" by (cases k) simp_all
  show ?case
  proof (cases gs)
    case Nil
    show ?thesis
    proof (cases "hs = []")
      case True
      with Cons.prems k Nil show ?thesis by (simp add: v6_loop_gap_end)
    next
      case False
      with Cons.prems k Nil show ?thesis by (simp add: v6_loop_gap v6_loop_groups del: append_Cons)
    qed
  next
    case (Cons h hs')
    obtain c r where c: "groups_text gs = c # r" "c \<noteq> CHR '':''" using groups_text_hd [of h hs'] Cons by auto
    have "v6_loop k acc None (groups_text (g # gs) @ ''::'' @ groups_text hs)
        = v6_loop k' (acc @ word_of_group g) None (groups_text gs @ ''::'' @ groups_text hs)"
      using Cons.prems c v6_loop_next [of g c k' acc None "r @ ''::'' @ groups_text hs"] by (simp add: k Cons)
    also have "\<dots> = Some ((acc @ word_of_group g) @ group_bytes gs @ group_bytes hs,
        Some (length (acc @ word_of_group g) + 2 * length gs), [])"
      using Cons.prems k Cons by (intro Cons.IH) simp_all
    finally show ?thesis by simp
  qed
qed simp

subsection \<open>What is printed\<close>

lemma emit_tail:
  assumes "length gs = 8" and "st < i \<or> 8 \<le> st" and "0 < i"
  shows "v6_emit st l gs i = tail_text (drop i gs)"
  using assms(2,3)
proof (induction "8 - i" arbitrary: i)
  case 0
  then show ?case using assms(1) by (subst v6_emit.simps) simp
next
  case (Suc d)
  then have i: "i < 8" "i \<noteq> st" by auto
  have "v6_emit st l gs (i + 1) = tail_text (drop (i + 1) gs)" using Suc by (intro Suc.hyps(1)) auto
  moreover have "drop i gs = gs ! i # drop (i + 1) gs" using i assms(1) by (simp add: Cons_nth_drop_Suc)
  ultimately show ?case using i Suc.prems by (subst v6_emit.simps) (simp add: tail_text_def)
qed

lemma emit_until:
  assumes "length gs = 8" and "st < 8" and "i \<le> st" and "0 < i"
  shows "v6_emit st l gs i = tail_text (take (st - i) (drop i gs)) @ v6_emit st l gs st"
  using assms(3,4)
proof (induction "st - i" arbitrary: i)
  case 0
  then show ?case by simp
next
  case (Suc d)
  then have i: "i < 8" "i \<noteq> st" "i < st" using assms(2) by auto
  have "v6_emit st l gs (i + 1) = tail_text (take (st - (i + 1)) (drop (i + 1) gs)) @ v6_emit st l gs st"
    using Suc by (intro Suc.hyps(1)) auto
  moreover have "take (st - i) (drop i gs) = gs ! i # take (st - (i + 1)) (drop (i + 1) gs)"
    using i assms(1) by (simp add: Suc_diff_Suc flip: Cons_nth_drop_Suc) (simp add: take_Suc_Cons flip: Suc_diff_Suc)
  moreover have "v6_emit st l gs i = '':'' @ show_hex (gs ! i) @ v6_emit st l gs (i + 1)"
    using i Suc.prems by (subst v6_emit.simps) simp
  ultimately show ?case by (simp add: tail_text_def)
qed

lemma emit_gap:
  assumes "length gs = 8" and "st < 8" and "0 < l"
  shows "v6_emit st l gs st = ''::'' @ groups_text (drop (st + l) gs)"
proof (cases "st + l < 8")
  case True
  then have "drop (st + l) gs = gs ! (st + l) # drop (st + l + 1) gs" using assms(1) by (simp add: Cons_nth_drop_Suc)
  with True assms show ?thesis by (subst v6_emit.simps) (simp add: emit_tail)
next
  case False
  with assms show ?thesis by (subst v6_emit.simps) simp
qed

lemma emit_all:
  assumes "length gs = 8" and "8 \<le> st"
  shows "v6_emit st l gs 0 = groups_text gs"
proof -
  obtain g gs' where gs: "gs = g # gs'" using assms(1) by (cases gs) auto
  have "v6_emit st l gs 0 = show_hex g @ v6_emit st l gs 1" using assms gs by (subst v6_emit.simps) simp
  with assms gs show ?thesis by (simp add: emit_tail)
qed

lemma emit_before:
  assumes "length gs = 8" and "0 < st" and "st < 8" and "0 < l"
  shows "v6_emit st l gs 0 = groups_text (take st gs) @ ''::'' @ groups_text (drop (st + l) gs)"
proof -
  obtain g gs' where gs: "gs = g # gs'" using assms(1) by (cases gs) auto
  have "v6_emit st l gs 0 = show_hex g @ v6_emit st l gs 1" using assms gs by (subst v6_emit.simps) simp
  also have "v6_emit st l gs 1 = tail_text (take (st - 1) gs') @ v6_emit st l gs st"
    using emit_until [of gs st 1 l] assms gs by simp
  finally show ?thesis
    using assms gs emit_gap [OF assms(1,3,4)] by (cases st) simp_all
qed

text \<open>The run that is left out: none, or zeros only.\<close>

definition zero_gap :: "nat list \<Rightarrow> nat \<times> nat \<Rightarrow> bool" where
  "zero_gap gs run \<longleftrightarrow>
     run = (255, 0) \<or> fst run < 8 \<and> 2 \<le> snd run \<and> fst run + snd run \<le> 8
       \<and> take (snd run) (drop (fst run) gs) = replicate (snd run) 0"

lemma zero_run_gap: "length gs = 8 \<Longrightarrow> i < 8 \<Longrightarrow> 2 \<le> zero_run gs i \<Longrightarrow> zero_gap gs (i, zero_run gs i)"
proof -
  assume gs: "length gs = 8" and i: "i < 8" "2 \<le> zero_run gs i"
  let ?ds = "drop i gs"
  let ?t = "takeWhile (\<lambda>g. g = 0) ?ds"
  have "take (length ?t) ?ds = ?t" by (rule takeWhile_eq_take [symmetric])
  moreover have "?t = replicate (length ?t) 0"
    by (intro replicate_eqI) (auto dest: set_takeWhileD)
  moreover have "length ?t \<le> 8 - i" using length_takeWhile_le [of "\<lambda>g. g = 0" ?ds] gs by simp
  ultimately show ?thesis using i by (simp add: zero_gap_def zero_run_def)
qed

lemma longest_run_gap:
  assumes "length gs = 8"
  shows "zero_gap gs (longest_run gs)"
proof -
  have "zero_gap gs (fold (\<lambda>i best. if zero_run gs i \<ge> 2 \<and> zero_run gs i > snd best then (i, zero_run gs i) else best)
      is best)" if "zero_gap gs best" "\<forall>i\<in>set is. i < 8" for "is" best
    using that by (induction "is" arbitrary: best) (simp_all add: zero_run_gap [OF assms])
  then show ?thesis unfolding longest_run_def by (simp add: zero_gap_def)
qed

lemma split_gap:
  assumes "length gs = 8" and "st + l \<le> 8" and "take l (drop st gs) = replicate l 0"
  shows "gs = take st gs @ replicate l 0 @ drop (st + l) gs"
  using assms by (metis add.commute append_take_drop_id drop_drop)

lemma gap_facts:
  assumes gs: "length gs = 8" "\<forall>g\<in>set gs. g < 65536"
    and st: "st < 8" "2 \<le> l" "st + l \<le> 8" "take l (drop st gs) = replicate l 0"
  shows "group_bytes gs = group_bytes (take st gs) @ replicate (2 * l) 0 @ group_bytes (drop (st + l) gs)"
    and "\<forall>g\<in>set (drop (st + l) gs). g < 65536" and "\<forall>g\<in>set (take st gs @ drop (st + l) gs). g < 65536"
    and "length (take st gs) = st" and "length (drop (st + l) gs) = 8 - (st + l)"
proof -
  show "group_bytes gs = group_bytes (take st gs) @ replicate (2 * l) 0 @ group_bytes (drop (st + l) gs)"
    by (subst split_gap [OF gs(1) st(3,4)]) (simp only: group_bytes_simps group_bytes_zero)
  show "\<forall>g\<in>set (drop (st + l) gs). g < 65536" "\<forall>g\<in>set (take st gs @ drop (st + l) gs). g < 65536"
    using gs(2) by (auto dest: in_set_dropD in_set_takeD)
  show "length (take st gs) = st" "length (drop (st + l) gs) = 8 - (st + l)" using gs(1) st by simp_all
qed

lemma parse_v6_gap_first:
  assumes gs: "length gs = 8" "\<forall>g\<in>set gs. g < 65536"
    and st: "st < 8" "2 \<le> l" "st + l \<le> 8" "take l (drop st gs) = replicate l 0"
    and zero: "st = 0"
  shows "parse_v6 (v6_emit st l gs 0) = Some (group_bytes gs)"
proof -
  let ?ds = "drop (st + l) gs"
  note f = gap_facts [OF gs st]
  note split = f(1) and small = f(2,3) and len = f(4,5)
  have t: "v6_emit st l gs 0 = ''::'' @ groups_text ?ds" using emit_gap [OF gs(1), of 0 l] st zero by simp
  show ?thesis
  proof (cases "?ds = []")
    case True
    then show ?thesis unfolding t using zero split len st by (simp add: parse_v6_def)
  next
    case False
    have "v6_loop 8 [] (Some 0) (groups_text ?ds) = Some ([] @ group_bytes ?ds, Some 0, [])"
      using False small(1) len by (intro v6_loop_groups) auto
    with False show ?thesis
      unfolding t using zero split len st by (simp add: parse_v6_def expand_ellipsis_def)
  qed
qed

lemma parse_v6_gap_later:
  assumes gs: "length gs = 8" "\<forall>g\<in>set gs. g < 65536"
    and st: "st < 8" "2 \<le> l" "st + l \<le> 8" "take l (drop st gs) = replicate l 0"
    and pos: "st \<noteq> 0"
  shows "parse_v6 (v6_emit st l gs 0) = Some (group_bytes gs)"
proof -
  let ?ds = "drop (st + l) gs"
  note f = gap_facts [OF gs st]
  note split = f(1) and small = f(2,3) and len = f(4,5)
  have t: "v6_emit st l gs 0 = groups_text (take st gs) @ ''::'' @ groups_text ?ds"
    using emit_before [OF gs(1), of st l] st pos by simp
  obtain g gs' where g: "take st gs = g # gs'" using len pos by (cases "take st gs") auto
  obtain c r where c: "groups_text (g # gs') = c # r" "c \<noteq> CHR '':''" using groups_text_hd by blast
  have "v6_emit st l gs 0 = c # r @ ''::'' @ groups_text ?ds" unfolding t g c(1) by simp
  then have "\<not> prefix ''::'' (v6_emit st l gs 0)" using c(2) by simp
  moreover have "v6_loop 8 [] None (v6_emit st l gs 0)
      = Some ([] @ group_bytes (take st gs) @ group_bytes ?ds, Some (length ([] :: nat list) + 2 * length (take st gs)), [])"
    unfolding t using small(2) len st g by (intro v6_loop_gap_groups) auto
  moreover have "expand_ellipsis ([] @ group_bytes (take st gs) @ group_bytes ?ds,
      Some (length ([] :: nat list) + 2 * length (take st gs)), []) = Some (group_bytes gs)"
    unfolding split using gs(1) st(1-3) by (simp add: expand_ellipsis_def) arith
  ultimately show ?thesis by (simp only: parse_v6_def if_False bind.bind_lunit)
qed

lemma parse_v6_emit:
  assumes gs: "length gs = 8" "\<forall>g\<in>set gs. g < 65536" and gap: "zero_gap gs (st, l)"
  shows "parse_v6 (v6_emit st l gs 0) = Some (group_bytes gs)"
proof (cases "st = 255")
  case True
  then have t: "v6_emit st l gs 0 = groups_text gs" using gs by (simp add: emit_all)
  obtain g gs' where g: "gs = g # gs'" using gs(1) by (cases gs) auto
  have "\<not> prefix ''::'' (groups_text gs)" using groups_text_hd [of g gs'] by (auto simp: g)
  moreover have "v6_loop 8 [] None (groups_text gs) = Some ([] @ group_bytes gs, None, [])"
    using gs g by (intro v6_loop_groups) auto
  ultimately show ?thesis unfolding t using gs(1) by (simp add: parse_v6_def expand_ellipsis_def)
next
  case False
  with gap have st: "st < 8" "2 \<le> l" "st + l \<le> 8" "take l (drop st gs) = replicate l 0"
    by (auto simp: zero_gap_def)
  then show ?thesis using parse_v6_gap_first [OF gs] parse_v6_gap_later [OF gs] by (cases "st = 0") simp_all
qed

subsection \<open>Round trip\<close>

lemma groups_facts: "length b = 2 * n \<Longrightarrow> length (groups b) = n \<and> (\<forall>g\<in>set (groups b). g < 65536)
    \<and> map word_of_nat (group_bytes (groups b)) = b"
proof (induction b arbitrary: n rule: groups.induct)
  case (1 x y r)
  have "unat x * 256 + unat y < 65536" using byte_le [of x] byte_le [of y] by linarith
  moreover have "(unat x * 256 + unat y) div 256 = unat x" "(unat x * 256 + unat y) mod 256 = unat y"
    using byte_le [of y] by (simp_all add: div_nat_eqI mod_less_eq_dividend)
  ultimately show ?case using 1 by (cases n) (auto simp: word_of_group_def)
qed auto

lemma tail_text_chars: "c \<in> set (tail_text gs) \<Longrightarrow> is_hex c \<or> c = CHR '':''"
  using show_hex_digits by (auto simp: tail_text_def list_all_iff split: if_splits)

lemma groups_text_chars: "c \<in> set (groups_text gs) \<Longrightarrow> is_hex c \<or> c = CHR '':''"
  using show_hex_digits tail_text_chars by (cases gs) (auto simp: list_all_iff)

lemma v6_emit_text:
  assumes "length gs = 8" and "zero_gap gs (st, l)"
  shows "CHR '':'' \<in> set (v6_emit st l gs 0) \<and> (\<forall>c\<in>set (v6_emit st l gs 0). is_hex c \<or> c = CHR '':'')"
proof (cases "st = 255")
  case True
  then have t: "v6_emit st l gs 0 = groups_text gs" using assms by (simp add: emit_all)
  obtain g h hs where "gs = g # h # hs" using assms(1) by (cases gs; cases "tl gs") auto
  then have "CHR '':'' \<in> set (groups_text gs)" by simp
  then show ?thesis unfolding t using groups_text_chars by blast
next
  case False
  with assms(2) have st: "st < 8" "0 < l" by (auto simp: zero_gap_def)
  have "\<exists>us vs. v6_emit st l gs 0 = groups_text us @ ''::'' @ groups_text vs"
  proof (cases "st = 0")
    case True
    then have "v6_emit st l gs 0 = groups_text [] @ ''::'' @ groups_text (drop (st + l) gs)"
      using emit_gap [OF assms(1), of st l] st by simp
    then show ?thesis by blast
  next
    case False
    then show ?thesis using emit_before [OF assms(1), of st l] st by blast
  qed
  then show ?thesis using groups_text_chars by fastforce
qed

lemma find_colon:
  "CHR '':'' \<in> set s \<Longrightarrow> \<forall>c\<in>set s. is_hex c \<or> c = CHR '':'' \<Longrightarrow> find (\<lambda>c. c \<in> set ''.:%'') s = Some CHR '':''"
proof (induction s)
  case (Cons c s)
  show ?case
  proof (cases "c = CHR '':''")
    case False
    with Cons.prems have "is_hex c" by simp
    then have "c \<notin> set ''.:%''" using hex_not_sep by simp
    with False Cons show ?thesis by simp
  qed simp
qed simp

lemma parse_addr_v6_string:
  assumes "length b = 16"
  shows "parse_addr (v6_string b) = Some (Inr (group_bytes (groups b)))"
proof -
  obtain st l where run: "longest_run (groups b) = (st, l)" by fastforce
  have g: "length (groups b) = 8" "\<forall>g\<in>set (groups b). g < 65536"
    using groups_facts [of b 8] assms by auto
  have gap: "zero_gap (groups b) (st, l)" using longest_run_gap [OF g(1)] run by simp
  have t: "v6_string b = v6_emit st l (groups b) 0" by (simp add: v6_string_def run Let_def)
  note chars = v6_emit_text [OF g(1) gap]
  have "CHR ''%'' \<notin> set (v6_emit st l (groups b) 0)" using chars hex_not_sep by blast
  then show ?thesis
    using find_colon chars parse_v6_emit [OF g gap] by (simp add: parse_addr_def t)
qed

lemma parse_ip_v6_string:
  assumes "length b = 16"
  shows "parse_ip (v6_string b) = Some b"
  using groups_facts [of b 8] assms by (simp add: parse_ip_def parse_addr_v6_string)

lemma to4_Some_16: "length ip = 16 \<Longrightarrow> to4 ip = Some u \<Longrightarrow> ip = v4_mapped @ u \<and> length u = 4"
proof -
  assume ip: "length ip = 16" "to4 ip = Some u"
  then have "take 12 ip = v4_mapped" "drop 12 ip = u" by (simp_all add: to4_def split: if_splits)
  moreover have "ip = take 12 ip @ drop 12 ip" by simp
  ultimately show ?thesis using to4_length [OF ip(2)] by argo
qed

lemma parse_ip_string:
  assumes "length ip = 16"
  shows "parse_ip (ip_string ip) = Some ip"
proof (cases "to4 ip")
  case None
  then show ?thesis using parse_ip_v6_string [OF assms] by (simp add: ip_string_def)
next
  case (Some u)
  note u = to4_Some_16 [OF assms Some]
  have "ip_string ip = v4_string u" by (simp add: ip_string_def Some)
  then show ?thesis using u parse_ip_v4_string [of u] by simp
qed

lemma ip_string_inject:
  assumes "length a = 16" and "length b = 16" and "ip_string a = ip_string b"
  shows "a = b"
proof -
  have "parse_ip (ip_string b) = Some a" unfolding assms(3) [symmetric] by (rule parse_ip_string [OF assms(1)])
  with parse_ip_string [OF assms(2)] show ?thesis by (simp only: option.inject)
qed

subsection \<open>Prefixes are networks\<close>

lemma mask_56: "cidr_mask 56 16 = replicate 7 0xFF @ replicate 9 0"
  by code_simp

lemma and_ones: "length xs = n \<Longrightarrow> map2 (AND) xs (replicate n (0xFF :: byte)) = xs"
proof -
  have ff: "(0xFF :: byte) = - 1" by simp
  show "length xs = n \<Longrightarrow> map2 (AND) xs (replicate n (0xFF :: byte)) = xs"
    by (induction xs arbitrary: n) (auto simp: ff)
qed

lemma and_zeros: "length xs = n \<Longrightarrow> map2 (AND) xs (replicate n (0 :: byte)) = replicate n 0"
  by (induction xs arbitrary: n) auto

lemma masked_56: "length x = 16 \<Longrightarrow> map2 (AND) x (cidr_mask 56 16) = take 7 x @ replicate 9 0"
proof -
  assume x: "length x = 16"
  have "map2 (AND) (take 7 x @ drop 7 x) (replicate 7 0xFF @ replicate 9 (0 :: byte)) = take 7 x @ replicate 9 0"
    using x by (subst zip_append) (simp_all add: and_ones and_zeros)
  then show ?thesis by (simp add: mask_56)
qed

lemma ip_mask_56:
  "length a = 16 \<Longrightarrow> ip_mask a (cidr_mask 56 16) = Some (take 7 a @ replicate 9 0)"
  using masked_56 [of a] by (simp add: ip_mask_def mask_56)

lemma hex_no_slash: "is_hex c \<Longrightarrow> c \<noteq> CHR ''/''"
  by (auto simp: is_hex_def hex_val_def Let_def)

lemma ip_string_no_slash: "length ip = 16 \<Longrightarrow> CHR ''/'' \<notin> set (ip_string ip)"
proof (cases "to4 ip")
  case None
  assume "length ip = 16"
  then have "length (groups ip) = 8" using groups_facts [of ip 8] by simp
  moreover obtain st l where run: "longest_run (groups ip) = (st, l)" by fastforce
  ultimately have "\<forall>c\<in>set (v6_emit st l (groups ip) 0). is_hex c \<or> c = CHR '':''"
    using v6_emit_text [of "groups ip" st l] longest_run_gap [of "groups ip"] by simp
  then have "CHR ''/'' \<notin> set (v6_emit st l (groups ip) 0)" using hex_no_slash by fastforce
  then show ?thesis using run None by (simp add: ip_string_def v6_string_def Let_def)
next
  case (Some u)
  have "CHR ''/'' \<notin> set (show_nat n)" for n
    using show_nat_digits [of n] by (auto simp: list_all_iff is_digit_def digit_val_def)
  then show ?thesis using Some by (simp add: ip_string_def v4_string_def)
qed

lemma append_slash_inject:
  "CHR ''/'' \<notin> set s \<Longrightarrow> CHR ''/'' \<notin> set t \<Longrightarrow> s @ CHR ''/'' # u = t @ CHR ''/'' # v \<longleftrightarrow> s = t \<and> u = v"
  by (induction s arbitrary: t) (case_tac t; auto)+

text \<open>The network of an address: 24 bits of an IPv4 address, 56 of an IPv6 one, the rest zero.\<close>

definition network_base :: "bytes \<Rightarrow> bytes" where
  "network_base a =
     (case to4 a of Some u \<Rightarrow> v4_mapped @ take 3 u @ [0] | None \<Rightarrow> take 7 a @ replicate 9 0)"

lemma prefix_text:
  assumes "parse_ip (trim_space s) = Some a"
  shows "ip_prefix s = ip_string (network_base a) @ CHR ''/'' # (if to4 a = None then ''56'' else ''24'')"
proof (cases "to4 a")
  case None
  then show ?thesis
    using assms parse_ip_length [OF assms] by (simp add: ip_prefix_def network_base_def ip_mask_56)
next
  case (Some u)
  then have u: "take 3 u = [u ! 0, u ! 1, u ! 2]"
    using to4_length [OF Some] by (auto simp: numeral_eq_Suc length_Suc_conv)
  show ?thesis using assms Some by (simp add: ip_prefix_def network_base_def u)
qed

lemma length_network_base: "length a = 16 \<Longrightarrow> length (network_base a) = 16"
  by (auto simp: network_base_def v4_mapped_def dest: to4_length split: option.split)

lemma same_network_base:
  "length a = 16 \<Longrightarrow> length b = 16 \<Longrightarrow>
     same_network a b \<longleftrightarrow> network_base a = network_base b \<and> (to4 a = None \<longleftrightarrow> to4 b = None)"
  by (auto simp: same_network_def network_base_def split: option.split)

text \<open>C30. Two addresses share a rate limit and a token binding exactly when they lie in the same network:
  the same \<open>/24\<close> of IPv4 or the same \<open>/56\<close> of IPv6, however they are written.\<close>

theorem same_prefix_iff:
  assumes "parse_ip (trim_space s) = Some a" and "parse_ip (trim_space t) = Some b"
  shows "(ip_prefix s = ip_prefix t \<longleftrightarrow> same_network a b)
    \<and> (same_network a b \<longrightarrow> bind_ip secret s = bind_ip secret t)"
proof -
  note len = parse_ip_length [OF assms(1)] parse_ip_length [OF assms(2)]
  note base = length_network_base [OF len(1)] length_network_base [OF len(2)]
  have "ip_prefix s = ip_prefix t \<longleftrightarrow>
      ip_string (network_base a) = ip_string (network_base b) \<and> (to4 a = None \<longleftrightarrow> to4 b = None)"
    unfolding prefix_text [OF assms(1)] prefix_text [OF assms(2)]
      append_slash_inject [OF ip_string_no_slash [OF base(1)] ip_string_no_slash [OF base(2)]] by auto
  also have "\<dots> \<longleftrightarrow> same_network a b"
    unfolding same_network_base [OF len] using ip_string_inject [OF base] by auto
  finally show ?thesis using bind_ip_prefix by blast
qed

lemma same_prefix_iff_witness:
  "ip_prefix ''192.0.2.7'' = ip_prefix ''192.0.2.250'' \<and> ip_prefix ''192.0.2.7'' \<noteq> ip_prefix ''192.0.3.7''"
proof -
  have "trim_space ''192.0.2.7'' = ''192.0.2.7''" "trim_space ''192.0.2.250'' = ''192.0.2.250''"
    "trim_space ''192.0.3.7'' = ''192.0.3.7''" by code_simp+
  moreover have "''192.0.2.7'' = v4_string [192, 0, 2, 7]" "''192.0.2.250'' = v4_string [192, 0, 2, 250]"
    "''192.0.3.7'' = v4_string [192, 0, 3, 7]" by code_simp+
  ultimately have p: "parse_ip (trim_space ''192.0.2.7'') = Some (v4_mapped @ [192, 0, 2, 7])"
    "parse_ip (trim_space ''192.0.2.250'') = Some (v4_mapped @ [192, 0, 2, 250])"
    "parse_ip (trim_space ''192.0.3.7'') = Some (v4_mapped @ [192, 0, 3, 7])"
    by (simp_all only: parse_ip_v4_string length_Cons list.size)
  show ?thesis
    using same_prefix_iff [OF p(1,2)] same_prefix_iff [OF p(1,3)] by (simp add: same_network_def)
qed

subsection \<open>The text of a prefix\<close>

lemma parse_addr_v4_string: "length b = 4 \<Longrightarrow> parse_addr (v4_string b) = Some (Inl (map unat b))"
proof -
  assume b: "length b = 4"
  have "find (\<lambda>c. c \<in> set ''.:%'') (v4_string b) = Some CHR ''.''"
    using v4_digits_first by (simp add: v4_string_def)
  then show ?thesis using b v4_string_no_percent by (simp add: parse_addr_def parse_v4_v4_string)
qed

lemma mask_24: "cidr_mask 24 4 = [0xFF, 0xFF, 0xFF, 0]"
  by code_simp

lemma masked_24: "length x = 4 \<Longrightarrow> map2 (AND) x (cidr_mask 24 4) = take 3 x @ [0]"
proof -
  assume x: "length x = 4"
  have "map2 (AND) (take 3 x @ drop 3 x) (replicate 3 0xFF @ replicate 1 (0 :: byte)) = take 3 x @ replicate 1 0"
    using x and_zeros [of "drop 3 x" 1] by (subst zip_append) (simp_all add: and_ones)
  moreover have "cidr_mask 24 4 = replicate 3 0xFF @ replicate 1 0" by code_simp
  ultimately show ?thesis by simp
qed

lemma index_byte_first: "c \<notin> set s \<Longrightarrow> index_byte c (s @ c # t) = Some (length s)"
  by (induction s) auto

lemma base_not_mapped: "length a = 16 \<Longrightarrow> to4 (take 7 a @ replicate 9 0) = None"
proof -
  assume a: "length a = 16"
  have "(take 12 (take 7 a @ replicate 9 (0 :: byte))) ! 11 \<noteq> v4_mapped ! 11"
    using a by (simp add: nth_append v4_mapped_def)
  then have "take 12 (take 7 a @ replicate 9 (0 :: byte)) \<noteq> v4_mapped" by metis
  then show ?thesis using a by (simp add: to4_def)
qed

lemma cidr_text:
  assumes "CHR ''/'' \<notin> set addr" and "m \<noteq> []" and "list_all is_digit m"
  shows "parse_cidr (addr @ CHR ''/'' # m) = Option.bind (parse_addr addr) (\<lambda>a.
     let len = (case a of Inl _ \<Rightarrow> 4 | Inr _ \<Rightarrow> 16);
         ip = case_sum (\<lambda>v4. v4_mapped @ map word_of_nat v4) (map word_of_nat) a
     in if read_nat m > 8 * len then None
        else map_option (\<lambda>b. \<lparr>net_ip = b, net_mask = cidr_mask (read_nat m) len\<rparr>) (ip_mask ip (cidr_mask (read_nat m) len)))"
  using assms by (simp add: parse_cidr_def index_byte_first Let_def split: option.split)

lemma read_digits: "read_nat ''24'' = 24" "read_nat ''56'' = 56"
  by (simp_all add: read_nat_def)

lemma digits_ok: "list_all is_digit ''24''" "list_all is_digit ''56''"
  by (simp_all add: is_digit_def digit_val_def)

text \<open>The prefix of a client address is the CIDR notation of a network: it parses, contains the address,
  and contains exactly the addresses of the same \<open>/24\<close> or \<open>/56\<close>.\<close>

theorem prefix_is_network:
  assumes "parse_ip (trim_space s) = Some a"
  shows "\<exists>n. parse_cidr (ip_prefix s) = Some n \<and> net_contains n a
    \<and> (\<forall>b. length b = 16 \<longrightarrow> net_contains n b = same_network a b)"
proof (cases "to4 a")
  case (Some u)
  have u: "length u = 4" using to4_length [OF Some] .
  let ?v = "take 3 u @ [0]"
  have base: "network_base a = v4_mapped @ ?v" "length ?v = 4" using u by (simp_all add: network_base_def Some)
  then have str: "ip_string (network_base a) = v4_string ?v" by (simp add: ip_string_def)
  have slash: "CHR ''/'' \<notin> set (v4_string ?v)"
    using ip_string_no_slash [of "v4_mapped @ ?v"] base by (simp add: ip_string_def)
  let ?n = "\<lparr>net_ip = ?v, net_mask = cidr_mask 24 4\<rparr>"
  have "ip_mask (v4_mapped @ ?v) (cidr_mask 24 4) = Some ?v"
    using base(2) masked_24 [of ?v] by (simp add: ip_mask_def mask_24)
  then have "parse_cidr (ip_prefix s) = Some ?n"
    unfolding prefix_text [OF assms] str
    using cidr_text [OF slash, of "''24''"] parse_addr_v4_string [OF base(2)] digits_ok
    by (simp add: Some read_digits comp_def)
  moreover have "net_contains ?n b = same_network a b" if "length b = 16" for b
    using that u masked_24 [of ?v] masked_24 to4_length [of b]
    by (auto simp: net_contains_def same_network_def Some to4_def [of ?v] mask_24 split: option.split)
  moreover have "same_network a a" by (simp add: same_network_def Some)
  ultimately show ?thesis using parse_ip_length [OF assms] by blast
next
  case None
  have a: "length a = 16" by (rule parse_ip_length [OF assms])
  let ?v = "take 7 a @ replicate 9 0"
  have v: "length ?v = 16" using a by simp
  have base: "network_base a = ?v" by (simp add: network_base_def None)
  have str: "ip_string (network_base a) = v6_string ?v" by (simp add: base ip_string_def base_not_mapped [OF a])
  have slash: "CHR ''/'' \<notin> set (v6_string ?v)"
    using ip_string_no_slash [of ?v] v by (simp add: ip_string_def base_not_mapped [OF a])
  let ?n = "\<lparr>net_ip = ?v, net_mask = cidr_mask 56 16\<rparr>"
  have again: "map word_of_nat (group_bytes (groups ?v)) = ?v" using groups_facts [of ?v 8] v by simp
  have "ip_mask ?v (cidr_mask 56 16) = Some ?v" using ip_mask_56 [OF v] a by simp
  then have "parse_cidr (ip_prefix s) = Some ?n"
    unfolding prefix_text [OF assms] str
    using cidr_text [OF slash, of "''56''"] parse_addr_v6_string [OF v] digits_ok again
    by (simp add: None read_digits del: take_append)
  moreover have "net_contains ?n b = same_network a b" if "length b = 16" for b
    using that a masked_56 [OF v] masked_56 [OF that] to4_length [of b] base_not_mapped [OF a]
    by (auto simp: net_contains_def same_network_def None mask_56 split: option.split)
  moreover have "same_network a a" by (simp add: same_network_def None)
  ultimately show ?thesis using a by blast
qed

lemma prefix_is_network_witness:
  "\<exists>n. parse_cidr (ip_prefix ''192.0.2.7'') = Some n \<and> net_contains n (v4_mapped @ [192, 0, 2, 200])
     \<and> \<not> net_contains n (v4_mapped @ [192, 0, 3, 7])"
proof -
  have "trim_space ''192.0.2.7'' = ''192.0.2.7''" by code_simp
  moreover have "''192.0.2.7'' = v4_string [192, 0, 2, 7]" by code_simp
  ultimately have "parse_ip (trim_space ''192.0.2.7'') = Some (v4_mapped @ [192, 0, 2, 7])"
    by (simp only: parse_ip_v4_string length_Cons list.size)
  from prefix_is_network [OF this] show ?thesis by (auto simp: same_network_def)
qed

end
