(* ===== verification/Programs.thy ===== *)
theory Programs
  imports Scorers
begin

text \<open>
  The handlers of \<open>server.go\<close> as programs: what a request does to the state it shares with other requests, one
  atomic access after the other. Go serves every request in a goroutine of its own; the store is
  accessed under its mutex and the counters are atomic, so an access is the unit of interleaving.
  Run without interruption, a program does what the handler in theory \<open>Server\<close> does.
\<close>

subsection \<open>Programs\<close>

datatype prog =
    Halt writer
  | Count "metrics \<Rightarrow> metrics" prog
  | Load "metrics \<Rightarrow> 64 word" "64 word \<Rightarrow> prog"
  | Access store_op "store_answer \<Rightarrow> prog"

primrec run_prog :: "prog \<Rightarrow> server \<Rightarrow> server \<times> writer" where
  "run_prog (Halt w) = (\<lambda>s. (s, w))"
| "run_prog (Count f p) = (\<lambda>s. run_prog p (count f s))"
| "run_prog (Load g k) = (\<lambda>s. run_prog (k (g (stats s))) s)"
| "run_prog (Access x k) = (\<lambda>s. run_prog (k (fst (perform x (store s)))) (s\<lparr>store := snd (perform x (store s))\<rparr>))"

text \<open>Every access of the program has the property.\<close>

primrec accesses :: "(store_op \<Rightarrow> bool) \<Rightarrow> prog \<Rightarrow> bool" where
  "accesses P (Halt w) = True"
| "accesses P (Count f p) = accesses P p"
| "accesses P (Load g k) = (\<forall>v. accesses P (k v))"
| "accesses P (Access x k) = (P x \<and> (\<forall>a. accesses P (k a)))"

subsection \<open>The handlers\<close>

text \<open>The answer of an access is of the kind the operation gives, so the last equations never apply.\<close>

fun flag_of :: "store_answer \<Rightarrow> bool" where
  "flag_of (Flag b) = b"
| "flag_of _ = False"

fun found_of :: "store_answer \<Rightarrow> challenge option" where
  "found_of (Found c) = c"
| "found_of _ = None"

fun rated_of :: "store_answer \<Rightarrow> bool \<times> int" where
  "rated_of (Rated b n) = (b, n)"
| "rated_of _ = (False, 0)"

definition answer_prog ::
  "world \<Rightarrow> challenge_request \<Rightarrow> string \<Rightarrow> site \<Rightarrow> string \<Rightarrow> risk_decision \<Rightarrow> server \<Rightarrow> writer \<Rightarrow> prog" where
  "answer_prog wd req hostname site ip decision s w =
     (let ip_bind = binding_of s site ip in
      if rd_decision decision = ''block''
      then Count inc_blocked (Halt
             (write_json 403 (ChallengeBody (empty_challenge_response\<lparr>resp_decision := ''block''\<rparr>)) w))
      else if rd_decision decision = ''allow''
      then Count inc_allowed
             (case mint (random wd 0) (clock wd 1) (signer s) (site_key site) (cr_action req)
                     hostname ip_bind ''passive'' (rd_score decision) (ttl_of (token_ttl_seconds site)) of
                Inl _ \<Rightarrow> Halt (write_error 500 ''internal-error'' w)
              | Inr (tok, _) \<Rightarrow> Halt (write_json 200 (ChallengeBody
                    (empty_challenge_response\<lparr>resp_decision := ''allow'', resp_token := tok\<rparr>)) w))
      else if rd_decision decision = ''pow'' \<or> rd_decision decision = ''interactive''
      then Count (if rd_decision decision = ''pow'' then inc_pow else inc_interactive)
             (case new_challenge (random wd 0) (random wd 1) (clock wd 1) (rd_decision decision)
                     (site_key site) (cr_action req) hostname (cr_session_id req) ip_bind
                     (rd_score decision) (rd_tags decision) (ttl_of (challenge_ttl_seconds site)) of
                Inl _ \<Rightarrow> Halt (write_error 500 ''internal-error'' w)
              | Inr c \<Rightarrow> Access (Put (clock wd 2) c) (\<lambda>_. Halt
                  (write_json 200 (ChallengeBody
                     \<lparr>resp_decision = rd_decision decision, resp_challenge_id = ch_id c,
                      resp_kind = ch_kind c, resp_expires_at = ch_expires_at c,
                      resp_params = ch_params c, resp_token = []\<rparr>) w)))
      else Halt (write_error 500 ''invalid-decision'' w))"

definition issue_prog ::
  "world \<Rightarrow> http_request \<Rightarrow> challenge_request decoded \<Rightarrow> server \<Rightarrow> writer \<Rightarrow> prog" where
  "issue_prog wd r body s w0 = Count inc_requests
     (case decode_json body w0 of
        Inl w' \<Rightarrow> Halt w'
      | Inr req \<Rightarrow>
          (case registry_get (rt_sites (cfg s)) (cr_site_key req) of
             None \<Rightarrow> Halt (write_error 400 ''invalid-site-key'' w0)
           | Some site \<Rightarrow>
               if \<not> action_ok (cr_action req) then Halt (write_error 400 ''invalid-action'' w0)
               else if \<not> allows_hostname (lower wd) site (cr_hostname req)
               then Halt (write_error 400 ''hostname-not-allowed'' w0)
               else let hostname = normalize_hostname (lower wd) (cr_hostname req) in
                 if cr_session_id req = [] \<or> length (cr_session_id req) > 128
                 then Halt (write_error 400 ''invalid-session-id'' w0)
                 else if \<not> origin_allowed_for_hostname wd r site hostname
                 then Halt (write_error 403 ''origin-not-allowed'' w0)
                 else let w = set_cors r w0; ip = network_of s r in
                   Access (Rate (clock wd 0) (rate_key site ip (cr_action req)) (rate_limit_per_minute site) minute)
                     (\<lambda>a. if \<not> fst (rated_of a)
                           then Count inc_rate_limited (Halt (write_error 429 ''rate-limited'' w))
                           else Count inc_challenges (answer_prog wd req hostname site ip
                                  (run_scorer wd (scorer s) (risk_input_of s wd r req ip (snd (rated_of a))) site) s w))))"

definition redeem_prog ::
  "world \<Rightarrow> site \<Rightarrow> challenge \<Rightarrow> string \<Rightarrow> challenge_proof \<Rightarrow> server \<Rightarrow> writer \<Rightarrow> prog" where
  "redeem_prog wd site c cid pf s w =
     (case verify_challenge_proof (clock wd 1) (clock wd 2) c pf of
        Inl _ \<Rightarrow> Access (Fail cid 3) (\<lambda>_. Halt
           (write_json 400 (VerifyBody \<lparr>vr_success = False, vr_token = [], vr_error = ''invalid-proof''\<rparr>) w))
      | Inr _ \<Rightarrow> Access (Consume cid) (\<lambda>a.
           if \<not> flag_of a then Halt (write_error 400 ''challenge-already-consumed'' w)
           else (case mint (random wd 0) (clock wd 3) (signer s) (ch_site_key c) (ch_action c)
                        (ch_hostname c) (ch_ip_bind c) (ch_kind c) (ch_risk_score c)
                        (ttl_of (token_ttl_seconds site)) of
                   Inl _ \<Rightarrow> Halt (write_error 500 ''internal-error'' w)
                 | Inr (tok, _) \<Rightarrow> Halt (write_json 200
                     (VerifyBody \<lparr>vr_success = True, vr_token = tok, vr_error = []\<rparr>) w))))"

text \<open>What follows the look-up of the challenge.\<close>

definition found_prog ::
  "world \<Rightarrow> http_request \<Rightarrow> verify_challenge_request decoded \<Rightarrow> server \<Rightarrow> writer \<Rightarrow> store_answer \<Rightarrow> prog" where
  "found_prog wd r body s w a =
     (case found_of a of
        None \<Rightarrow> Halt (write_error 400 ''challenge-not-found-or-expired'' w)
      | Some c \<Rightarrow>
          (case registry_get (rt_sites (cfg s)) (ch_site_key c) of
             None \<Rightarrow> Halt (write_error 400 ''invalid-site-key'' w)
           | Some site \<Rightarrow>
               if \<not> origin_allowed_for_hostname wd r site (ch_hostname c)
               then Halt (write_error 403 ''origin-not-allowed'' w)
               else let w1 = set_cors r w; ip = network_of s r; cid = path_id r in
                 if bind_ip_prefix site \<and> bind_ip (ip_binding_secret (cfg s)) ip \<noteq> ch_ip_bind c
                 then Access (Fail cid 3) (\<lambda>_. Halt (write_error 400 ''network-binding-mismatch'' w1))
                 else (case decode_json body w1 of
                         Inl w2 \<Rightarrow> Halt w2
                       | Inr req \<Rightarrow>
                           if vc_session_id req = [] \<or> vc_session_id req \<noteq> ch_session_id c
                           then Access (Fail cid 3) (\<lambda>_. Halt (write_error 400 ''session-binding-mismatch'' w1))
                           else redeem_prog wd site c cid (vc_proof req) s w1)))"

definition verify_prog ::
  "world \<Rightarrow> http_request \<Rightarrow> verify_challenge_request decoded \<Rightarrow> server \<Rightarrow> writer \<Rightarrow> prog" where
  "verify_prog wd r body s w = Count inc_requests
     (let cid = path_id r in
      if cid = [] \<or> length cid > 96 then Halt (write_error 400 ''invalid-challenge-id'' w)
      else Access (Get (clock wd 0) cid) (found_prog wd r body s w))"

definition refuse_prog :: "int \<Rightarrow> string \<Rightarrow> writer \<Rightarrow> prog" where
  "refuse_prog st code w = Count inc_failure (Halt (write_json st (SiteVerifyBody (failed_site_verify code)) w))"

definition site_prog :: "world \<Rightarrow> http_request \<Rightarrow> site_verify_body \<Rightarrow> server \<Rightarrow> writer \<Rightarrow> prog" where
  "site_prog wd r body s w = Count inc_requests
     (case parse_site_verify wd r body of
        None \<Rightarrow> refuse_prog 400 ''bad-request'' w
      | Some q \<Rightarrow>
          (case registry_get_by_secret (site_order wd) (rt_sites (cfg s)) (sv_secret q) of
             None \<Rightarrow> refuse_prog 200 ''invalid-input-secret'' w
           | Some site \<Rightarrow>
               (case verify_token (signer s) (sv_response q) (clock wd 0) of
                  Inl e \<Rightarrow> refuse_prog 200
                      (if sublist ''expired'' (token_error_text e) then ''timeout-or-duplicate''
                       else ''invalid-input-response'') w
                | Inr c \<Rightarrow>
                    (case site_verify_mismatch wd s site q c of
                       Some code \<Rightarrow> refuse_prog 200 code w
                     | None \<Rightarrow> Access (Spend (clock wd 1) (tc_jti c) (time_unix (tc_expires_at c))) (\<lambda>a.
                         if \<not> flag_of a
                         then Count inc_replays (refuse_prog 200 ''timeout-or-duplicate'' w)
                         else Count inc_success (Halt
                                (write_json 200 (SiteVerifyBody (accepted_site_verify c)) w)))))))"

text \<open>The report loads the counters one after the other, so it need not show one moment.\<close>

definition metrics_prog :: "writer \<Rightarrow> prog" where
  "metrics_prog w =
     Load m_requests (\<lambda>n0. Load m_challenges (\<lambda>n1. Load m_allowed (\<lambda>n2. Load m_pow (\<lambda>n3.
     Load m_interactive (\<lambda>n4. Load m_blocked (\<lambda>n5. Load m_verify_success (\<lambda>n6.
     Load m_verify_failure (\<lambda>n7. Load m_replays (\<lambda>n8. Load m_rate_limited (\<lambda>n9.
       Halt (metrics_handler
         \<lparr>m_requests = n0, m_challenges = n1, m_allowed = n2, m_pow = n3, m_interactive = n4,
          m_blocked = n5, m_verify_success = n6, m_verify_failure = n7, m_replays = n8,
          m_rate_limited = n9\<rparr> w)))))))))))"

definition call_prog :: "world \<Rightarrow> call \<Rightarrow> server \<Rightarrow> prog" where
  "call_prog wd k s =
     (let w = security (call_path k) fresh_writer in
      case k of
        Health \<Rightarrow> Halt (health w)
      | MetricsReport \<Rightarrow> metrics_prog w
      | IssueChallenge r b \<Rightarrow> issue_prog wd r b s w
      | VerifyChallenge r b \<Rightarrow> verify_prog wd r b s w
      | Preflight r \<Rightarrow> Halt (options r w)
      | SiteVerify r b \<Rightarrow> site_prog wd r b s w)"

subsection \<open>Alone, a program is its handler\<close>

lemma run_answer_prog:
  "same_setup s t \<Longrightarrow> run_prog (answer_prog wd req h site ip d s w) t = answer_decision wd req h site ip d t w"
  by (simp add: answer_prog_def answer_decision_def binding_of_def same_setup_def Let_def
      split: sum.split prod.split)

lemma run_issue_prog: "same_setup s t \<Longrightarrow> run_prog (issue_prog wd r b s w) t = issue_challenge wd r b t w"
proof -
  assume st: "same_setup s t"
  have *: "run_prog (answer_prog wd req h site ip d s v) (count f (u\<lparr>store := m\<rparr>))
      = answer_decision wd req h site ip d (count f (u\<lparr>store := m\<rparr>)) v" if "same_setup s u" for req h site ip d f m u v
    using that by (intro run_answer_prog) (simp add: same_setup_def)
  show ?thesis
    using st * [of "count inc_requests t"]
    by (simp add: issue_prog_def issue_challenge_def admit_challenge_def same_setup_def network_of_def
        risk_input_of_def Let_def split: sum.split option.split prod.split)
qed

lemma run_redeem_prog:
  "same_setup s t \<Longrightarrow> run_prog (redeem_prog wd site c cid pf s w) t = redeem_challenge wd site c cid pf t w"
  by (simp add: redeem_prog_def redeem_challenge_def same_setup_def Let_def split: sum.split prod.split)

lemma same_setup_store [simp]:
  "same_setup s (t\<lparr>store := m\<rparr>) = same_setup s t" "same_setup s (count f t) = same_setup s t"
  by (simp_all add: same_setup_def)

lemma same_setupD: "same_setup s t \<Longrightarrow> cfg t = cfg s" "same_setup s t \<Longrightarrow> signer t = signer s"
  by (simp_all add: same_setup_def)

lemma run_verify_prog: "same_setup s t \<Longrightarrow> run_prog (verify_prog wd r body s w) t = verify_challenge wd r body t w"
  by (simp add: verify_prog_def found_prog_def verify_challenge_def same_setupD network_of_def run_redeem_prog Let_def
      split: sum.split option.split prod.split)

lemma run_site_prog: "same_setup s t \<Longrightarrow> run_prog (site_prog wd r body s w) t = site_verify wd r body t w"
proof -
  assume st: "same_setup s t"
  have "site_verify_mismatch wd t site q c = site_verify_mismatch wd s site q c" for site q c
    using st by (simp add: site_verify_mismatch_def same_setup_def)
  then show ?thesis
    using st by (simp add: site_prog_def site_verify_def refuse_prog_def refuse_site_verify_def same_setupD Let_def
        split: sum.split option.split prod.split)
qed

lemma run_call_prog: "same_setup s t \<Longrightarrow> run_prog (call_prog wd k s) t = serve wd k t"
  by (cases k) (simp_all add: call_prog_def serve_def handle_call_def metrics_prog_def
      run_issue_prog run_verify_prog run_site_prog metrics_handler_def metrics_text_def metric_lines_def)

text \<open>The concurrent and the sequential reading of a handler agree: run without interruption, the program of a
  request leaves the server and writes the answer that its handler does.\<close>

theorem program_is_handler: "run_prog (call_prog wd k s) s = serve wd k s"
  by (rule run_call_prog) simp

subsection \<open>The accesses of a request\<close>

lemma accesses_mono: "accesses P p \<Longrightarrow> (\<And>x. P x \<Longrightarrow> Q x) \<Longrightarrow> accesses Q p"
  by (induction p) auto

lemma answer_prog_accesses: "accesses (handler_op wd) (answer_prog wd req h site ip d s w)"
  by (auto simp: answer_prog_def Let_def dest: new_challenge_fresh split: sum.split)

lemma redeem_prog_accesses: "accesses (handler_op wd) (redeem_prog wd site c cid pf s w)"
  by (simp add: redeem_prog_def split: sum.split)

lemma call_prog_accesses: "accesses (handler_op wd) (call_prog wd k s)"
  by (cases k) (simp_all add: call_prog_def metrics_prog_def issue_prog_def verify_prog_def found_prog_def site_prog_def refuse_prog_def
      answer_prog_accesses redeem_prog_accesses Let_def split: sum.split option.split)

end
