(* ===== verification/Concurrency.thy ===== *)
theory Concurrency
  imports Programs
begin

text \<open>
  Requests served at the same time. Every request runs its program; a step of the system is one access of one
  of them, in any order. Which clocks and random values a request meets is part of the request, so the
  runs below cover every timing. The store sees one sequence of operations, whoever issues them:
  what theory \<open>Store\<close> proves of such sequences carries over.
\<close>

subsection \<open>Runs of the system\<close>

datatype label = Did nat store_op store_answer | Tau nat

type_synonym system = "server \<times> (nat \<Rightarrow> prog)"

inductive tick :: "system \<Rightarrow> label \<Rightarrow> system \<Rightarrow> bool" where
  tick_count: "P i = Count f p \<Longrightarrow> tick (s, P) (Tau i) (count f s, P(i := p))"
| tick_load: "P i = Load g k \<Longrightarrow> tick (s, P) (Tau i) (s, P(i := k (g (stats s))))"
| tick_access: "P i = Access x k \<Longrightarrow> perform x (store s) = (a, m)
    \<Longrightarrow> tick (s, P) (Did i x a) (s\<lparr>store := m\<rparr>, P(i := k a))"

inductive run :: "system \<Rightarrow> label list \<Rightarrow> system \<Rightarrow> bool" where
  run_start: "run c [] c"
| run_tick: "run c ls d \<Longrightarrow> tick d l e \<Longrightarrow> run c (ls @ [l]) e"

inductive_cases tick_cases: "tick (s, P) l (t, Q)"

text \<open>All requests, from the moment before the first of them arrives.\<close>

definition requests :: "(nat \<Rightarrow> world \<times> call) \<Rightarrow> server \<Rightarrow> system" where
  "requests reqs s = (s, \<lambda>i. call_prog (fst (reqs i)) (snd (reqs i)) s)"

subsection \<open>What one request does in a run\<close>

inductive follows :: "prog \<Rightarrow> (store_op \<times> store_answer) list \<Rightarrow> prog \<Rightarrow> bool" where
  follows_none: "follows p [] p"
| follows_count: "follows p xs q \<Longrightarrow> follows (Count f p) xs q"
| follows_load: "follows (k v) xs q \<Longrightarrow> follows (Load g k) xs q"
| follows_access: "follows (k a) xs q \<Longrightarrow> follows (Access x k) ((x, a) # xs) q"

inductive_simps follows_halt [simp]: "follows (Halt w) xs q"
inductive_simps follows_to_halt [simp]:
  "follows (Count f p) xs (Halt w)" "follows (Load g k) xs (Halt w)" "follows (Access x k) xs (Halt w)"

lemma follows_snoc:
  "follows p xs (Count f q) \<Longrightarrow> follows p xs q"
  "follows p xs (Load g k) \<Longrightarrow> follows p xs (k v)"
  "follows p xs (Access x h) \<Longrightarrow> follows p (xs @ [(x, a)]) (h a)"
proof -
  show "follows p xs q" if "follows p xs (Count f q)"
    using that by (induction p xs "Count f q" rule: follows.induct) (auto intro: follows.intros)
  show "follows p xs (k v)" if "follows p xs (Load g k)"
    using that by (induction p xs "Load g k" rule: follows.induct) (auto intro: follows.intros)
  show "follows p (xs @ [(x, a)]) (h a)" if "follows p xs (Access x h)"
    using that by (induction p xs "Access x h" rule: follows.induct) (auto intro: follows.intros)
qed

lemma follows_accesses: "follows p xs q \<Longrightarrow> accesses A p \<Longrightarrow> (x, a) \<in> set xs \<Longrightarrow> A x"
  by (induction rule: follows.induct) auto

subsection \<open>A run is a run of the store\<close>

fun ops :: "label list \<Rightarrow> store_op list" where
  "ops [] = []"
| "ops (Did i x a # ls) = x # ops ls"
| "ops (Tau i # ls) = ops ls"

fun acts_of :: "nat \<Rightarrow> label list \<Rightarrow> (store_op \<times> store_answer) list" where
  "acts_of i [] = []"
| "acts_of i (Did j x a # ls) = (if j = i then [(x, a)] else []) @ acts_of i ls"
| "acts_of i (Tau j # ls) = acts_of i ls"

lemma ops_append [simp]: "ops (ls @ ms) = ops ls @ ops ms"
  by (induction ls rule: ops.induct) simp_all

lemma acts_of_append [simp]: "acts_of i (ls @ ms) = acts_of i ls @ acts_of i ms"
  by (induction i ls rule: acts_of.induct) simp_all

lemma acts_of_Did: "(x, a) \<in> set (acts_of i ls) \<longleftrightarrow> Did i x a \<in> set ls"
  by (induction i ls rule: acts_of.induct) auto

lemma ops_Did: "x \<in> set (ops ls) \<longleftrightarrow> (\<exists>i a. Did i x a \<in> set ls)"
  by (induction ls rule: ops.induct) auto

text \<open>Every answer is the one the store gives after the operations before it.\<close>

definition answers_ok :: "memory \<Rightarrow> label list \<Rightarrow> bool" where
  "answers_ok m ls \<longleftrightarrow>
     (\<forall>us i x a vs. ls = us @ Did i x a # vs \<longrightarrow> a = fst (perform x (run_ops (ops us) m)))"

lemma answers_ok_snoc: "answers_ok m (ls @ [l]) \<longleftrightarrow>
    answers_ok m ls \<and> (\<forall>i x a. l = Did i x a \<longrightarrow> a = fst (perform x (run_ops (ops ls) m)))"
proof
  assume ok: "answers_ok m (ls @ [l])"
  have "a = fst (perform x (run_ops (ops us) m))" if "ls = us @ Did i x a # vs" for us i x a vs
    using ok that unfolding answers_ok_def by (metis append.assoc append_Cons)
  then show "answers_ok m ls \<and> (\<forall>i x a. l = Did i x a \<longrightarrow> a = fst (perform x (run_ops (ops ls) m)))"
    using ok unfolding answers_ok_def by blast
next
  assume ok: "answers_ok m ls \<and> (\<forall>i x a. l = Did i x a \<longrightarrow> a = fst (perform x (run_ops (ops ls) m)))"
  show "answers_ok m (ls @ [l])"
    unfolding answers_ok_def
  proof (intro allI impI)
    fix us i x a vs
    assume eq: "ls @ [l] = us @ Did i x a # vs"
    show "a = fst (perform x (run_ops (ops us) m))"
    proof (cases vs rule: rev_cases)
      case Nil
      with eq ok show ?thesis by simp
    next
      case (snoc vs' v)
      with eq have "ls = us @ Did i x a # vs'" by simp
      with ok show ?thesis unfolding answers_ok_def by blast
    qed
  qed
qed

lemma run_facts:
  assumes "run c ls d"
  shows "store (fst d) = run_ops (ops ls) (store (fst c)) \<and> same_setup (fst c) (fst d)
    \<and> (\<forall>i. follows (snd c i) (acts_of i ls) (snd d i)) \<and> answers_ok (store (fst c)) ls"
  using assms
proof (induction rule: run.induct)
  case (run_start c)
  show ?case by (simp add: follows_none answers_ok_def)
next
  case (run_tick c ls d l e)
  from run_tick.hyps(2) run_tick.IH show ?case
  proof cases
    case (tick_count P i f p s)
    have "follows (snd c i) (acts_of i ls) (Count f p)" using run_tick.IH tick_count by (metis snd_conv)
    from follows_snoc(1) [OF this] tick_count run_tick.IH show ?thesis
      by (auto simp: answers_ok_snoc)
  next
    case (tick_load P i g k s)
    have "follows (snd c i) (acts_of i ls) (Load g k)" using run_tick.IH tick_load by (metis snd_conv)
    from follows_snoc(2) [OF this] tick_load run_tick.IH show ?thesis
      by (auto simp: answers_ok_snoc)
  next
    case (tick_access P i x k s a m)
    have "m = snd (run_op x (store s))" using tick_access(5) perform_run_op [of x "store s"] by simp
    moreover have "follows (snd c i) (acts_of i ls) (Access x k)" using run_tick.IH tick_access by (metis snd_conv)
    note follows_snoc(3) [OF this, of a]
    ultimately show ?thesis using tick_access run_tick.IH
      by (auto simp: answers_ok_snoc run_ops_append)
  qed
qed

lemma requests_run:
  assumes "run (requests reqs s) ls (t, Q)"
  shows "store t = run_ops (ops ls) (store s)" and "same_setup s t"
    and "follows (call_prog (fst (reqs i)) (snd (reqs i)) s) (acts_of i ls) (Q i)"
    and "answers_ok (store s) ls"
  using run_facts [OF assms] by (simp_all add: requests_def)

lemma run_handler_op:
  assumes "run (requests reqs s) ls (t, Q)" and "x \<in> set (ops ls)"
  shows "\<exists>i. handler_op (fst (reqs i)) x"
proof -
  obtain i a where "(x, a) \<in> set (acts_of i ls)" using assms(2) by (auto simp: ops_Did acts_of_Did)
  with follows_accesses [OF requests_run(3) [OF assms(1)] call_prog_accesses] show ?thesis by blast
qed

lemma answers_okD:
  "answers_ok m (us @ Did i x a # vs) \<Longrightarrow> a = fst (perform x (run_ops (ops us) m))"
  unfolding answers_ok_def by blast

lemma two_in_order:
  assumes "a \<in> set ls" and "b \<in> set ls" and "a \<noteq> b"
  shows "(\<exists>us vs ws. ls = us @ a # vs @ b # ws) \<or> (\<exists>us vs ws. ls = us @ b # vs @ a # ws)"
proof -
  obtain us rest where ls: "ls = us @ a # rest" using assms(1) by (auto dest: split_list)
  with assms(2,3) have "b \<in> set us \<or> b \<in> set rest" by auto
  then show ?thesis
  proof
    assume "b \<in> set rest"
    then obtain vs ws where "rest = vs @ b # ws" by (auto dest: split_list)
    with ls show ?thesis by blast
  next
    assume "b \<in> set us"
    then obtain us' vs where "us = us' @ b # vs" by (auto dest: split_list)
    with ls have "ls = us' @ b # vs @ a # rest" by simp
    then show ?thesis by blast
  qed
qed

subsection \<open>A request served without interruption\<close>

lemma run_trans: "run d ms e \<Longrightarrow> run c ls d \<Longrightarrow> run c (ls @ ms) e"
proof (induction rule: run.induct)
  case (run_tick d ms e l f)
  then show ?case using run.run_tick [of c "ls @ ms" e l f] by simp
qed simp

lemma run_one: "tick c l d \<Longrightarrow> run c [l] d"
  using run_tick [OF run_start] by fastforce

text \<open>The number of steps of a program that runs alone.\<close>

primrec prog_steps :: "prog \<Rightarrow> server \<Rightarrow> nat" where
  "prog_steps (Halt w) = (\<lambda>s. 0)"
| "prog_steps (Count f p) = (\<lambda>s. Suc (prog_steps p (count f s)))"
| "prog_steps (Load g k) = (\<lambda>s. Suc (prog_steps (k (g (stats s))) s))"
| "prog_steps (Access x k) =
     (\<lambda>s. Suc (prog_steps (k (fst (perform x (store s)))) (s\<lparr>store := snd (perform x (store s))\<rparr>)))"

lemma run_cons: "tick c l d \<Longrightarrow> run d ls e \<Longrightarrow> run c (l # ls) e"
  using run_trans [OF _ run_one] by fastforce

lemma run_alone:
  "P i = p \<Longrightarrow> \<exists>ls. length ls = prog_steps p s \<and> run (s, P) ls (fst (run_prog p s), P(i := Halt (snd (run_prog p s))))"
proof (induction p arbitrary: s P)
  case (Halt w)
  then have "P(i := Halt w) = P" by auto
  then show ?case using run_start [of "(s, P)"] by auto
next
  case (Count f p)
  obtain ls where "length ls = prog_steps p (count f s)"
    "run (count f s, P(i := p)) ls (fst (run_prog p (count f s)), P(i := Halt (snd (run_prog p (count f s)))))"
    using Count.IH [of "P(i := p)" "count f s"] by (auto simp only: fun_upd_same fun_upd_upd)
  then show ?case
    using run_cons [OF tick_count [of P i f p s, OF Count.prems]]
    by (intro exI [of _ "Tau i # ls"]) (simp only: run_prog.simps prog_steps.simps list.size, simp)
next
  case (Load g k)
  let ?p = "k (g (stats s))"
  obtain ls where "length ls = prog_steps ?p s"
    "run (s, P(i := ?p)) ls (fst (run_prog ?p s), P(i := Halt (snd (run_prog ?p s))))"
    using Load.IH [OF rangeI, of "P(i := ?p)" "g (stats s)" s] by (auto simp only: fun_upd_same fun_upd_upd)
  then show ?case
    using run_cons [OF tick_load [of P i g k s, OF Load.prems]]
    by (intro exI [of _ "Tau i # ls"]) (simp only: run_prog.simps prog_steps.simps list.size, simp)
next
  case (Access x k)
  let ?a = "fst (perform x (store s))" and ?t = "s\<lparr>store := snd (perform x (store s))\<rparr>"
  obtain ls where "length ls = prog_steps (k ?a) ?t"
    "run (?t, P(i := k ?a)) ls (fst (run_prog (k ?a) ?t), P(i := Halt (snd (run_prog (k ?a) ?t))))"
    using Access.IH [OF rangeI, of "P(i := k ?a)" ?a ?t] by (auto simp only: fun_upd_same fun_upd_upd)
  moreover have "tick (s, P) (Did i x ?a) (?t, P(i := k ?a))"
    using Access.prems by (intro tick_access) simp_all
  ultimately show ?case
    using run_cons
    by (intro exI [of _ "Did i x ?a # ls"]) (simp only: run_prog.simps prog_steps.simps list.size, auto)
qed

lemma run_first:
  "\<exists>ls t Q. length ls = prog_steps (call_prog (fst (reqs i)) (snd (reqs i)) s) s \<and> run (requests reqs s) ls (t, Q)
     \<and> t = fst (serve (fst (reqs i)) (snd (reqs i)) s) \<and> Q i = Halt (snd (serve (fst (reqs i)) (snd (reqs i)) s))
     \<and> (\<forall>j. j \<noteq> i \<longrightarrow> Q j = call_prog (fst (reqs j)) (snd (reqs j)) s)"
  using run_alone [of "\<lambda>i. call_prog (fst (reqs i)) (snd (reqs i)) s" i _ s]
  by (fastforce simp: requests_def run_call_prog)

lemma run_two:
  assumes "i \<noteq> j"
  shows "\<exists>ls t Q. run (requests reqs s) ls (t, Q)
     \<and> Q i = Halt (snd (serve (fst (reqs i)) (snd (reqs i)) s)) \<and> (\<exists>w. Q j = Halt w)"
proof -
  obtain ls t Q where first: "run (requests reqs s) ls (t, Q)"
    "Q i = Halt (snd (serve (fst (reqs i)) (snd (reqs i)) s))"
    using run_first by blast
  obtain ms where "run (t, Q) ms (fst (run_prog (Q j) t), Q(j := Halt (snd (run_prog (Q j) t))))"
    using run_alone by blast
  from run_trans [OF this first(1)] first(2) assms show ?thesis by (metis fun_upd_apply)
qed

subsection \<open>One acceptance, one redemption\<close>

lemma spent_once:
  assumes "run (requests reqs s) (us @ Did i (Spend n jti e1) (Flag True) # vs @ Did j (Spend n' jti e2) a # ws) (t, Q)"
    and "\<forall>k. clocks_until e (fst (reqs k))" and "e \<le> e1"
  shows "a = Flag False"
proof -
  let ?m = "run_ops (ops us) (store s)"
  note ok = requests_run(4) [OF assms(1)]
  have "Flag True = fst (perform (Spend n jti e1) ?m)" using ok by (rule answers_okD)
  then have first: "fst (consume_jti n jti e1 ?m)" by (simp add: Let_def)
  have "a = fst (perform (Spend n' jti e2) (run_ops (ops (us @ Did i (Spend n jti e1) (Flag True) # vs)) (store s)))"
    using ok by (intro answers_okD [where vs = ws]) simp
  then have second: "a = Flag (fst (consume_jti n' jti e2 (fold (\<lambda>x m. snd (run_op x m)) (ops vs) (snd (consume_jti n jti e1 ?m)))))"
    by (simp add: Let_def run_ops_append flip: run_ops_fold)
  have clk: "now \<le> e1" if x: "x \<in> set (ops (us @ Did i (Spend n jti e1) (Flag True) # vs @ Did j (Spend n' jti e2) a # ws))"
      and now: "op_clock x = Some now" for x now
  proof -
    obtain k where "handler_op (fst (reqs k)) x" using run_handler_op [OF assms(1) x] by blast
    then have "now \<in> range (clock (fst (reqs k)))" using now by (rule handler_op_clock)
    moreover have "clocks_until e (fst (reqs k))" using assms(2) by blast
    ultimately have "now \<le> e" unfolding clocks_until_def by blast
    with assms(3) show ?thesis by simp
  qed
  have "\<not> fst (consume_jti n' jti e2 (fold (\<lambda>x m. snd (run_op x m)) (ops vs) (snd (consume_jti n jti e1 ?m))))"
    using clk [of "Spend n' jti e2" n'] clk by (intro ledger.single_use [OF first]) auto
  with second show ?thesis by simp
qed

lemma taken_once_run:
  assumes "run (requests reqs s) (us @ Did i (Consume cid) (Flag True) # vs @ Did j (Consume cid) a # ws) (t, Q)"
    and "\<forall>k. never_issues cid (fst (reqs k))"
  shows "a = Flag False"
proof -
  let ?m = "run_ops (ops us) (store s)"
  have "a = fst (perform (Consume cid) (run_ops (ops (us @ Did i (Consume cid) (Flag True) # vs)) (store s)))"
    using requests_run(4) [OF assms(1)] by (intro answers_okD [where vs = ws]) simp
  then have a: "a = Flag (fst (consume_challenge cid (fold (\<lambda>x m. snd (run_op x m)) (ops vs) (snd (consume_challenge cid ?m)))))"
    by (simp add: Let_def run_ops_append flip: run_ops_fold)
  have "\<not> creates cid x" if "x \<in> set (ops vs)" for x
  proof -
    obtain k where "handler_op (fst (reqs k)) x" using run_handler_op [OF assms(1), of x] \<open>x \<in> set (ops vs)\<close> by auto
    with assms(2) show ?thesis by (blast dest: handler_op_creates)
  qed
  from pool.taken_once [OF this] a show ?thesis by simp
qed

lemma site_prog_accepted:
  assumes "follows (site_prog wd r b s w) xs (Halt v)" and "accepted v"
  shows "\<exists>c. presents wd r b s c
    \<and> (Spend (clock wd 1) (tc_jti c) (time_unix (tc_expires_at c)), Flag True) \<in> set xs"
proof -
  have refused: "\<not> accepted v" if "follows (refuse_prog st code w) ys (Halt v)" for st code ys
    using that by (auto simp: refuse_prog_def accepted_def failed_site_verify_def)
  have flag: "a = Flag True" if "flag_of a" for a using that by (cases a) auto
  from assms(1) obtain q where q: "parse_site_verify wd r b = Some q"
    using refused assms(2) by (auto simp: site_prog_def split: option.splits)
  from assms(1) q obtain site where site: "registry_get_by_secret (site_order wd) (rt_sites (cfg s)) (sv_secret q) = Some site"
    using refused assms(2) by (auto simp: site_prog_def split: option.splits)
  from assms(1) q site obtain c where c: "verify_token (signer s) (sv_response q) (clock wd 0) = Inr c"
    using refused assms(2) by (auto simp: site_prog_def split: sum.splits)
  from assms(1) q site c have mm: "site_verify_mismatch wd s site q c = None"
    using refused assms(2) by (auto simp: site_prog_def split: option.splits)
  have "presents wd r b s c" using q site c mm by (auto simp: presents_def)
  moreover have "(Spend (clock wd 1) (tc_jti c) (time_unix (tc_expires_at c)), Flag True) \<in> set xs"
    using assms(1) q site c mm refused assms(2) flag
    by (auto simp: site_prog_def split: if_splits)
  ultimately show ?thesis by blast
qed

lemma redeem_prog_redeemed:
  assumes "follows (redeem_prog wd site c cid pf s w) xs (Halt v)" and "w_body v = Some (VerifyBody (redeemed tok))"
  shows "(Consume cid, Flag True) \<in> set xs"
proof -
  have flag: "a = Flag True" if "flag_of a" for a using that by (cases a) auto
  show ?thesis
    using assms flag by (auto simp: redeem_prog_def redeemed_def split: sum.splits if_splits)
qed

lemma verify_prog_redeemed:
  assumes "follows (verify_prog wd r b s w) xs (Halt v)" and "w_body v = Some (VerifyBody (redeemed tok))"
  shows "(Consume (path_id r), Flag True) \<in> set xs"
proof -
  have err: "w_body w2 \<noteq> Some (VerifyBody (redeemed tok))" if "decode_json b w1 = Inl w2" for w1 w2
    using decode_json_Inl [OF that] by auto
  note f = assms(1) [unfolded verify_prog_def found_prog_def follows_to_halt Let_def]
  have cid: "\<not> (path_id r = [] \<or> length (path_id r) > 96)"
  proof
    assume "path_id r = [] \<or> length (path_id r) > 96"
    with f assms(2) show False by simp
  qed
  obtain a ys where xs: "xs = (Get (clock wd 0) (path_id r), a) # ys" using f unfolding if_not_P [OF cid] by auto
  note g = f [unfolded if_not_P [OF cid] xs, simplified]
  from g assms(2) obtain c where c: "found_of a = Some c" by (cases "found_of a") simp_all
  from g assms(2) c obtain site where site: "registry_get (rt_sites (cfg s)) (ch_site_key c) = Some site"
    by (cases "registry_get (rt_sites (cfg s)) (ch_site_key c)") simp_all
  from g assms(2) c site have origin: "origin_allowed_for_hostname wd r site (ch_hostname c)"
    by (simp split: if_splits)
  from g assms(2) c site origin have bind: "\<not> (bind_ip_prefix site \<and> bind_ip (ip_binding_secret (cfg s)) (network_of s r) \<noteq> ch_ip_bind c)"
    by (auto split: if_splits)
  from g assms(2) c site origin bind obtain req where req: "decode_json b (set_cors r w) = Inr req"
    using err [of "set_cors r w"] by (cases "decode_json b (set_cors r w)") auto
  from g assms(2) c site origin bind req have "follows (redeem_prog wd site c (path_id r) (vc_proof req) s (set_cors r w)) ys (Halt v)"
    by (auto split: if_splits)
  from redeem_prog_redeemed [OF this assms(2)] show ?thesis by (simp add: xs)
qed

text \<open>C2. A token is accepted once, however requests overlap: of two \<open>siteverify\<close> requests with tokens of one
  identifier that are served at the same time as any others, at most one is answered with success, as long
  as no clock reading passes the expiry.\<close>

theorem concurrent_single_use:
  assumes "run (requests reqs s) ls (t, Q)"
    and "reqs i = (wd, SiteVerify r b)" and "reqs j = (wd', SiteVerify r' b')" and "i \<noteq> j"
    and "presents wd r b s c" and "presents wd' r' b' s c'" and "tc_jti c' = tc_jti c"
    and "\<forall>k. clocks_until e (fst (reqs k))"
    and "e \<le> time_unix (tc_expires_at c)" and "e \<le> time_unix (tc_expires_at c')"
  shows "\<not> (\<exists>v v'. Q i = Halt v \<and> Q j = Halt v' \<and> accepted v \<and> accepted v')"
proof
  assume "\<exists>v v'. Q i = Halt v \<and> Q j = Halt v' \<and> accepted v \<and> accepted v'"
  then obtain v v' where Q: "Q i = Halt v" "Q j = Halt v'" and acc: "accepted v" "accepted v'" by blast
  have spend: "Did k (Spend (clock wd 1) (tc_jti c) (time_unix (tc_expires_at c))) (Flag True) \<in> set ls"
    if "reqs k = (wd, SiteVerify r b)" "presents wd r b s c" "Q k = Halt v" "accepted v" for k wd r b c v
  proof -
    have "follows (site_prog wd r b s (security ''/v1/siteverify'' fresh_writer)) (acts_of k ls) (Halt v)"
      using requests_run(3) [OF assms(1), of k] that(1,3) by (simp add: call_prog_def call_path_def)
    from site_prog_accepted [OF this that(4)] presents_functional [OF that(2)] show ?thesis
      by (auto simp: acts_of_Did)
  qed
  note d = spend [OF assms(2,5) Q(1) acc(1)] spend [OF assms(3,6) Q(2) acc(2), unfolded assms(7)]
  have "Did i (Spend (clock wd 1) (tc_jti c) (time_unix (tc_expires_at c))) (Flag True)
      \<noteq> Did j (Spend (clock wd' 1) (tc_jti c) (time_unix (tc_expires_at c'))) (Flag True)"
    using assms(4) by simp
  from two_in_order [OF d this] show False
    using spent_once [of reqs s _ i _ _ _ _ j _ _ "Flag True"] spent_once [of reqs s _ j _ _ _ _ i _ _ "Flag True"]
      assms(1,8-10) by (metis store_answer.inject(2))
qed

text \<open>C6. A challenge is redeemed once, however requests overlap: of two redemptions of a challenge served at the
  same time as any others, at most one is answered with a token.\<close>

theorem concurrent_single_redemption:
  assumes "run (requests reqs s) ls (t, Q)"
    and "reqs i = (wd, VerifyChallenge r b)" and "reqs j = (wd', VerifyChallenge r' b')" and "i \<noteq> j"
    and "path_id r' = path_id r" and "\<forall>k. never_issues (path_id r) (fst (reqs k))"
  shows "\<not> (\<exists>v v' tok tok'. Q i = Halt v \<and> Q j = Halt v' \<and> w_body v = Some (VerifyBody (redeemed tok))
      \<and> w_body v' = Some (VerifyBody (redeemed tok')))"
proof
  assume "\<exists>v v' tok tok'. Q i = Halt v \<and> Q j = Halt v' \<and> w_body v = Some (VerifyBody (redeemed tok))
      \<and> w_body v' = Some (VerifyBody (redeemed tok'))"
  then obtain v v' tok tok' where Q: "Q i = Halt v" "Q j = Halt v'"
    and body: "w_body v = Some (VerifyBody (redeemed tok))" "w_body v' = Some (VerifyBody (redeemed tok'))" by blast
  have consumed: "Did k (Consume (path_id r)) (Flag True) \<in> set ls"
    if "reqs k = (wd, VerifyChallenge r b)" "Q k = Halt v" "w_body v = Some (VerifyBody (redeemed tok))" for k wd r b v tok
  proof -
    have "follows (verify_prog wd r b s (security (call_path (VerifyChallenge r b)) fresh_writer)) (acts_of k ls) (Halt v)"
      using requests_run(3) [OF assms(1), of k] that(1,2) by (simp add: call_prog_def)
    from verify_prog_redeemed [OF this that(3)] show ?thesis by (simp add: acts_of_Did)
  qed
  note d = consumed [OF assms(2) Q(1) body(1)] consumed [OF assms(3) Q(2) body(2), unfolded assms(5)]
  have "Did i (Consume (path_id r)) (Flag True) \<noteq> Did j (Consume (path_id r)) (Flag True)" using assms(4) by simp
  from two_in_order [OF d this] show False
    using taken_once_run [of reqs s _ i "path_id r" _ j "Flag True"] taken_once_run [of reqs s _ j "path_id r" _ i "Flag True"]
      assms(1,6) by (metis store_answer.inject(2))
qed

lemma handler_op_store_ok: "\<forall>x\<in>set xs. \<exists>wd. handler_op wd x \<Longrightarrow> store_ok m \<Longrightarrow> store_ok (run_ops xs m)"
  by (induction xs arbitrary: m) (auto intro: run_op_store_ok)

text \<open>C24. The invariant of the store holds at every moment, also between the accesses of requests that are
  served at the same time.\<close>

theorem concurrent_store_ok:
  assumes "run (requests reqs (new_server rt)) ls (t, Q)"
  shows "store_ok (store t)"
proof -
  have "store_ok (store (new_server rt))" by (simp add: store_ok_def new_server_def new_memory_def)
  then show ?thesis
    unfolding requests_run(1) [OF assms] using run_handler_op [OF assms] by (intro handler_op_store_ok) blast+
qed

subsection \<open>The rate limit\<close>

text \<open>The accesses of a run that let a request of the key pass.\<close>

fun passed :: "string \<Rightarrow> label \<Rightarrow> bool" where
  "passed key (Did i x a) = (is_rate key x \<and> fst (rated_of a))"
| "passed key (Tau i) = False"

lemma answers_ok_Cons:
  "answers_ok m (Did i x a # ls) \<Longrightarrow> a = fst (perform x m) \<and> answers_ok (snd (run_op x m)) ls"
  "answers_ok m (Tau i # ls) \<Longrightarrow> answers_ok m ls"
proof -
  assume ok: "answers_ok m (Did i x a # ls)"
  have "b = fst (perform y (run_ops (ops us) (snd (run_op x m))))" if "ls = us @ Did j y b # vs" for us j y b vs
    using answers_okD [of m "Did i x a # us" j y b vs] ok that by simp
  then show "a = fst (perform x m) \<and> answers_ok (snd (run_op x m)) ls"
    using answers_okD [of m "[]" i x a ls] ok by (simp add: answers_ok_def)
next
  assume ok: "answers_ok m (Tau i # ls)"
  have "b = fst (perform y (run_ops (ops us) m))" if "ls = us @ Did j y b # vs" for us j y b vs
    using answers_okD [of m "Tau i # us" j y b vs] ok that by simp
  then show "answers_ok m ls" by (simp add: answers_ok_def)
qed

lemma rated_run_op: "is_rate key x \<Longrightarrow> fst (rated_of (fst (perform x m))) = fst (run_op x m)"
  by (cases x) (simp_all add: Let_def)

lemma passed_allowed: "answers_ok m ls \<Longrightarrow> length (filter (passed key) ls) = allowed key (ops ls) m"
proof (induction ls arbitrary: m)
  case (Cons l ls)
  show ?case
  proof (cases l)
    case (Did i x a)
    from answers_ok_Cons(1) [OF Cons.prems [unfolded Did]] Cons.IH show ?thesis
      by (auto simp: Did rated_run_op)
  next
    case (Tau i)
    from answers_ok_Cons(2) [OF Cons.prems [unfolded Tau]] Cons.IH show ?thesis by (simp add: Tau)
  qed
qed simp

lemma window_closed_kept:
  assumes "\<not> window_open T window (rates m key)" and "\<not> is_rate key x"
  shows "\<not> window_open T window (rates (snd (run_op x m)) key)"
proof -
  have "rates (snd (run_op x m)) key = rates m key \<or> rates (snd (run_op x m)) key = None"
    using assms(2) by (cases x) (auto simp: store_op_defs purge_def split: option.splits)
  with assms(1) show ?thesis by (auto simp: window_open_def)
qed

lemma window_stays_closed: "\<not> window_open T window r \<Longrightarrow> T \<le> t \<Longrightarrow> 0 < window \<Longrightarrow> \<not> window_open t window r"
  by (auto simp: window_open_def time_sub_def split: option.splits)

fun within :: "string \<Rightarrow> int \<Rightarrow> instant \<Rightarrow> store_op \<Rightarrow> bool" where
  "within key limit T (Rate now k l w) = (k = key \<longrightarrow> l = limit \<and> w = minute \<and> T \<le> now \<and> now < T + minute)"
| "within key limit T x = (\<forall>now. op_clock x = Some now \<longrightarrow> now < T + minute)"

lemma within_window: "within key limit T x \<Longrightarrow> T \<le> t \<Longrightarrow> rate_op_ok key limit minute t x"
  by (cases x) auto

text \<open>A request that opens a window: no more than the limit from it on.\<close>

lemma allowed_from_opening:
  assumes "\<not> window_open t minute (rates m key)" and "T \<le> t" and "\<forall>x\<in>set xs. within key limit T x"
    and "zero_time < T" and "int (length xs) < 2 ^ 61"
  shows "int (allowed key (Rate t key limit minute # xs) m) \<le> max 0 limit"
proof -
  have first: "fst (run_op (Rate t key limit minute) m) = (1 \<le> limit)"
    "rates (snd (run_op (Rate t key limit minute) m)) key = Some \<lparr>rw_start = t, rw_count = 1\<rparr>"
    using assms(1) by (simp_all add: allow_rate_alt next_window_def)
  have "rate_op_ok key limit minute t y" if "y \<in> set xs" for y
    using assms(2,3) that by (intro within_window [of key limit T]) simp_all
  from allowed_in_window [OF first(2) _ this] assms(2,4,5)
  have "int (allowed key xs (snd (run_op (Rate t key limit minute) m)))
      = min (int (length (filter (is_rate key) xs))) (max 0 (limit - 1))" by (simp add: minute_def)
  then show ?thesis using first(1) by (simp only: allowed.simps is_rate.simps) auto
qed

lemma allowed_within:
  assumes "\<not> window_open T minute (rates m key)" and "\<forall>x\<in>set xs. within key limit T x" and "zero_time < T"
    and "int (length xs) < 2 ^ 61"
  shows "int (allowed key xs m) \<le> max 0 limit"
  using assms(1,2,4)
proof (induction xs arbitrary: m)
  case (Cons x xs)
  show ?case
  proof (cases "is_rate key x")
    case False
    with Cons window_closed_kept [OF Cons.prems(1) False] show ?thesis by simp
  next
    case True
    then obtain t l w where "x = Rate t key l w" by (cases x) auto
    with Cons.prems(2) have x: "x = Rate t key limit minute" and t: "T \<le> t" by auto
    have "\<not> window_open t minute (rates m key)"
      by (rule window_stays_closed [OF Cons.prems(1) t]) (simp add: minute_def)
    from allowed_from_opening [OF this t] Cons.prems(2,3) assms(3) show ?thesis by (simp add: x)
  qed
qed simp

text \<open>With a window that was open before: what is left of its limit, and once more the limit.\<close>

lemma allowed_across:
  assumes "rates m key = Some w" and "0 \<le> rw_count w" and "rw_count w + int (length xs) < 2 ^ 62"
    and "\<forall>x\<in>set xs. within key limit T x" and "zero_time < T" and "int (length xs) < 2 ^ 61"
  shows "int (allowed key xs m) \<le> max 0 (limit - rw_count w) + max 0 limit"
  using assms(1-4,6)
proof (induction xs arbitrary: m w)
  case (Cons x xs)
  let ?m = "snd (run_op x m)"
  show ?case
  proof (cases "is_rate key x")
    case False
    then have "rates ?m key = rates m key \<or> rates ?m key = None"
      by (cases x) (auto simp: store_op_defs purge_def split: option.splits)
    then show ?thesis
    proof
      assume "rates ?m key = rates m key"
      with Cons.IH [of ?m w] Cons.prems False show ?thesis by simp
    next
      assume "rates ?m key = None"
      then have "int (allowed key xs ?m) \<le> max 0 limit"
        using Cons.prems(4,5) assms(5) by (intro allowed_within) (simp_all add: window_open_def)
      with False show ?thesis by simp
    qed
  next
    case True
    then obtain t l w' where "x = Rate t key l w'" by (cases x) auto
    with Cons.prems(4) have x: "x = Rate t key limit minute" and t: "T \<le> t" by auto
    show ?thesis
    proof (cases "window_open t minute (rates m key)")
      case False
      from allowed_from_opening [OF this t] Cons.prems(4,5) assms(5)
      have "int (allowed key (x # xs) m) \<le> max 0 limit" by (simp add: x)
      then show ?thesis by linarith
    next
      case open_now: True
      let ?w = "w\<lparr>rw_count := rw_count w + 1\<rparr>"
      have step: "rates ?m key = Some ?w" "fst (run_op x m) = (rw_count w + 1 \<le> limit)"
        using open_now Cons.prems(1-3) by (simp_all add: x allow_rate_alt next_window_def)
      have "int (allowed key xs ?m) \<le> max 0 (limit - rw_count ?w) + max 0 limit"
        using Cons.prems step(1) by (intro Cons.IH) simp_all
      with step(2) True show ?thesis by auto
    qed
  qed
qed simp

text \<open>The program of an admissible request counts it first; if the window is full, it answers so.\<close>

lemma issue_prog_admissible:
  assumes "admissible wd r b s req site"
  shows "\<exists>k. issue_prog wd r b s w = Count inc_requests (Access
       (Rate (clock wd 0) (rate_key site (network_of s r) (cr_action req)) (rate_limit_per_minute site) minute)
       (\<lambda>a. if \<not> fst (rated_of a)
             then Count inc_rate_limited (Halt (write_error 429 ''rate-limited'' (set_cors r w)))
             else k a))"
  using assms unfolding admissible_def issue_prog_def decode_json_def registry_get_def
  by (auto simp: Let_def not_less fun_eq_iff)

lemma issue_prog_inadmissible:
  assumes "\<nexists>req site. admissible wd r b s req site"
  shows "\<exists>w'. issue_prog wd r b s w = Count inc_requests (Halt w')"
proof (cases "decode_json b w")
  case (Inr req)
  then have body: "b = GoodJson req True" by (simp add: decode_json_Inr)
  show ?thesis
  proof (cases "rt_sites (cfg s) (cr_site_key req)")
    case None
    then show ?thesis by (simp add: issue_prog_def Inr registry_get_def)
  next
    case (Some site)
    with assms body show ?thesis
      by (auto simp: issue_prog_def decode_json_def registry_get_def admissible_def Let_def)
  qed
qed (simp add: issue_prog_def)

lemma call_prog_rates:
  assumes "\<And>r b req site. k = IssueChallenge r b \<Longrightarrow> admissible wd r b s req site
      \<Longrightarrow> rate_key site (network_of s r) (cr_action req) = key \<Longrightarrow> rate_limit_per_minute site = limit"
    and "\<forall>n. T \<le> clock wd n \<and> clock wd n < T + minute"
  shows "accesses (within key limit T) (call_prog wd k s)"
proof -
  have clk: "handler_op wd x \<Longrightarrow> \<not> is_rate key x \<Longrightarrow> within key limit T x" for x
    using assms(2) by (cases x) auto
  have answer: "accesses (within key limit T) (answer_prog wd req h site ip d s w)" for req h site ip d w
    using assms(2) by (simp add: answer_prog_def Let_def split: sum.split)
  show ?thesis
  proof (cases k)
    case (IssueChallenge r b)
    let ?w = "security ''/v1/challenge'' fresh_writer"
    show ?thesis
    proof (cases "\<exists>req site. admissible wd r b s req site")
      case False
      from issue_prog_inadmissible [OF False, of ?w] show ?thesis
        by (auto simp: IssueChallenge call_prog_def call_path_def)
    next
      case True
      then obtain req site where a: "admissible wd r b s req site" by blast
      then have "issue_prog wd r b s ?w = Count inc_requests (Access
         (Rate (clock wd 0) (rate_key site (network_of s r) (cr_action req)) (rate_limit_per_minute site) minute)
         (\<lambda>a. if \<not> fst (rated_of a)
               then Count inc_rate_limited (Halt (write_error 429 ''rate-limited'' (set_cors r ?w)))
               else Count inc_challenges (answer_prog wd req (normalize_hostname (lower wd) (cr_hostname req)) site (network_of s r)
                 (run_scorer wd (scorer s) (risk_input_of s wd r req (network_of s r) (snd (rated_of a))) site) s (set_cors r ?w))))"
        unfolding admissible_def issue_prog_def decode_json_def registry_get_def
        by (auto simp: Let_def not_less fun_eq_iff)
      with assms(1) [OF IssueChallenge a] assms(2) answer show ?thesis
        by (auto simp: IssueChallenge call_prog_def call_path_def)
    qed
  next
    case (VerifyChallenge r b)
    then show ?thesis
      using assms(2) by (simp add: call_prog_def verify_prog_def found_prog_def redeem_prog_def Let_def split: sum.split option.split)
  next
    case (SiteVerify r b)
    then show ?thesis
      using assms(2) by (simp add: call_prog_def site_prog_def refuse_prog_def Let_def split: sum.split option.split)
  qed (simp_all add: call_prog_def metrics_prog_def)
qed

text \<open>A request of the key that was let through: it passed the checks and has an answer other than
  \<open>rate-limited\<close>.\<close>

definition let_through :: "string \<Rightarrow> server \<Rightarrow> world \<Rightarrow> call \<Rightarrow> prog \<Rightarrow> bool" where
  "let_through key s wd k p \<longleftrightarrow>
     (\<exists>r b req site v. k = IssueChallenge r b \<and> admissible wd r b s req site
        \<and> rate_key site (network_of s r) (cr_action req) = key
        \<and> p = Halt v \<and> w_body v \<noteq> Some (ErrorBody ''rate-limited''))"

lemma issue_prog_steps: "prog_steps (issue_prog wd r b s w) t \<le> 10"
  by (simp add: issue_prog_def answer_prog_def Let_def split: sum.split option.split)

lemma let_through_passed:
  assumes "run (requests reqs s) ls (t, Q)" and "let_through key s (fst (reqs i)) (snd (reqs i)) (Q i)"
  shows "\<exists>x a. Did i x a \<in> set ls \<and> passed key (Did i x a)"
proof -
  obtain r b req site v where k: "snd (reqs i) = IssueChallenge r b" and a: "admissible (fst (reqs i)) r b s req site"
    and key: "rate_key site (network_of s r) (cr_action req) = key"
    and v: "Q i = Halt v" "w_body v \<noteq> Some (ErrorBody ''rate-limited'')"
    using assms(2) by (auto simp: let_through_def)
  let ?w = "security ''/v1/challenge'' fresh_writer"
  have "follows (issue_prog (fst (reqs i)) r b s ?w) (acts_of i ls) (Halt v)"
    using requests_run(3) [OF assms(1), of i] by (simp add: k v call_prog_def call_path_def)
  with issue_prog_admissible [OF a, of ?w] obtain x as where "(x, as) \<in> set (acts_of i ls)" "is_rate key x" "fst (rated_of as)"
    using v(2) key by (fastforce split: if_splits)
  then show ?thesis by (auto simp: acts_of_Did)
qed

text \<open>C21. The rate limit under concurrency: of all requests for one key (with one limit) that are served within a
  minute, whatever their order and overlap, at most \<open>rate_limit_per_minute\<close> are let through if no window of the key
  was open when the minute began, and at most twice as many otherwise, since the windows are fixed and one may
  end within the minute.\<close>

theorem concurrent_rate_limit:
  assumes "run (requests reqs s) ls (t, Q)"
    and "\<And>w. rates (store s) key = Some w \<Longrightarrow> 0 \<le> rw_count w \<and> rw_count w < 2 ^ 61"
    and "\<And>i r b req site. snd (reqs i) = IssueChallenge r b \<Longrightarrow> admissible (fst (reqs i)) r b s req site
      \<Longrightarrow> rate_key site (network_of s r) (cr_action req) = key \<Longrightarrow> rate_limit_per_minute site = limit"
    and "\<And>i n. T \<le> clock (fst (reqs i)) n \<and> clock (fst (reqs i)) n < T + minute"
    and "zero_time < T" and "int (length ls) < 2 ^ 61"
  shows "finite {i. let_through key s (fst (reqs i)) (snd (reqs i)) (Q i)}
    \<and> int (card {i. let_through key s (fst (reqs i)) (snd (reqs i)) (Q i)})
      \<le> (if window_open T minute (rates (store s) key) then 2 * max 0 limit else max 0 limit)"
proof -
  let ?S = "{i. let_through key s (fst (reqs i)) (snd (reqs i)) (Q i)}"
  define who where "who l = (case l of Did i x a \<Rightarrow> i | Tau i \<Rightarrow> i)" for l
  have sub: "?S \<subseteq> who ` set (filter (passed key) ls)"
  proof
    fix i assume "i \<in> ?S"
    then obtain x a where "Did i x a \<in> set ls" "passed key (Did i x a)"
      using let_through_passed [OF assms(1)] by blast
    then have "Did i x a \<in> set (filter (passed key) ls)" by simp
    moreover have "i = who (Did i x a)" by (simp add: who_def)
    ultimately show "i \<in> who ` set (filter (passed key) ls)" by blast
  qed
  have "card ?S \<le> card (who ` set (filter (passed key) ls))" using sub by (intro card_mono) simp_all
  also have "\<dots> \<le> length (filter (passed key) ls)"
    by (rule order_trans [OF card_image_le card_length]) simp
  also have "\<dots> = allowed key (ops ls) (store s)" by (rule passed_allowed [OF requests_run(4) [OF assms(1)]])
  finally have card: "int (card ?S) \<le> int (allowed key (ops ls) (store s))" by simp
  have "within key limit T x" if x: "x \<in> set (ops ls)" for x
  proof -
    obtain i a where "(x, a) \<in> set (acts_of i ls)" using x by (auto simp: ops_Did acts_of_Did)
    moreover have "accesses (within key limit T) (call_prog (fst (reqs i)) (snd (reqs i)) s)"
      using assms(3) [of i] assms(4) [of i] by (intro call_prog_rates) blast+
    ultimately show ?thesis using follows_accesses [OF requests_run(3) [OF assms(1)]] by blast
  qed
  moreover have "length (ops ls) \<le> length ls" by (induction ls rule: ops.induct) simp_all
  ultimately have "int (allowed key (ops ls) (store s))
      \<le> (if window_open T minute (rates (store s) key) then 2 * max 0 limit else max 0 limit)"
    using allowed_within [of T "store s" key "ops ls" limit] allowed_across [of "store s" key _ "ops ls" limit T] assms(2,5,6)
    by (fastforce simp: window_open_def split: option.splits)
  with card finite_subset [OF sub] show ?thesis by simp
qed

subsection \<open>Attempts that overlap\<close>

lemma run_snoc2: "run c ls d \<Longrightarrow> tick d l e \<Longrightarrow> tick e l' f \<Longrightarrow> run c (ls @ [l, l']) f"
  using run_tick [OF run_tick] by fastforce

text \<open>Any number of requests can look a challenge up before the first of them records its failure.\<close>

lemma all_look_up:
  assumes p: "p = Count f (Access (Get now cid) k)" and c: "challenges (store s) cid = Some c" "now \<le> ch_expires_at c"
  shows "\<exists>ls t. run (s, \<lambda>i. p) ls (t, \<lambda>i. if i < n then k (Found (Some c)) else p) \<and> challenges (store t) cid = Some c"
proof (induction n)
  case 0
  have "run (s, \<lambda>i. p) [] (s, \<lambda>i. p)" by (rule run_start)
  with c show ?case by auto
next
  case (Suc n)
  let ?P = "\<lambda>i. if i < n then k (Found (Some c)) else p"
  obtain ls t where run: "run (s, \<lambda>i. p) ls (t, ?P)" and t: "challenges (store t) cid = Some c" using Suc by blast
  let ?t = "count f t" and ?g = "get_challenge now cid (store t)"
  have g: "fst ?g = Some c" "challenges (snd ?g) cid = Some c" using get_challenge_fields t c(2) by simp_all
  have "tick (t, ?P) (Tau n) (?t, ?P(n := Access (Get now cid) k))" by (rule tick_count) (simp add: p)
  moreover have "tick (?t, ?P(n := Access (Get now cid) k)) (Did n (Get now cid) (Found (Some c)))
      (?t\<lparr>store := snd ?g\<rparr>, (?P(n := Access (Get now cid) k))(n := k (Found (Some c))))"
    by (rule tick_access) (simp_all add: g(1) Let_def)
  moreover have "(?P(n := Access (Get now cid) k))(n := k (Found (Some c))) = (\<lambda>i. if i < Suc n then k (Found (Some c)) else p)"
    by (auto simp: less_Suc_eq fun_eq_iff)
  ultimately have "run (s, \<lambda>i. p) (ls @ [Tau n, Did n (Get now cid) (Found (Some c))])
      (?t\<lparr>store := snd ?g\<rparr>, \<lambda>i. if i < Suc n then k (Found (Some c)) else p)"
    using run_snoc2 [OF run] by simp
  with g(2) show ?case by (intro exI conjI) (assumption, simp)
qed

lemma all_fail:
  assumes "\<forall>i<n. P i = Access (Fail cid 3) (\<lambda>a. Halt v)"
  shows "\<exists>ls t Q. run (s, P) ls (t, Q) \<and> (\<forall>i<n. Q i = Halt v) \<and> (\<forall>i\<ge>n. Q i = P i)"
  using assms
proof (induction n)
  case 0
  show ?case using run_start by blast
next
  case (Suc n)
  obtain ls t Q where run: "run (s, P) ls (t, Q)" and Q: "\<forall>i<n. Q i = Halt v" "\<forall>i\<ge>n. Q i = P i"
    using Suc by auto
  have "tick (t, Q) (Did n (Fail cid 3) Silent) (t\<lparr>store := fail_challenge cid 3 (store t)\<rparr>, Q(n := Halt v))"
    by (rule tick_access) (use Q(2) Suc.prems in auto)
  note run_tick [OF run this]
  moreover have "(\<forall>i<Suc n. (Q(n := Halt v)) i = Halt v) \<and> (\<forall>i\<ge>Suc n. (Q(n := Halt v)) i = P i)"
    using Q by (auto simp: less_Suc_eq)
  ultimately show ?case by blast
qed

subsection \<open>Every request ends\<close>

text \<open>The program takes at most \<open>n\<close> steps, whatever answers it gets.\<close>

primrec within_steps :: "prog \<Rightarrow> nat \<Rightarrow> bool" where
  "within_steps (Halt w) = (\<lambda>n. True)"
| "within_steps (Count f p) = (\<lambda>n. 0 < n \<and> within_steps p (n - 1))"
| "within_steps (Load g k) = (\<lambda>n. 0 < n \<and> (\<forall>v. within_steps (k v) (n - 1)))"
| "within_steps (Access x k) = (\<lambda>n. 0 < n \<and> (\<forall>a. within_steps (k a) (n - 1)))"

fun thread :: "label \<Rightarrow> nat" where
  "thread (Did i x a) = i"
| "thread (Tau i) = i"

definition steps_of :: "nat \<Rightarrow> label list \<Rightarrow> nat" where
  "steps_of i ls = length (filter (\<lambda>l. thread l = i) ls)"

lemma call_prog_steps: "within_steps (call_prog wd k s) 10"
  by (cases k) (simp_all add: call_prog_def issue_prog_def answer_prog_def verify_prog_def found_prog_def redeem_prog_def
      site_prog_def refuse_prog_def metrics_prog_def Let_def split: sum.split option.split)

lemma tick_within:
  assumes "tick (s, P) l (t, Q)" and "within_steps (P i) n"
  shows "if thread l = i then 0 < n \<and> within_steps (Q i) (n - 1) else Q i = P i"
  using assms(1) by (cases rule: tick_cases) (use assms(2) in auto)

lemma run_within:
  assumes "run c ls d" and "within_steps (snd c i) n"
  shows "steps_of i ls \<le> n \<and> within_steps (snd d i) (n - steps_of i ls)"
  using assms
proof (induction rule: run.induct)
  case (run_start c)
  then show ?case by (simp add: steps_of_def)
next
  case (run_tick c ls d l e)
  obtain s P t Q where de: "d = (s, P)" "e = (t, Q)" by (cases d, cases e)
  from run_tick have "steps_of i ls \<le> n" "within_steps (P i) (n - steps_of i ls)" by (simp_all add: de)
  with tick_within [OF run_tick.hyps(2) [unfolded de], of i "n - steps_of i ls"] show ?case
    by (auto simp: steps_of_def de split: if_splits)
qed

lemma tick_progress: "(\<nexists>w. P i = Halt w) \<Longrightarrow> \<exists>l d. tick (s, P) l d \<and> thread l = i"
proof (cases "P i")
  case (Access x k)
  then show ?thesis
    using tick_access [of P i x k s "fst (perform x (store s))" "snd (perform x (store s))"] by fastforce
qed (force intro: tick_count tick_load)+

text \<open>Every request is answered: no request takes more than ten steps, however others interleave, and one
  that has not been answered can always take its next step, so no request blocks another.\<close>

theorem requests_terminate:
  assumes "run (requests reqs s) ls (t, Q)"
  shows "steps_of i ls \<le> 10
    \<and> ((\<exists>w. Q i = Halt w) \<or> (\<exists>l d. thread l = i \<and> run (requests reqs s) (ls @ [l]) d))"
proof -
  have "within_steps (snd (requests reqs s) i) 10" by (simp add: requests_def call_prog_steps)
  from run_within [OF assms this] tick_progress [of Q i t] run_tick [OF assms] show ?thesis by blast
qed

end
