(* ===== verification/Spec2Isabelle.thy ===== *)
theory Spec2Isabelle
  imports DemoHttp ReplyTexts ConfigFile Observation IdealStore Locking Responses RequestTexts AddrText Concurrency
begin

text \<open>
  A verification development of the BerryShield gateway, the Go service under \<open>src/services/gateway\<close>
  (the paths below are relative to its \<open>internal\<close> directory). A browser asks the gateway for leave to
  perform an action on a site; the gateway scores the evidence it has and answers with a signed token, with
  a challenge, or not at all; a solved challenge is redeemed for a token; the site's backend asks the
  gateway once whether a token is good.

  The parts and how they interact. \<open>main\<close> loads the configuration and makes a server of it. The
  server holds the configuration, the store, the signer, the addresses of the reputation service and of
  the risk engine, and the counters. A request passes \<open>security\<close> and \<open>recoverer\<close>, the multiplexer picks a
  handler by method and path, the handler reads the body, checks the request against the site
  registry, asks the client-address, reputation and scoring parts for evidence, and changes the store and
  the counters. Requests run at the same time; the store serialises its operations with a mutex (\<open>Locking\<close>), the
  counters are atomic, and nothing else is shared and changed.

  Theories, from the bottom up, and what each of them stands for:

    \<^item> \<open>Prelude\<close>: bytes and strings, wrap-around of Go's integers, instants in nanoseconds, results
      that may be an error. \<open>GoStrings\<close>: the functions of \<open>strings\<close> and \<open>strconv\<close> the code calls.
    \<^item> \<open>Utf8\<close>, \<open>JsonText\<close>, \<open>JsonData\<close>, \<open>Decoding\<close>: \<open>encoding/json\<close> as the code uses it, as a scanner that is fed
      byte by byte, a printer, decoders into Go variables (a decoder per type, structs as lists of
      named fields) and streams with a limit. Lemmas: what was printed reads back; whatever the bytes, what
      is decoded is UTF-8, in the range of its integer type, and finite.
    \<^item> \<open>TimeText\<close>, \<open>Replies\<close>, \<open>ReplyTexts\<close>: instants as RFC 3339 text, the bytes \<open>writeJSON\<close> makes of the response
      structs by their tags, and what a client reads in them. Lemmas: the answer of \<open>siteverify\<close> reads
      back whole, an instant to the nanosecond.
    \<^item> \<open>Model\<close>: \<open>model/types.go\<close>, a record per struct, and the response that is being written.
      \<open>Sha256\<close>, \<open>Base64\<close>: the hash, HMAC and the URL-safe encoding, computed.
    \<^item> \<open>NetAddr\<close>, \<open>ClientAddr\<close>, \<open>AddrText\<close>: \<open>util/ip.go\<close> (\<open>ClientIP\<close>, \<open>Prefix\<close>, \<open>BindIP\<close>, \<open>isTrusted\<close>) and the parsing
      and printing of addresses of package \<open>net\<close>. Lemmas: what is printed parses back, the prefix of an
      address is its network, forwarding headers count only from a trusted proxy.
    \<^item> \<open>Config\<close>, \<open>ConfigFile\<close>: \<open>config/config.go\<close>. The record \<open>os\<close> is what \<open>Load\<close> reads. Lemmas: what a loaded
      configuration guarantees, lookups by key and by secret, host name patterns, the sites file.
    \<^item> \<open>Store\<close>, \<open>IdealStore\<close>: \<open>store/memory.go\<close>. The record \<open>memory\<close> is its three maps, an operation a
      function on it, a run a list of operations. Lemmas: a spent token identifier stays spent until
      its expiry (interface \<open>one_shot_ledger\<close>), a window lets exactly its limit through, reclaiming old entries
      is not observable but for a challenge that is consumed after its expiry (refinement of a store that
      never reclaims).
    \<^item> \<open>Locking\<close>: the methods of \<open>store/memory.go\<close> as sequences of single accesses between \<open>Lock\<close> and \<open>Unlock\<close>, any
      number of calls interleaved. Lemmas: the calls take effect one after the other as the functions of
      \<open>Store\<close> do, and none waits for ever.
    \<^item> \<open>Challenge\<close>: \<open>challenge/challenge.go\<close>. Lemmas: when exactly a proof is accepted.
    \<^item> \<open>Token\<close>: \<open>token/token.go\<close>, with the JSON texts of header and claims. Lemmas: a signed token is
      authentic, when a token is accepted.
    \<^item> \<open>Risk\<close>, \<open>Scorers\<close>, \<open>Reputation\<close>: \<open>risk/scorer.go\<close>, \<open>risk/remote.go\<close>, \<open>reputation/client.go\<close>. The local scorer
      adds \<open>float64\<close> values in units of its least exponent, with rounding to even. Lemmas: the score is the
      exact sum rounded, it grows with the evidence, a silent engine or reputation service does no harm.
    \<^item> \<open>Metrics\<close>, \<open>Observation\<close>: \<open>metrics/metrics.go\<close>, and the counters against what clients see.
    \<^item> \<open>Server\<close>: \<open>api/server.go\<close>, the state and the handlers as functions from the server and the
      response so far to both afterwards; \<open>serve\<close> is one request, \<open>serve_all\<close> a run. \<open>world\<close> is what a request
      meets: clock and random readings in program order, services, the order of a map. \<open>Protocol\<close> and
      \<open>Answers\<close>: what the handlers accept and answer, and what a run leaves true.
    \<^item> \<open>Bodies\<close>, \<open>Requests\<close>, \<open>Http\<close>, \<open>Exchange\<close>: the bytes of a request. \<open>Bodies\<close> reads a body as
      \<open>decodeJSON\<close> and \<open>parseSiteVerify\<close> do, \<open>Http\<close> routes by method and path as the multiplexer does;
      \<open>serve_http\<close> is one HTTP request. \<open>Exchange\<close>: a server from its start on. \<open>RequestTexts\<close>: the JSON text of a
      challenge request reads back as the request. \<open>Responses\<close>: the status, the security headers
      and the part of the state that any HTTP request may change.
    \<^item> \<open>Programs\<close>, \<open>Concurrency\<close>: the handlers as programs of atomic accesses to store and counters, equal to the
      functions when they run alone, and the interleaving of any number of them as a step relation.
    \<^item> \<open>Demo\<close>, \<open>DemoHttp\<close>: a concrete deployment on which the witnesses run. This theory: the
      properties that span the parts.

  Interfaces. A contract between parts is a locale, interpreted on the code's model in the theory of the part
  that provides it: \<open>one_shot_ledger\<close> and \<open>ticket_pool\<close> (\<open>Store\<close>: identifiers spent once, challenges taken once),
  \<open>dot_free_encoding\<close> (\<open>Base64\<close>: the parts of a token), \<open>scorer\<close> (\<open>Risk\<close>), \<open>simulation\<close> (\<open>IdealStore\<close>: the store and its
  ideal, interpreted with and without challenges consumed after their expiry), \<open>guarded_object\<close> (\<open>Locking\<close>: methods under
  a mutex).

  Bounds. Integers of Go are kept in \<open>int\<close> with wrap-around written out where the code computes with
  them, and in words where it shifts or counts. The rate limit counts within a window of 1 minute, and a
  request counts for at most two windows; counts are exact below \<open>2 ^ 61\<close> operations. A request takes at most ten
  accesses. JSON nests at most 10,000 deep, and a time is written in JSON for years from 0 to 9999, as in the packages. No definition uses fuel.

  Parameters: the lower-casing of letters outside ASCII, \<open>url.Parse\<close> of an origin,
  \<open>mime.ParseMediaType\<close>, the environment and files, clocks, random source, the order in which Go visits a map,
  the reputation service and the risk engine (what they answer, or that they fail, a timeout
  included). The properties hold for all of them unless a hypothesis says otherwise.

  Not modelled: the listening socket and its timeouts, connections and the log (I/O); a panic, which no
  step of the model raises (\<open>recoverer\<close> is defined, its second case unused); the \<open>Location\<close> header of a redirect;
  the JSON text of the payload for the risk engine, which is a function of the values the engine
  is given. The other programs of the repository are clients and services of the gateway in
  other languages.
\<close>

section \<open>Properties of the whole gateway\<close>

subsection \<open>Tokens\<close>

text \<open>C1. A token is accepted once: after \<open>siteverify\<close> has accepted a token, and whatever requests
  the server answers in between, it refuses every token with the same identifier as long as its
  clocks have not passed the token's expiry.\<close>

theorem siteverify_single_use:
  assumes "presents wd r body s c"
    and "accepted (snd (serve wd (SiteVerify r body) s))"
    and "list_all (\<lambda>(wd, k). clocks_until (time_unix (tc_expires_at c)) wd) ks"
    and "clock wd' 1 \<le> time_unix (tc_expires_at c)"
    and "presents wd' r' body' (serve_all ks (fst (serve wd (SiteVerify r body) s))) c'"
    and "tc_jti c' = tc_jti c"
  shows "\<not> accepted (snd (serve wd' (SiteVerify r' body') (serve_all ks (fst (serve wd (SiteVerify r body) s)))))"
proof -
  let ?e = "time_unix (tc_expires_at c)"
  let ?s1 = "fst (serve wd (SiteVerify r body) s)"
  note spent = site_verify_spends [OF assms(1,2)]
  obtain xs where xs: "\<forall>x\<in>set xs. \<forall>t. op_clock x = Some t \<longrightarrow> t \<le> ?e"
      "store (serve_all ks ?s1) = fold (\<lambda>x m. snd (run_op x m)) xs (store ?s1)"
    using serve_all_ops [OF assms(3), of ?s1] by blast
  have "\<not> fst (consume_jti (clock wd' 1) (tc_jti c) e' (store (serve_all ks ?s1)))" for e'
    unfolding xs(2) spent(2) using xs(1) assms(4) by (intro ledger.single_use [OF spent(1)]) blast+
  then show ?thesis
    unfolding serve_site_verify site_verify_accepted_presented [OF assms(5) [unfolded serve_site_verify]] assms(6) .
qed

lemma siteverify_single_use_witness:
  "\<not> accepted (snd (serve (demo_world demo_start demo_start) (SiteVerify demo_request demo_body)
      (serve_all [(demo_world demo_start demo_start, MetricsReport)]
        (fst (serve (demo_world demo_start demo_start) (SiteVerify demo_request demo_body) demo_server)))))"
proof (rule siteverify_single_use [where c = demo_claims and c' = demo_claims])
  show "presents (demo_world demo_start demo_start) demo_request demo_body demo_server demo_claims"
    by (rule demo_presents) (simp_all add: demo_expiry_def)
  show "accepted (snd (serve (demo_world demo_start demo_start) (SiteVerify demo_request demo_body) demo_server))"
    by (rule demo_first_accepted) (simp_all add: demo_expiry_def)
  show "list_all (\<lambda>(wd, k). clocks_until (time_unix (tc_expires_at demo_claims)) wd)
      [(demo_world demo_start demo_start, MetricsReport)]"
    by (auto simp: clocks_until_def demo_world_def demo_expiry_def)
  show "clock (demo_world demo_start demo_start) 1 \<le> time_unix (tc_expires_at demo_claims)"
    by (simp add: demo_world_def demo_expiry_def)
  show "presents (demo_world demo_start demo_start) demo_request demo_body
      (serve_all [(demo_world demo_start demo_start, MetricsReport)]
        (fst (serve (demo_world demo_start demo_start) (SiteVerify demo_request demo_body) demo_server))) demo_claims"
    by (rule demo_presents) (rule same_setup_trans [OF demo_setup serve_all_setup], simp_all add: demo_expiry_def)
qed simp

text \<open>C18. The bound of the previous property is sharp: the signature check and the spending of the
  token read the clock separately, and when the token expires between the two readings of a
  second request, the mark of the first is purged and the token is accepted again.\<close>

theorem siteverify_replay_at_expiry:
  assumes "presents wd r body s c"
    and "accepted (snd (serve wd (SiteVerify r body) s))"
    and "presents wd' r' body' (fst (serve wd (SiteVerify r body) s)) c"
    and "time_unix (tc_expires_at c) < clock wd' 1"
  shows "accepted (snd (serve wd' (SiteVerify r' body') (fst (serve wd (SiteVerify r body) s))))"
proof -
  note spent = site_verify_spends [OF assms(1,2)]
  have "fst (consume_jti (clock wd' 1) (tc_jti c) e (store (fst (serve wd (SiteVerify r body) s))))" for e
    unfolding spent(2) by (rule ledger.reusable_after_expiry [OF spent(1) assms(4)])
  then show ?thesis
    unfolding serve_site_verify site_verify_accepted_presented [OF assms(3) [unfolded serve_site_verify]] .
qed

lemma siteverify_replay_at_expiry_witness:
  "accepted (snd (serve (demo_world (demo_expiry - 1) (demo_expiry + 1)) (SiteVerify demo_request demo_body)
     (fst (serve (demo_world demo_start demo_start) (SiteVerify demo_request demo_body) demo_server))))"
proof (rule siteverify_replay_at_expiry [where c = demo_claims])
  show "presents (demo_world demo_start demo_start) demo_request demo_body demo_server demo_claims"
    by (rule demo_presents) (simp_all add: demo_expiry_def)
  show "accepted (snd (serve (demo_world demo_start demo_start) (SiteVerify demo_request demo_body) demo_server))"
    by (rule demo_first_accepted) (simp_all add: demo_expiry_def)
  show "presents (demo_world (demo_expiry - 1) (demo_expiry + 1)) demo_request demo_body
     (fst (serve (demo_world demo_start demo_start) (SiteVerify demo_request demo_body) demo_server)) demo_claims"
    by (rule demo_presents [OF demo_setup]) (simp_all add: demo_expiry_def)
  show "time_unix (tc_expires_at demo_claims) < clock (demo_world (demo_expiry - 1) (demo_expiry + 1)) 1"
    by (simp add: demo_world_def)
qed

text \<open>C3. \<open>siteverify\<close> succeeds exactly when the secret belongs to a registered site and the token is
  authentic, current, made for that site, the expected action, host name and network, and not
  spent; the answer then reports the claims of the token.\<close>

theorem siteverify_success_iff:
  assumes "iteration_order (site_order wd) (rt_sites (cfg s))" and "secrets_unique (rt_sites (cfg s))"
  shows "(w_body (snd (serve wd (SiteVerify r body) s)) = Some (SiteVerifyBody resp) \<and> svr_success resp)
    \<longleftrightarrow> (\<exists>q key site c. parse_site_verify wd r body = Some q
          \<and> rt_sites (cfg s) key = Some site \<and> site_secret site = sv_secret q
          \<and> authentic (signer s) (sv_response q) c \<and> claims_current (clock wd 0) c
          \<and> expected_by wd s site q c \<and> unspent (clock wd 1) (tc_jti c) (store s)
          \<and> resp = accepted_site_verify c)"
    (is "?L \<longleftrightarrow> ?R")
proof
  assume ?L
  then have "accepted (snd (serve wd (SiteVerify r body) s))" by (simp add: accepted_def)
  then obtain c where c: "presents wd r body s c"
    "fst (consume_jti (clock wd 1) (tc_jti c) (time_unix (tc_expires_at c)) (store s))"
    unfolding serve_site_verify site_verify_accepted_iff by blast
  have "resp = accepted_site_verify c"
    using \<open>?L\<close> site_verify_accepted(1) [OF c] by (simp add: serve_site_verify)
  with c show ?R
    unfolding presents_def verify_token_iff site_verify_mismatch_iff registry_get_by_secret_iff [OF assms]
      unspent_iff [symmetric] by blast
next
  assume ?R
  then obtain q key site c where q: "parse_site_verify wd r body = Some q"
    "rt_sites (cfg s) key = Some site \<and> site_secret site = sv_secret q"
    "authentic (signer s) (sv_response q) c" "claims_current (clock wd 0) c"
    "expected_by wd s site q c" "unspent (clock wd 1) (tc_jti c) (store s)"
    "resp = accepted_site_verify c" by blast
  then have "presents wd r body s c"
    unfolding presents_def verify_token_iff site_verify_mismatch_iff registry_get_by_secret_iff [OF assms]
    by blast
  moreover have "fst (consume_jti (clock wd 1) (tc_jti c) (time_unix (tc_expires_at c)) (store s))"
    using q(6) by (simp only: unspent_iff [symmetric])
  ultimately show ?L using site_verify_accepted(1) q(7) by (simp add: serve_site_verify)
qed

lemma siteverify_success_iff_witness:
  "w_body (snd (serve (demo_world demo_start demo_start) (SiteVerify demo_request demo_body) demo_server))
     = Some (SiteVerifyBody (accepted_site_verify demo_claims))"
proof (rule siteverify_success_iff [THEN iffD2, THEN conjunct1])
  let ?wd = "demo_world demo_start demo_start"
  show "iteration_order (site_order ?wd) (rt_sites (cfg demo_server))" "secrets_unique (rt_sites (cfg demo_server))"
    by (simp_all add: iteration_order_def demo_world_def secrets_unique_def)
  show "\<exists>q key site c. parse_site_verify ?wd demo_request demo_body = Some q
      \<and> rt_sites (cfg demo_server) key = Some site \<and> site_secret site = sv_secret q
      \<and> authentic (signer demo_server) (sv_response q) c \<and> claims_current (clock ?wd 0) c
      \<and> expected_by ?wd demo_server site q c \<and> unspent (clock ?wd 1) (tc_jti c) (store demo_server)
      \<and> accepted_site_verify demo_claims = accepted_site_verify c"
    unfolding demo_parse
    by (rule exI, rule exI [of _ "''shop''"], rule exI [of _ demo_site], rule exI [of _ demo_claims],
        insert demo_token_authentic demo_claims_current [of demo_start], intro conjI, rule refl)
      (simp_all add: demo_world_def demo_expiry_def expected_by_def network_expected_def unspent_def new_memory_def)
qed

subsection \<open>Challenges\<close>

text \<open>C4. A challenge is redeemed exactly when it is stored and unexpired, the origin, the
  network, the session and the proof fit, and the token can be minted; the token then carries the
  site, action, host name, network and score the challenge was issued for.\<close>

theorem challenge_redeemed_iff:
  "w_body (snd (serve wd (VerifyChallenge r body) s)) = Some (VerifyBody (redeemed tok)) \<longleftrightarrow>
     (\<exists>c site rnd. redeemable wd r body s c site \<and> read_random 18 (random wd 0) = Some rnd
        \<and> sign (signer s) (redeemed_claims rnd (clock wd 3) c site) = Inr tok)"
  (is "?L \<longleftrightarrow> ?R")
proof
  assume L: ?L
  then obtain c site where c: "redeemable wd r body s c site"
    unfolding serve_verify_challenge by (blast dest: verify_challenge_success)
  from L show ?R
    unfolding serve_verify_challenge verify_challenge_redeemable(2) [OF c]
    by (auto simp: redeemed_claims_def mint_Inr redeemed_def intro!: exI [of _ c] exI [of _ site] c split: sum.splits)
next
  assume ?R
  then obtain c site rnd where c: "redeemable wd r body s c site" and "read_random 18 (random wd 0) = Some rnd"
    and "sign (signer s) (redeemed_claims rnd (clock wd 3) c site) = Inr tok" by blast
  then have "mint (random wd 0) (clock wd 3) (signer s) (ch_site_key c) (ch_action c)
      (ch_hostname c) (ch_ip_bind c) (ch_kind c) (ch_risk_score c) (ttl_of (token_ttl_seconds site))
      = Inr (tok, redeemed_claims rnd (clock wd 3) c site)"
    by (simp add: mint_Inr redeemed_claims_def)
  then show ?L
    unfolding serve_verify_challenge verify_challenge_redeemable(2) [OF c] by simp
qed

text \<open>C5. A challenge yields at most one token: after a redemption, and whatever requests follow,
  its identifier cannot be redeemed again unless the random source draws it anew.\<close>

theorem challenge_redeemed_once:
  assumes "w_body (snd (serve wd (VerifyChallenge r body) s)) = Some (VerifyBody (redeemed tok))"
    and "list_all (\<lambda>(wd, k). never_issues (path_id r) wd) ks" and "path_id r' = path_id r"
  shows "w_body (snd (serve wd' (VerifyChallenge r' body') (serve_all ks (fst (serve wd (VerifyChallenge r body) s)))))
     \<noteq> Some (VerifyBody (redeemed tok'))"
proof
  let ?s = "serve_all ks (fst (serve wd (VerifyChallenge r body) s))"
  assume "w_body (snd (serve wd' (VerifyChallenge r' body') ?s)) = Some (VerifyBody (redeemed tok'))"
  then obtain c' site' where "redeemable wd' r' body' ?s c' site'"
    unfolding serve_verify_challenge by (blast dest: verify_challenge_success)
  moreover obtain c site where "redeemable wd r body s c site"
    using assms(1) unfolding serve_verify_challenge by (blast dest: verify_challenge_success)
  ultimately show False using redeemed_once assms(2,3) by blast
qed

lemma challenge_redeemed_once_witness:
  "\<exists>tok. w_body (snd (serve demo_now (VerifyChallenge demo_request (demo_solution ''s1'')) (demo_waiting 0)))
      = Some (VerifyBody (redeemed tok))
    \<and> w_body (snd (serve demo_now (VerifyChallenge demo_request (demo_solution ''s1''))
        (serve_all [(demo_now, MetricsReport)]
          (fst (serve demo_now (VerifyChallenge demo_request (demo_solution ''s1'')) (demo_waiting 0))))))
      \<noteq> Some (VerifyBody (redeemed tok))"
proof -
  obtain tok where "w_body (snd (serve demo_now (VerifyChallenge demo_request (demo_solution ''s1'')) (demo_waiting 0)))
      = Some (VerifyBody (redeemed tok))"
    using demo_redeemed by blast
  moreover have "list_all (\<lambda>(wd, k). never_issues (path_id demo_request) wd) [(demo_now, MetricsReport)]"
    using demo_never_issues by (simp add: demo_request_def)
  ultimately show ?thesis using challenge_redeemed_once by blast
qed

text \<open>C7. Three failed attempts (a wrong network, session or proof) end a challenge, however they
  are interleaved with other requests.\<close>

theorem challenge_struck_out:
  assumes "store_ok (store s)" and "list_all (\<lambda>(wd, k). never_issues cid wd) ks"
    and "3 \<le> strike_count cid ks s"
  shows "challenges (store (serve_all ks s)) cid = None"
proof (rule ccontr)
  assume "challenges (store (serve_all ks s)) cid \<noteq> None"
  then obtain c' where c': "challenges (store (serve_all ks s)) cid = Some c'" by blast
  have "store_ok (store (serve_all ks s))" using assms(1) by (rule serve_all_store_ok)
  with c' have "ch_attempts c' < 3" by (simp add: store_ok_def)
  moreover obtain c where "challenges (store s) cid = Some c"
      "ch_attempts c + int (strike_count cid ks s) \<le> ch_attempts c'"
    using strikes_add_up [OF assms(1,2) c'] by blast
  ultimately show False using store_okD [OF assms(1), of cid c] assms(3) by linarith
qed

lemma challenge_struck_out_witness:
  "let ks = replicate 3 (demo_now, VerifyChallenge demo_request (demo_solution ''s2''))
   in challenges (store (serve_all ks (demo_waiting 0))) ''bsc_x'' = None"
proof -
  let ?k = "VerifyChallenge demo_request (demo_solution ''s2'')"
  define s0 s1 s2 where "s0 = demo_waiting 0" and "s1 = fst (serve demo_now ?k s0)" and "s2 = fst (serve demo_now ?k s1)"
  have s0: "cfg s0 = demo_runtime" "challenges (store s0) ''bsc_x'' = Some (demo_challenge 0)"
    by (simp_all add: s0_def)
  have s1: "cfg s1 = demo_runtime" "challenges (store s1) ''bsc_x'' = Some (demo_challenge 1)"
    using demo_strike [OF s0] by (simp_all add: s1_def)
  have s2: "cfg s2 = demo_runtime" "challenges (store s2) ''bsc_x'' = Some (demo_challenge 2)"
    using demo_strike [OF s1] by (simp_all add: s2_def)
  have "strikes ''bsc_x'' ?k (snd (serve demo_now ?k s))" if "cfg s = demo_runtime"
    "challenges (store s) ''bsc_x'' = Some (demo_challenge n)" for s n
    using demo_strike(1) [OF that] by (simp add: strikes_def strike_body_def demo_request_def)
  then have "strike_count ''bsc_x'' (replicate 3 (demo_now, ?k)) s0 = 3"
    using s0 s1 s2 by (simp add: numeral_eq_Suc flip: s1_def s2_def)
  moreover have "store_ok (store s0)" by (simp add: s0_def store_ok_def demo_challenge_def)
  ultimately show ?thesis
    unfolding Let_def s0_def [symmetric] using demo_never_issues
    by (intro challenge_struck_out) (simp_all add: numeral_eq_Suc)
qed

text \<open>In every state the server reaches from its start, a stored challenge is filed under its own
  identifier and has fewer than three failed attempts.\<close>

lemma reachable_store_ok: "store_ok (store (serve_all ks (new_server c)))"
  by (rule serve_all_store_ok) (simp add: store_ok_def new_server_def new_memory_def)

subsection \<open>Answers to a challenge request\<close>

text \<open>C8. A challenge request is answered with a token exactly when it is admissible (known site,
  well-formed action, allowed host name and origin, session), within the rate limit and scored
  \<open>allow\<close>; the token is for the site, the action and the normalised host name of the request.\<close>

theorem passive_token_iff:
  "(w_body (snd (serve wd (IssueChallenge r body) s)) = Some (ChallengeBody resp) \<and> resp_token resp \<noteq> [])
   \<longleftrightarrow> (\<exists>req site rnd tok. scored_as wd r body s req site ''allow''
         \<and> read_random 18 (random wd 0) = Some rnd
         \<and> sign (signer s) (passive_claims wd r req site s rnd) = Inr tok
         \<and> resp = passive_answer tok)"
    (is "?L \<longleftrightarrow> ?R")
proof
  assume L: ?L
  then obtain req site d where d: "scored_as wd r body s req site d" "d \<in> {''block'', ''allow'', ''pow'', ''interactive''}"
    using issue_body_cases [of wd r body s "security ''/v1/challenge'' fresh_writer" resp]
    unfolding serve_issue_challenge by auto
  have v: "rd_decision (verdict wd r req site s) = d" using d(1) by (simp add: scored_as_def)
  have "d = ''allow''"
    using L d(2) unfolding serve_issue_challenge issue_scored [OF d(1)]
    by (auto simp: answer_decision_def v Let_def empty_challenge_response_def split: sum.splits)
  with L d(1) v show ?R
    unfolding serve_issue_challenge issue_scored [OF d(1)]
    by (intro exI [of _ req] exI [of _ site])
      (auto simp: answer_decision_def Let_def mint_Inr passive_claims_def passive_answer_def split: sum.splits)
next
  assume ?R
  then obtain req site rnd tok where d: "scored_as wd r body s req site ''allow''"
    and rnd: "read_random 18 (random wd 0) = Some rnd"
    and tok: "sign (signer s) (passive_claims wd r req site s rnd) = Inr tok"
    and resp: "resp = passive_answer tok" by blast
  from tok rnd show ?L
    unfolding serve_issue_challenge resp issue_token [OF d]
    using sign_not_Nil [OF tok] by (simp add: passive_answer_def)
qed

text \<open>C9. A challenge request is answered with a challenge exactly when it is admissible, within the
  rate limit and scored \<open>pow\<close> or \<open>interactive\<close>; the answer shows identifier, kind, expiry and
  parameters of the challenge that the server has stored.\<close>

theorem challenge_issued_iff:
  "(w_body (snd (serve wd (IssueChallenge r body) s)) = Some (ChallengeBody resp) \<and> resp_challenge_id resp \<noteq> [])
   \<longleftrightarrow> (\<exists>req site c. scored_as wd r body s req site (ch_kind c)
         \<and> given_challenge wd r req site s = Inr c \<and> resp = challenge_answer c
         \<and> challenges (store (fst (serve wd (IssueChallenge r body) s))) (ch_id c) = Some c)"
    (is "?L \<longleftrightarrow> ?R")
proof
  assume L: ?L
  then obtain req site d where d: "scored_as wd r body s req site d" "d \<in> {''block'', ''allow'', ''pow'', ''interactive''}"
    using issue_body_cases [of wd r body s "security ''/v1/challenge'' fresh_writer" resp]
    unfolding serve_issue_challenge by auto
  have v: "rd_decision (verdict wd r req site s) = d" using d(1) by (simp add: scored_as_def)
  have "d \<noteq> ''block''"
    using L d(1) issue_blocked unfolding serve_issue_challenge by (auto simp: empty_challenge_response_def)
  moreover have "d \<noteq> ''allow''"
    using L d(1) issue_allowed unfolding serve_issue_challenge
    by (fastforce simp: passive_answer_def empty_challenge_response_def)
  ultimately have "d = ''pow'' \<or> d = ''interactive''" using d(2) by blast
  note g = issue_given [OF d(1) this]
  from L obtain c where c: "given_challenge wd r req site s = Inr c" "resp = challenge_answer c"
    unfolding serve_issue_challenge g(1) by (auto split: sum.splits)
  moreover have "ch_kind c = d" using c(1) v by (auto simp: given_challenge_def dest: new_challenge_kind)
  ultimately show ?R using d(1) g(2) [OF c(1)] unfolding serve_issue_challenge by blast
next
  assume ?R
  then obtain req site c where d: "scored_as wd r body s req site (ch_kind c)"
    and c: "given_challenge wd r req site s = Inr c" and resp: "resp = challenge_answer c" by blast
  have k: "ch_id c \<noteq> []" "ch_kind c = ''pow'' \<or> ch_kind c = ''interactive''"
    using new_challenge_kind [OF c [unfolded given_challenge_def]] d by (auto simp: scored_as_def)
  then show ?L
    unfolding serve_issue_challenge issue_given(1) [OF d k(2)] resp by (simp add: c challenge_answer_def)
qed

text \<open>What is known of an HTTP request that was answered with a token.\<close>

lemma token_request_facts:
  assumes "configured uc production s" and "route q = To ChallengePoint ms"
    and "read_challenge_request (rt_max_body_bytes (cfg s)) (rq_body q) = GoodJson req at_end"
    and "rt_sites (cfg s) (cr_site_key req) = Some site"
    and given: "w_body (snd (serve_http wd q s)) = Some (ChallengeBody (passive_answer tok))"
  shows "serve_http wd q s = serve wd (IssueChallenge (request_of q ms) (GoodJson req at_end)) s"
    and "scored_as wd (request_of q ms) (GoodJson req at_end) s req site ''allow''"
    and "site_key site = cr_site_key req" and "site_key site \<noteq> []" and "secrets_unique (rt_sites (cfg s))"
    and "utf8_request req"
proof -
  show ask: "serve_http wd q s = serve wd (IssueChallenge (request_of q ms) (GoodJson req at_end)) s"
    using routed_is_served [OF assms(2), of wd s] by (simp add: call_of_def assms(3))
  note allowed_scored [OF given [unfolded ask serve_issue_challenge]]
  then have "\<exists>req' site'. scored_as wd (request_of q ms) (GoodJson req at_end) s req' site' ''allow''"
    by (simp add: passive_answer_def)
  then show "scored_as wd (request_of q ms) (GoodJson req at_end) s req site ''allow''"
    using assms(4) by (auto simp: scored_as_def admissible_def)
  have reg: "registry_ok uc production (rt_sites (cfg s))"
    using assms(1) by (simp add: configured_def runtime_ok_def)
  then have ok: "site_key site = cr_site_key req" "site_ok uc production site"
    using assms(4) unfolding registry_ok_def by blast+
  have "trim_space [] = []" by (rule trim_space_graphic) simp
  with ok reg show "site_key site = cr_site_key req" "site_key site \<noteq> []" "secrets_unique (rt_sites (cfg s))"
    by (auto simp: site_ok_def registry_ok_def)
  show "utf8_request req" by (rule read_challenge_request_utf8 [OF assms(3)])
qed

text \<open>C10. A token obtained over HTTP is good over HTTP: when a POST of any bytes to \<open>/v1/challenge\<close> is answered
  with a token, then a POST to \<open>/v1/siteverify\<close> whose JSON text holds the site's secret, this token, the
  action and host name of the request and an address of the same network is answered with success,
  from the clock reading of the token until its last second, as long as it is unspent and
  whatever the server has done in between. The bytes of that answer decode to the claims of the token.\<close>

theorem token_good_over_http:
  assumes "configured uc production s" and "utf8_valid (rt_signing_key_id (cfg s))"
    and asked: "route q = To ChallengePoint ms"
      "read_challenge_request (rt_max_body_bytes (cfg s)) (rq_body q) = GoodJson req at_end"
      "rt_sites (cfg s) (cr_site_key req) = Some site" "read_random 18 (random wd 0) = Some rnd"
    and given: "w_body (snd (serve_http wd q s)) = Some (ChallengeBody (passive_answer tok))"
    and "same_setup s s'" and order: "iteration_order (site_order wd') (rt_sites (cfg s))"
    and posted: "site_verify_post wd' q'
      \<lparr>sv_secret = site_secret site, sv_response = tok, sv_remote_ip = ip, sv_expected_action = cr_action req,
       sv_expected_hostname = normalize_hostname (lower wd) (cr_hostname req)\<rparr> s'"
    and host: "normalize_hostname (lower wd) (cr_hostname req) \<noteq> []"
    and network: "bind_ip_prefix site \<Longrightarrow> ip \<noteq> [] \<and> ip_prefix ip = ip_prefix (network_of s (request_of q ms))"
    and clocks: "int64_range (unix (clock wd 1))" "int64_range (unix (clock wd 1 + ttl_of (token_ttl_seconds site)))"
      "clock wd 1 \<le> clock wd' 0" "clock wd' 0 < time_unix (unix (clock wd 1 + ttl_of (token_ttl_seconds site)))"
    and years: "0 \<le> year_of (time_unix (unix (clock wd 1)))" "year_of (time_unix (unix (clock wd 1))) \<le> 9999"
    and fresh: "unspent (clock wd' 1) (b64_encode rnd) (store s')"
  shows "\<exists>c. w_body (snd (serve_http wd' q' s')) = Some (SiteVerifyBody (accepted_site_verify c))
     \<and> read_site_verify_reply (response_text (snd (serve_http wd' q' s'))) = Some (accepted_site_verify c)
     \<and> tc_site_key c = cr_site_key req \<and> tc_action c = cr_action req
     \<and> tc_hostname c = normalize_hostname (lower wd) (cr_hostname req) \<and> tc_issued_at c = unix (clock wd 1)"
proof -
  let ?r = "request_of q ms" and ?h = "normalize_hostname (lower wd) (cr_hostname req)"
  let ?c = "passive_claims wd ?r req site s rnd"
  note facts = token_request_facts [OF assms(1) asked(1-3) given]
  note ask = facts(1) and scored = facts(2) and site = facts(3-5) and utf8 = facts(6)
  have enc: "encodable ?c"
    using utf8 posted verdict_range clocks(1,2) site(1)
    by (intro passive_claims_encodable) (simp_all add: utf8_request_def site_verify_post_def)
  have key: "registry_get_by_secret (site_order wd') (rt_sites (cfg s)) (site_secret site) = Some site"
    using registry_get_by_secret_iff [OF order site(3)] asked(3) by blast
  obtain b where b: "serve_http wd' q' s' = serve wd' (SiteVerify (request_of q' []) b) s'"
    "parse_site_verify wd' (request_of q' []) b = Some
      \<lparr>sv_secret = site_secret site, sv_response = tok, sv_remote_ip = ip, sv_expected_action = cr_action req,
       sv_expected_hostname = ?h\<rparr>"
    using serve_site_verify_post [OF posted] by blast
  have expected: "expected_by wd' s' site
      \<lparr>sv_secret = site_secret site, sv_response = tok, sv_remote_ip = ip, sv_expected_action = cr_action req,
       sv_expected_hostname = ?h\<rparr> ?c"
    using scored host network \<open>same_setup s s'\<close>
    by (auto simp: expected_by_def network_expected_def passive_claims_def minted_claims_def scored_as_def admissible_def
        action_ok_def binding_of_def same_setup_def bind_ip_def)
  note sign = configured_signer [OF assms(1)]
  have "w_body (snd (serve wd' (SiteVerify (request_of q' []) b) s')) = Some (SiteVerifyBody (accepted_site_verify ?c))"
    using given [unfolded ask] key
    by (intro passive_token_good [OF scored asked(4) _ \<open>same_setup s s'\<close> enc _ sign(2,3) site(2) host clocks(3,4) b(2)
          _ _ expected fresh]) (simp_all add: sign(1) assms(2))
  moreover have "reply_typed (accepted_site_verify ?c)"
    using enc years by (simp add: reply_typed_def encodable_def accepted_site_verify_def passive_claims_def minted_claims_def)
  note site_verify_reply_reads_back [OF this]
  ultimately show ?thesis
    using b(1) site(1) by (intro exI [of _ ?c]) (simp add: response_text_def passive_claims_def minted_claims_def)
qed

lemma token_good_over_http_witness:
  "\<exists>c. read_site_verify_reply (response_text (snd (serve_http (demo_world (demo_start + 5 * second) demo_start) demo_http_check
        (fst (serve_http demo_now demo_http_visit demo_server))))) = Some (accepted_site_verify c)
     \<and> tc_action c = ''login''"
proof -
  let ?s' = "fst (serve_http demo_now demo_http_visit demo_server)" and ?w = "demo_world (demo_start + 5 * second) demo_start"
  have serve: "serve_http demo_now demo_http_visit demo_server
      = serve demo_now (IssueChallenge demo_visit (GoodJson demo_http_ask True)) demo_server"
    unfolding routed_is_served [OF demo_http_route] by (simp add: call_of_def demo_http_request demo_http_read)
  have same: "same_setup demo_server ?s'" unfolding serve by (rule demo_setup)
  have "spent (store ?s') = Map.empty"
    unfolding serve serve_issue_challenge issue_scored [OF demo_http_scored]
    by (simp add: answer_decision_def demo_http_verdict Let_def rated_store_def allow_rate_def new_memory_def
        split: sum.split prod.split)
  then have unspent: "unspent (clock ?w 1) (b64_encode demo_random) (store ?s')" by (simp add: unspent_def)
  have kid: "utf8_valid (rt_signing_key_id (cfg demo_server))" using demo_kid by (simp add: demo_runtime_def)
  have "0 \<le> year_of (time_unix (unix demo_start))" "year_of (time_unix (unix demo_start)) \<le> 9999" by code_simp+
  then have years: "0 \<le> year_of (time_unix (unix (clock demo_now 1)))" "year_of (time_unix (unix (clock demo_now 1))) \<le> 9999"
    by simp_all
  have "\<exists>c. w_body (snd (serve_http ?w demo_http_check ?s')) = Some (SiteVerifyBody (accepted_site_verify c))
     \<and> read_site_verify_reply (response_text (snd (serve_http ?w demo_http_check ?s'))) = Some (accepted_site_verify c)
     \<and> tc_site_key c = cr_site_key demo_http_ask \<and> tc_action c = cr_action demo_http_ask
     \<and> tc_hostname c = normalize_hostname (lower demo_now) (cr_hostname demo_http_ask) \<and> tc_issued_at c = unix (clock demo_now 1)"
  proof (rule token_good_over_http [OF demo_configured kid demo_http_route _ _ demo_random_read demo_http_answer same])
    show "site_verify_post ?w demo_http_check
        \<lparr>sv_secret = site_secret demo_site, sv_response = demo_token, sv_remote_ip = [], sv_expected_action = cr_action demo_http_ask,
         sv_expected_hostname = normalize_hostname (lower demo_now) (cr_hostname demo_http_ask)\<rparr> ?s'"
      using demo_http_post [OF same] demo_hostname
      by (simp add: demo_http_fields_def)
  qed (use unspent years demo_http_read demo_hostname in
      \<open>simp_all add: iteration_order_def int64_range_def demo_start_def unix_def time_unix_def second_def\<close>)
  then show ?thesis by auto
qed

subsection \<open>Requests over HTTP\<close>

text \<open>C13. A challenge or verification request with a body longer than the configured limit never gets past the
  reading of the JSON value: it is answered with an error code and status 400 or 403, and the challenge
  request has no effect but on the counter of requests.\<close>

theorem oversized_request_refused:
  assumes "route q = To e ms" and "e = ChallengePoint \<or> e = VerifyPoint"
    and "nat (rt_max_body_bytes (cfg s)) < length (fst (rq_body q))"
  shows "refusal (snd (serve_http wd q s)) \<and> (e = ChallengePoint \<longrightarrow> fst (serve_http wd q s) = count inc_requests s)"
proof -
  let ?limit = "rt_max_body_bytes (cfg s)"
  note unread = oversized_unread [OF assms(3)]
  show ?thesis
  proof (cases "e = ChallengePoint")
    case True
    have "serve_http wd q s = serve wd (IssueChallenge (request_of q ms) (read_challenge_request ?limit (rq_body q))) s"
      using routed_is_served [OF assms(1), of wd s] by (simp add: call_of_def True)
    moreover obtain code where "\<And>w. decode_json (read_challenge_request ?limit (rq_body q)) w = Inl (write_error 400 code w)"
      using unread_refused [OF unread(1)] by blast
    ultimately show ?thesis by (simp add: serve_issue_challenge issue_challenge_def refusal_write_error)
  next
    case False
    have "serve_http wd q s = serve wd (VerifyChallenge (request_of q ms) (read_verify_request ?limit (rq_body q))) s"
      using routed_is_served [OF assms(1), of wd s] assms(2) False by (simp add: call_of_def)
    with unread_verify_challenge [OF unread(2)] False show ?thesis by (simp add: serve_verify_challenge)
  qed
qed

lemma oversized_request_refused_witness:
  "refusal (snd (serve_http demo_now (demo_http_visit\<lparr>rq_body := (replicate 70000 CHR '' '', True)\<rparr>) demo_server))"
proof -
  let ?q = "demo_http_visit\<lparr>rq_body := (replicate 70000 CHR '' '', True)\<rparr>"
  have "route ?q = To ChallengePoint []" using demo_http_route unfolding route_To_iff by simp
  then show ?thesis by (rule oversized_request_refused [THEN conjunct1]) (simp_all add: demo_runtime_def)
qed

text \<open>C15. \<open>siteverify\<close> reads one JSON value and looks at nothing behind it: a request whose text is followed
  by other values, by no JSON at all or by more bytes than the limit is answered like the request without them,
  where the other two POST requests are refused.\<close>

theorem siteverify_trailing_ignored:
  assumes "site_verify_post wd q v s"
  shows "serve_http wd (q\<lparr>rq_body := (site_verify_text v @ junk, fin)\<rparr>) s = serve_http wd q s"
proof -
  let ?q = "q\<lparr>rq_body := (site_verify_text v @ junk, fin)\<rparr>" and ?limit = "rt_max_body_bytes (cfg s)"
  have to: "route q = To SiteVerifyPoint []" by (rule site_verify_post_routed [OF assms])
  then have to': "route ?q = To SiteVerifyPoint []" unfolding route_To_iff by simp
  have req: "request_of ?q [] = request_of q []" by (simp add: request_of_def)
  have "parse_site_verify wd (request_of q []) (site_verify_body_of wd ?limit ?q)
      = parse_site_verify wd (request_of q []) (site_verify_body_of wd ?limit q)"
    using assms read_site_verify_text [of v ?limit] read_site_verify_text [of v ?limit "[]"]
    by (simp add: site_verify_post_def parse_site_verify_def site_verify_body_of_def request_of_def Let_def)
  from serve_parsed [OF this] show ?thesis
    unfolding routed_is_served [OF to] routed_is_served [OF to'] by (simp add: call_of_def req)
qed

lemma siteverify_trailing_ignored_witness:
  "serve_http demo_now (demo_http_check\<lparr>rq_body := (site_verify_text demo_http_fields @ ''{}'', True)\<rparr>) demo_server
   = serve_http demo_now demo_http_check demo_server"
  by (rule siteverify_trailing_ignored [OF demo_http_post]) (simp add: same_setup_def)

subsection \<open>What clients observe\<close>

text \<open>C38. The counters report what the clients see: along any run they grow by the number of POST
  requests, of accepted and of refused tokens, of rate-limited and of blocked answers, modulo
  \<open>2 ^ 64\<close>.\<close>

theorem metrics_report_answers:
  "reported (stats (serve_all ks s)) = map2 (+) (reported (stats s)) (observed ks s)"
proof (induction ks arbitrary: s)
  case Nil
  show ?case by (simp add: observed_def reported_def)
next
  case (Cons wk ks)
  obtain wd k where wk: "wk = (wd, k)" by (cases wk)
  have "observed (wk # ks) s = map2 (+) (flags k (snd (serve wd k s))) (observed ks (fst (serve wd k s)))"
    by (simp add: wk observed_def flags_def)
  then show ?case
    using Cons.IH [of "fst (serve wd k s)"] by (simp add: wk serve_reported map2_plus_assoc)
qed

text \<open>C37. Where an origin is reflected: the answer to a challenge request or a redemption carries
  \<open>Access-Control-Allow-Origin\<close> exactly when the request names an origin and has passed the checks up to and
  including the origin's; the answer to a preflight reflects any origin, which permits the browser no more than
  to send the POST; no other answer of a handler carries the header.\<close>

theorem origin_reflected_iff:
  "(w_header (snd (serve wd (IssueChallenge r b) s)) ''Access-Control-Allow-Origin'' = Some orig
     \<longleftrightarrow> orig \<noteq> [] \<and> orig = origin_of r \<and> (\<exists>req site. admissible wd r b s req site))
   \<and> (w_header (snd (serve wd (VerifyChallenge r b') s)) ''Access-Control-Allow-Origin'' = Some orig
     \<longleftrightarrow> orig \<noteq> [] \<and> orig = origin_of r \<and> (\<exists>c site. reachable_by_origin wd r s c site))
   \<and> (w_header (snd (serve wd (Preflight r) s)) ''Access-Control-Allow-Origin'' = Some orig
     \<longleftrightarrow> orig \<noteq> [] \<and> orig = origin_of r)
   \<and> w_header (snd (serve wd (SiteVerify r b'') s)) ''Access-Control-Allow-Origin'' = None
   \<and> w_header (snd (serve wd Health s)) ''Access-Control-Allow-Origin'' = None
   \<and> w_header (snd (serve wd MetricsReport s)) ''Access-Control-Allow-Origin'' = None"
proof -
  have "w_header (options r w) acao = w_header (set_cors r w) acao" "w_header (health w) acao = w_header w acao"
    "w_header (metrics_handler m w) acao = w_header w acao" for w m
    by (simp_all add: options_def health_def metrics_handler_def acao_def)
  then have rest: "w_header (snd (serve wd (Preflight r) s)) acao = (if origin_of r = [] then None else Some (origin_of r))"
    "w_header (snd (serve wd Health s)) acao = None" "w_header (snd (serve wd MetricsReport s)) acao = None"
    by (simp_all add: serve_def handle_call_def header_cors)
  show ?thesis
    unfolding acao_def [symmetric] rest serve_issue_challenge serve_verify_challenge serve_site_verify
      issue_challenge_header verify_challenge_header site_verify_header
    by (auto simp: header_cors)
qed

subsection \<open>Tokens and keys\<close>

text \<open>C16. A minted token verifies: under any signer that knows the key it was signed with, from its issue
  until the second it expires, with exactly the claims it was minted for.\<close>

theorem minted_token_verifies:
  assumes "mint r now s sk ac h b kind score ttl = Inr (tok, c)"
    and "encodable c" and "utf8_valid (signer_kid s)" and "signer_kid s \<noteq> []"
    and "verify_keys v (signer_kid s) = Some (active_secret s)"
    and "sk \<noteq> []" "ac \<noteq> []" "h \<noteq> []"
    and "now \<le> t" and "t < time_unix (unix (now + ttl))"
  shows "verify_token v tok t = Inr c \<and> tc_site_key c = sk \<and> tc_action c = ac \<and> tc_hostname c = h
    \<and> tc_ip_bind c = b \<and> tc_challenge_kind c = kind \<and> tc_risk_score c = score"
proof -
  obtain rnd where rnd: "read_random 18 r = Some rnd"
    and c: "c = minted_claims rnd now sk ac h b kind score ttl" and "sign s c = Inr tok"
    using assms(1) by (auto simp: mint_Inr)
  with sign_authentic [OF assms(2-5)] have "authentic v tok c" by simp
  moreover have "claims_current t c"
    using assms(6-10) length_read_random [OF rnd] unfolding c
    by (intro minted_claims_current) auto
  ultimately show ?thesis by (simp add: verify_token_iff c minted_claims_def)
qed

lemma minted_token_verifies_witness:
  "verify_token (signer demo_server) demo_token (demo_start + 5 * second) = Inr demo_claims"
proof -
  have key: "signer_kid (signer demo_server) \<noteq> []"
    "verify_keys (signer demo_server) (signer_kid (signer demo_server)) = Some (active_secret (signer demo_server))"
    by (simp_all add: new_signer_with_keys_def)
  have time: "demo_start \<le> demo_start + 5 * second" "demo_start + 5 * second < time_unix (unix (demo_start + ttl_of 120))"
    by (simp_all add: second_def demo_start_def time_unix_def unix_def)
  have "verify_token (signer demo_server) demo_token (demo_start + 5 * second) = Inr demo_claims
    \<and> tc_site_key demo_claims = ''shop'' \<and> tc_action demo_claims = ''login'' \<and> tc_hostname demo_claims = ''shop.example''
    \<and> tc_ip_bind demo_claims = [] \<and> tc_challenge_kind demo_claims = ''passive'' \<and> tc_risk_score demo_claims = 0"
    using time by (intro minted_token_verifies [OF demo_mint demo_claims_encodable demo_kid key]) simp_all
  then show ?thesis ..
qed

text \<open>C17. Keys can be rotated: after the active key has been replaced, a token signed with the old one is
  checked as before if the old key is among the previous ones, whatever others there are, and refused as signed
  with an unknown key if no previous key has its identifier.\<close>

theorem key_rotation:
  assumes "sign (new_signer_with_keys secret kid older) c = Inr tok"
    and "encodable c" and "utf8_valid kid" and "kid \<noteq> []" and "kid \<noteq> kid'"
  shows "(previous kid = Some secret \<longrightarrow> verify_token (new_signer_with_keys secret' kid' previous) tok t = check_claims t c)
    \<and> (previous kid = None \<longrightarrow> verify_token (new_signer_with_keys secret' kid' previous) tok t = Inl UnknownKey)"
proof (intro conjI impI)
  let ?v = "new_signer_with_keys secret' kid' previous"
  assume "previous kid = Some secret"
  then have "authentic ?v tok c"
    using sign_authentic [OF assms(2), of "new_signer_with_keys secret kid older" ?v] assms(1,3-5)
    by (simp add: signer_previous_key)
  then show "verify_token ?v tok t = check_claims t c" by (auto simp: authentic_def verify_token_def)
next
  assume "previous kid = None"
  then show "verify_token (new_signer_with_keys secret' kid' previous) tok t = Inl UnknownKey"
    using assms by (intro verify_unknown_key [OF assms(2) _ _ _ assms(1)]) (simp_all add: signer_unknown_key)
qed

lemma key_rotation_witness:
  "verify_token (new_signer_with_keys ''newer-secret'' ''k2'' [''k0'' \<mapsto> ''oldest-secret'', ''k1'' \<mapsto> demo_signing_secret])
      demo_token demo_expiry = Inl ExpiredToken
   \<and> verify_token (new_signer_with_keys ''newer-secret'' ''k2'' [''k0'' \<mapsto> ''oldest-secret'']) demo_token demo_start = Inl UnknownKey"
proof -
  have sign: "sign (new_signer_with_keys demo_signing_secret ''k1'' Map.empty) demo_claims = Inr demo_token"
    using demo_sign by simp
  have kid: "utf8_valid ''k1''" by (simp add: ascii_simps)
  note rot = key_rotation [OF sign demo_claims_encodable kid, of "''k2''" _ "''newer-secret''"]
  have "check_claims demo_expiry demo_claims = Inl ExpiredToken"
    by (simp add: check_claims_def demo_claims_def demo_claims_of_def minted_claims_def demo_expiry_def demo_start_def unix_def)
  with rot [of "[''k0'' \<mapsto> ''oldest-secret'', ''k1'' \<mapsto> demo_signing_secret]" demo_expiry]
    rot [of "[''k0'' \<mapsto> ''oldest-secret'']" demo_start] show ?thesis by simp
qed

lemma more_evidence_more_severe_witness:
  "rd_score (local_score demo_lower demo_input demo_site) \<le> rd_score (local_score demo_lower demo_robot demo_site)"
proof -
  have "list_all2 rule_le (client_rules demo_lower demo_input) (client_rules demo_lower demo_robot)"
    "list_all2 rule_le (network_rules demo_input demo_site) (network_rules demo_robot demo_site)"
    by code_simp+
  moreover have "ri_reputation demo_robot = ri_reputation demo_input" by (simp add: demo_robot_def)
  ultimately have "list_all2 rule_le (score_rules demo_lower demo_input demo_site) (score_rules demo_lower demo_robot demo_site)"
    by (simp add: score_rules_def list_all2_appendI rule_le_def [of "(x, ReputationShare k, t)" for x k t])
  from more_evidence_more_severe [OF this] show ?thesis ..
qed

text \<open>The remote risk engine is optional: as long as it does not answer with a decision, a server that
  is configured with it treats every request as one that scores locally.\<close>

theorem engine_optional:
  assumes "engine_silent wd"
  shows "serve wd k (s\<lparr>scorer := RemoteScorer url\<rparr>)
    = (let (t, answer) = serve wd k (s\<lparr>scorer := LocalScorer\<rparr>) in (t\<lparr>scorer := RemoteScorer url\<rparr>, answer))"
  by (simp add: issue_challenge_scorer [OF assms] serve_def handle_call_def verify_challenge_scorer site_verify_scorer split_beta Let_def split: call.split)

lemma engine_optional_witness:
  "w_body (snd (serve demo_now (IssueChallenge demo_visit (GoodJson demo_ask True))
      (demo_server\<lparr>scorer := RemoteScorer ''http://risk''\<rparr>))) = Some (ChallengeBody (passive_answer demo_token))"
proof -
  have silent: "engine_silent demo_now" by (simp add: engine_silent_def demo_world_def)
  have local: "demo_server\<lparr>scorer := LocalScorer\<rparr> = demo_server"
    by (simp add: demo_server_def new_server_def demo_runtime_def)
  show ?thesis
    unfolding engine_optional [OF silent] local by (simp add: demo_answer split_beta Let_def)
qed

subsection \<open>Refusals\<close>

text \<open>A request that fails a check of \<open>issueChallenge\<close> is refused with the code of a check and
  status 400 or 403, before it counts against a rate limit: the store is as it was.\<close>

theorem inadmissible_refused:
  assumes "\<nexists>req site. admissible wd r body s req site"
  shows "\<exists>(st, e)\<in>set refusals. w_body (snd (serve wd (IssueChallenge r body) s)) = Some (ErrorBody e)
    \<and> w_status (snd (serve wd (IssueChallenge r body) s)) = Some st
    \<and> store (fst (serve wd (IssueChallenge r body) s)) = store s"
proof -
  obtain st e where e: "(st, e) \<in> set refusals"
    and "issue_challenge wd r body s (security ''/v1/challenge'' fresh_writer)
      = (count inc_requests s, write_error st e (security ''/v1/challenge'' fresh_writer))"
    using issue_challenge_refused [OF assms] by blast
  then show ?thesis
    by (intro bexI [OF _ e]) (simp add: serve_issue_challenge write_error_def w_status_write_json)
qed

lemma inadmissible_refused_witness:
  "store (fst (serve demo_now (IssueChallenge demo_visit (GoodJson (demo_ask\<lparr>cr_site_key := ''nobody''\<rparr>) True)) demo_server)) = new_memory"
proof -
  have "\<nexists>req site. admissible demo_now demo_visit (GoodJson (demo_ask\<lparr>cr_site_key := ''nobody''\<rparr>) True) demo_server req site"
    by (auto simp: admissible_def)
  from inadmissible_refused [OF this] show ?thesis by auto
qed

text \<open>The decision of a risk engine is not checked before it is used: a request is answered
  \<open>invalid-decision\<close> exactly when it is admissible, within the rate limit and the engine has answered
  with a decision that is none of the four. The local scorer never leads there.\<close>

theorem invalid_decision_iff:
  "w_body (snd (serve wd (IssueChallenge r body) s)) = Some (ErrorBody ''invalid-decision'') \<longleftrightarrow>
     (\<exists>req site url b out. admissible wd r body s req site \<and> fst (rate_check wd r req site s)
        \<and> scorer s = RemoteScorer url
        \<and> risk_at wd (url @ ''/v1/score'') (engine_request wd r req site s) = Answer 200 b \<and> decode_decision b = Some out
        \<and> rd_decision out \<noteq> [] \<and> \<not> known_decision (rd_decision out))"
    (is "?L \<longleftrightarrow> ?R")
proof (cases "\<exists>req site. admissible wd r body s req site")
  case False
  with issue_challenge_refused [OF False, of "security ''/v1/challenge'' fresh_writer"] show ?thesis
    by (auto simp: serve_issue_challenge refusals_def)
next
  case True
  then obtain req site where a: "admissible wd r body s req site" by blast
  have uniq: "req' = req \<and> site' = site" if "admissible wd r body s req' site'" for req' site'
    using that a by (auto simp: admissible_def)
  have "?L \<longleftrightarrow> fst (rate_check wd r req site s) \<and> \<not> known_decision (rd_decision (verdict wd r req site s))"
    unfolding serve_issue_challenge issue_challenge_admissible [OF a] by (simp add: Let_def answer_decision_unknown)
  with a uniq show ?thesis unfolding unknown_verdict_iff by blast
qed

text \<open>C40. An identifier that the server has issued is one that it accepts: it has 28 characters and no
  slash, a POST to the path made of it reaches \<open>verifyChallenge\<close> with this identifier, and is never
  answered with \<open>invalid-challenge-id\<close>.\<close>

theorem issued_id_accepted:
  assumes "new_challenge r1 r2 t kind sk ac h sid b score tags ttl = Inr c"
    and "rq_method q = ''POST''" and "rq_uri q \<noteq> ''*''"
    and "rq_escaped_path q = ''/v1/challenge/'' @ ch_id c @ ''/verify''"
  shows "length (ch_id c) = 28 \<and> CHR ''/'' \<notin> set (ch_id c)
    \<and> serve_http wd q s = serve wd (VerifyChallenge (request_of q [ch_id c])
        (read_verify_request (rt_max_body_bytes (cfg s)) (rq_body q))) s
    \<and> w_body (snd (serve_http wd q s)) \<noteq> Some (ErrorBody ''invalid-challenge-id'')"
proof -
  obtain idb where idb: "read_random 18 r1 = Some idb" "ch_id c = ''bsc_'' @ b64_encode idb"
    using assms(1) by (auto elim!: new_challenge_Inr)
  have "length (b64_encode idb) = 24"
    using length_read_random [OF idb(1)] by (simp add: length_b64_encode)
  moreover have "CHR ''/'' \<notin> set (b64_encode idb)" by (rule b64_no_slash)
  ultimately have id: "length (ch_id c) = 28" "CHR ''/'' \<notin> set (ch_id c)" using idb(2) by simp_all
  have "w_body (snd (serve wd (VerifyChallenge (request_of q [ch_id c]) body) s)) \<noteq> Some (ErrorBody ''invalid-challenge-id'')" for body
    unfolding serve_verify_challenge using id(1) by (intro verify_challenge_id) (auto simp: request_of_def)
  with id issued_path_routed [OF assms, of wd s] show ?thesis by simp
qed

lemma issued_id_accepted_witness:
  "\<exists>c. new_challenge (Some (\<lambda>i. 7)) (Some (\<lambda>i. 9)) 0 ''pow'' ''shop'' ''login'' ''shop.example'' ''s1'' [] 50 [] minute = Inr c
     \<and> w_body (snd (serve_http demo_now (demo_http_visit\<lparr>rq_escaped_path := ''/v1/challenge/'' @ ch_id c @ ''/verify''\<rparr>) demo_server))
       \<noteq> Some (ErrorBody ''invalid-challenge-id'')"
proof -
  obtain c where c: "new_challenge (Some (\<lambda>i. 7)) (Some (\<lambda>i. 9)) 0 ''pow'' ''shop'' ''login'' ''shop.example'' ''s1'' [] 50 [] minute = Inr c"
    by (simp add: new_challenge_def new_id_def new_seed_def read_random_def Let_def)
  let ?q = "demo_http_visit\<lparr>rq_escaped_path := ''/v1/challenge/'' @ ch_id c @ ''/verify''\<rparr>"
  have q: "rq_method ?q = ''POST''" "rq_uri ?q \<noteq> ''*''" "rq_escaped_path ?q = ''/v1/challenge/'' @ ch_id c @ ''/verify''"
    by (simp_all add: demo_http_visit_def)
  from issued_id_accepted [OF c q, of demo_now demo_server] c show ?thesis by blast
qed

subsection \<open>Requests that overlap\<close>

lemma concurrent_single_use_witness:
  "\<exists>ls t Q v v'. run (requests (\<lambda>i. (demo_now, SiteVerify demo_request demo_body)) demo_server) ls (t, Q)
     \<and> Q 0 = Halt v \<and> accepted v \<and> Q 1 = Halt v' \<and> \<not> accepted v'"
proof -
  let ?reqs = "\<lambda>i :: nat. (demo_now, SiteVerify demo_request demo_body)"
  obtain ls t Q v' where run: "run (requests ?reqs demo_server) ls (t, Q)"
    and Q: "Q 0 = Halt (snd (serve demo_now (SiteVerify demo_request demo_body) demo_server))" "Q 1 = Halt v'"
    using run_two [of 0 1 ?reqs demo_server] by auto
  have acc: "accepted (snd (serve demo_now (SiteVerify demo_request demo_body) demo_server))"
    by (rule demo_first_accepted) (simp_all add: demo_expiry_def)
  have pres: "presents demo_now demo_request demo_body demo_server demo_claims"
    by (rule demo_presents) (simp_all add: demo_expiry_def)
  have "\<not> (\<exists>v v'. Q 0 = Halt v \<and> Q 1 = Halt v' \<and> accepted v \<and> accepted v')"
    by (rule concurrent_single_use [OF run refl refl _ pres pres refl, where e = demo_start])
      (simp_all add: clocks_until_def demo_expiry_def)
  with run Q acc show ?thesis by blast
qed

lemma concurrent_single_redemption_witness:
  "\<exists>ls t Q v v' tok. run (requests (\<lambda>i. (demo_now, VerifyChallenge demo_request (demo_solution ''s1''))) (demo_waiting 0)) ls (t, Q)
     \<and> Q 0 = Halt v \<and> w_body v = Some (VerifyBody (redeemed tok))
     \<and> Q 1 = Halt v' \<and> (\<forall>tok'. w_body v' \<noteq> Some (VerifyBody (redeemed tok')))"
proof -
  let ?k = "VerifyChallenge demo_request (demo_solution ''s1'')"
  let ?reqs = "\<lambda>i :: nat. (demo_now, ?k)"
  obtain ls t Q v' where run: "run (requests ?reqs (demo_waiting 0)) ls (t, Q)"
    and Q: "Q 0 = Halt (snd (serve demo_now ?k (demo_waiting 0)))" "Q 1 = Halt v'"
    using run_two [of 0 1 ?reqs "demo_waiting 0"] by auto
  obtain tok where tok: "w_body (snd (serve demo_now ?k (demo_waiting 0))) = Some (VerifyBody (redeemed tok))"
    using demo_redeemed by blast
  have id: "path_id demo_request = ''bsc_x''" by (simp add: demo_request_def)
  have "\<not> (\<exists>v v' tok tok'. Q 0 = Halt v \<and> Q 1 = Halt v' \<and> w_body v = Some (VerifyBody (redeemed tok))
      \<and> w_body v' = Some (VerifyBody (redeemed tok')))"
    by (rule concurrent_single_redemption [OF run refl refl _ refl]) (simp_all add: id demo_never_issues)
  with run Q tok show ?thesis by blast
qed

lemma concurrent_store_ok_witness:
  "\<exists>ls t Q. run (requests (\<lambda>i. (demo_now, IssueChallenge demo_visit (GoodJson demo_ask True))) (new_server demo_runtime)) ls (t, Q)
     \<and> (\<exists>v. Q 0 = Halt v) \<and> store_ok (store t)"
proof -
  obtain ls t Q where run: "run (requests (\<lambda>i. (demo_now, IssueChallenge demo_visit (GoodJson demo_ask True))) (new_server demo_runtime)) ls (t, Q)"
    and "\<exists>v. Q 0 = Halt v"
    using run_two [of 0 1 "\<lambda>i. (demo_now, IssueChallenge demo_visit (GoodJson demo_ask True))" "new_server demo_runtime"] by auto
  with concurrent_store_ok [OF run] show ?thesis by blast
qed

definition demo_key :: string where
  "demo_key = rate_key demo_site ''192.0.2.7'' ''login''"

lemma demo_admissible_iff:
  "admissible demo_now demo_visit (GoodJson demo_ask True) demo_server req site \<longleftrightarrow> req = demo_ask \<and> site = demo_site"
  using demo_admissible by (auto simp: admissible_def)

lemma concurrent_rate_limit_witness:
  "\<exists>ls t Q. run (requests (\<lambda>i. (demo_now, IssueChallenge demo_visit (GoodJson demo_ask True))) demo_server) ls (t, Q)
     \<and> let_through demo_key demo_server demo_now (IssueChallenge demo_visit (GoodJson demo_ask True)) (Q 0)
     \<and> int (card {i. let_through demo_key demo_server demo_now (IssueChallenge demo_visit (GoodJson demo_ask True)) (Q i)}) \<le> 60"
proof -
  let ?k = "IssueChallenge demo_visit (GoodJson demo_ask True)"
  let ?reqs = "\<lambda>i :: nat. (demo_now, ?k)"
  obtain ls t Q where run: "run (requests ?reqs demo_server) ls (t, Q)" and len: "length ls \<le> 10"
    and Q: "Q 0 = Halt (snd (serve demo_now ?k demo_server))"
    using run_first [of ?reqs 0 demo_server] issue_prog_steps [of demo_now demo_visit "GoodJson demo_ask True" demo_server]
    by (auto simp: call_prog_def)
  have "let_through demo_key demo_server demo_now ?k (Q 0)"
    by (simp add: let_through_def Q demo_answer demo_key_def demo_admissible_iff demo_network)
  moreover have later: "zero_time < demo_start" by (simp add: demo_start_def zero_time_def)
  have "int (card {i. let_through demo_key demo_server (fst (?reqs i)) (snd (?reqs i)) (Q i)})
      \<le> (if window_open demo_start minute (rates (store demo_server) demo_key) then 2 * max 0 60 else max 0 60)"
    by (rule concurrent_rate_limit [where T = demo_start, OF run, THEN conjunct2])
      (use len later in \<open>auto simp: new_memory_def demo_admissible_iff minute_def\<close>)
  then have "int (card {i. let_through demo_key demo_server (fst (?reqs i)) (snd (?reqs i)) (Q i)}) \<le> 60"
    by (simp add: new_memory_def window_open_def)
  ultimately show ?thesis using run by auto
qed

definition wrong_session :: call where
  "wrong_session = VerifyChallenge demo_request (demo_solution ''s2'')"

text \<open>C25. The limit of three attempts binds requests that come one after the other: requests that overlap can
  all look the challenge up before the first failure is recorded, and any number of attempts is then
  judged and answered as a failed attempt.\<close>

theorem overlapping_attempts_judged:
  "\<exists>ls t Q. run (requests (\<lambda>i. (demo_now, wrong_session)) (demo_waiting 0)) ls (t, Q)
     \<and> (\<forall>i<n. \<exists>v. Q i = Halt v \<and> strikes ''bsc_x'' wrong_session v)"
proof -
  let ?p = "call_prog demo_now wrong_session (demo_waiting 0)"
  let ?w = "security (call_path wrong_session) fresh_writer"
  let ?k = "found_prog demo_now demo_request (demo_solution ''s2'') (demo_waiting 0) ?w"
  let ?v = "write_error 400 ''session-binding-mismatch'' (set_cors demo_request ?w)"
  have id: "path_id demo_request = ''bsc_x''" by (simp add: demo_request_def)
  have p: "?p = Count inc_requests (Access (Get demo_start ''bsc_x'') ?k)"
    by (simp add: call_prog_def wrong_session_def verify_prog_def id)
  have k: "?k (Found (Some (demo_challenge 0))) = Access (Fail ''bsc_x'' 3) (\<lambda>a. Halt ?v)"
    by (simp add: found_prog_def id demo_challenge_def registry_get_def origin_allowed_for_hostname_def
        decode_json_def demo_solution_def Let_def)
  have c: "challenges (store (demo_waiting 0)) ''bsc_x'' = Some (demo_challenge 0)" "demo_start \<le> ch_expires_at (demo_challenge 0)"
    by (simp_all add: demo_challenge_def)
  obtain ls t where ls: "run (demo_waiting 0, \<lambda>i. ?p) ls (t, \<lambda>i. if i < n then ?k (Found (Some (demo_challenge 0))) else ?p)"
    using all_look_up [OF p c] by blast
  obtain ms u Q where "run (t, \<lambda>i. if i < n then ?k (Found (Some (demo_challenge 0))) else ?p) ms (u, Q)" "\<forall>i<n. Q i = Halt ?v"
    using all_fail [of n "\<lambda>i. if i < n then ?k (Found (Some (demo_challenge 0))) else ?p" "''bsc_x''" ?v t] k by auto
  moreover have "strikes ''bsc_x'' wrong_session ?v" by (simp add: strikes_def wrong_session_def id strike_body_def)
  moreover have "requests (\<lambda>i. (demo_now, wrong_session)) (demo_waiting 0) = (demo_waiting 0, \<lambda>i. ?p)"
    by (simp add: requests_def)
  ultimately show ?thesis using run_trans [OF _ ls] by metis
qed

lemma overlapping_attempts_judged_witness:
  "\<exists>ls t Q v. run (requests (\<lambda>i. (demo_now, wrong_session)) (demo_waiting 0)) ls (t, Q)
     \<and> Q 3 = Halt v \<and> strikes ''bsc_x'' wrong_session v"
proof -
  have "(3::nat) < 4" by simp
  with overlapping_attempts_judged [of 4] show ?thesis by blast
qed

lemma requests_terminate_witness:
  "\<exists>ls t Q. run (requests (\<lambda>i. (demo_now, MetricsReport)) demo_server) ls (t, Q) \<and> steps_of 0 ls \<le> 10 \<and> (\<exists>w. Q 0 = Halt w)"
proof -
  obtain ls t Q where run: "run (requests (\<lambda>i. (demo_now, MetricsReport)) demo_server) ls (t, Q)" and "\<exists>w. Q 0 = Halt w"
    using run_first [of "\<lambda>i. (demo_now, MetricsReport)" 0 demo_server] by auto
  with requests_terminate [OF run, of 0] show ?thesis by blast
qed

end
